(* ===== verification/Go_Prelude.thy ===== *)
theory Go_Prelude
  imports Complex_Main "HOL-Library.AList" "HOL-Library.Multiset" "HOL-Library.List_Lexorder"
    "HOL-Library.Char_ord"
begin

text \<open>
  The part of the Go language and its standard library that the autoscaler uses, shared by
  every component of the development:
  \<^item> \<open>gofloat\<close>: the values of \<^verbatim>\<open>float32\<close> and \<^verbatim>\<open>float64\<close>. Finite values are exact
    real numbers (rounding is not modelled); the infinities and NaN are values of their own,
    with Go's arithmetic and comparisons on them, so that a comparison with NaN is false and
    a division by zero gives an infinity or NaN, as in the code;
  \<^item> \<open>gomap\<close>: a Go map as an association list with distinct keys, whose order is the
    order of iteration. Go leaves that order open; a theorem about every list is a theorem
    about every order;
  \<^item> formatted messages, kept as the format and its arguments;
  \<^item> \<^verbatim>\<open>cmp.Compare\<close>, \<^verbatim>\<open>slices.SortFunc\<close>, \<^verbatim>\<open>slices.BinarySearchFunc\<close> and
    \<^verbatim>\<open>slices.Insert\<close>, with the contract of a comparison function as a locale.
  Signed zeros are identified, and \<^verbatim>\<open>int\<close> is unbounded unless a theory says otherwise.
\<close>

named_theorems go_defs \<open>definitions that component proofs unfold\<close>
named_theorems fin_simps \<open>arithmetic of finite floating-point values\<close>
named_theorems gomap_simps \<open>lookups in updated Go maps\<close>

section \<open>Floating-point values\<close>

datatype gofloat = Fin real | PInf | NInf | NaN

fun gf_add :: "gofloat \<Rightarrow> gofloat \<Rightarrow> gofloat" where
  "gf_add (Fin a) (Fin b) = Fin (a + b)"
| "gf_add (Fin a) PInf = PInf"
| "gf_add (Fin a) NInf = NInf"
| "gf_add PInf (Fin b) = PInf"
| "gf_add NInf (Fin b) = NInf"
| "gf_add PInf PInf = PInf"
| "gf_add NInf NInf = NInf"
| "gf_add _ _ = NaN"

fun gf_neg :: "gofloat \<Rightarrow> gofloat" where
  "gf_neg (Fin a) = Fin (- a)"
| "gf_neg PInf = NInf"
| "gf_neg NInf = PInf"
| "gf_neg NaN = NaN"

text \<open>An infinity of the given sign; zero times infinity is NaN.\<close>

definition gf_inf :: "real \<Rightarrow> gofloat" where
  "gf_inf s = (if s > 0 then PInf else if s < 0 then NInf else NaN)"

fun gf_mul :: "gofloat \<Rightarrow> gofloat \<Rightarrow> gofloat" where
  "gf_mul (Fin a) (Fin b) = Fin (a * b)"
| "gf_mul (Fin a) PInf = gf_inf a"
| "gf_mul (Fin a) NInf = gf_inf (- a)"
| "gf_mul PInf (Fin b) = gf_inf b"
| "gf_mul NInf (Fin b) = gf_inf (- b)"
| "gf_mul PInf PInf = PInf"
| "gf_mul NInf NInf = PInf"
| "gf_mul PInf NInf = NInf"
| "gf_mul NInf PInf = NInf"
| "gf_mul _ _ = NaN"

fun gf_div :: "gofloat \<Rightarrow> gofloat \<Rightarrow> gofloat" where
  "gf_div (Fin a) (Fin b) = (if b = 0 then gf_inf a else Fin (a / b))"
| "gf_div (Fin a) PInf = Fin 0"
| "gf_div (Fin a) NInf = Fin 0"
| "gf_div PInf (Fin b) = (if b < 0 then NInf else PInf)"
| "gf_div NInf (Fin b) = (if b < 0 then PInf else NInf)"
| "gf_div _ _ = NaN"

fun gf_less :: "gofloat \<Rightarrow> gofloat \<Rightarrow> bool" where
  "gf_less (Fin a) (Fin b) = (a < b)"
| "gf_less (Fin a) PInf = True"
| "gf_less NInf (Fin b) = True"
| "gf_less NInf PInf = True"
| "gf_less _ _ = False"

fun gf_le :: "gofloat \<Rightarrow> gofloat \<Rightarrow> bool" where
  "gf_le (Fin a) (Fin b) = (a \<le> b)"
| "gf_le (Fin a) PInf = True"
| "gf_le NInf (Fin b) = True"
| "gf_le NInf PInf = True"
| "gf_le PInf PInf = True"
| "gf_le NInf NInf = True"
| "gf_le _ _ = False"

text \<open>Go's \<^verbatim>\<open>==\<close>: NaN is not equal to itself.\<close>

definition feq :: "gofloat \<Rightarrow> gofloat \<Rightarrow> bool" where
  "feq x y \<longleftrightarrow> x = y \<and> x \<noteq> NaN"

instantiation gofloat :: "{zero, one, plus, uminus, minus, times, inverse, ord}"
begin

definition zero_gofloat :: gofloat where "zero_gofloat = Fin 0"
definition one_gofloat :: gofloat where "one_gofloat = Fin 1"
definition plus_gofloat :: "gofloat \<Rightarrow> gofloat \<Rightarrow> gofloat" where "plus_gofloat = gf_add"
definition uminus_gofloat :: "gofloat \<Rightarrow> gofloat" where "uminus_gofloat = gf_neg"
definition minus_gofloat :: "gofloat \<Rightarrow> gofloat \<Rightarrow> gofloat" where
  "minus_gofloat x y = gf_add x (gf_neg y)"
definition times_gofloat :: "gofloat \<Rightarrow> gofloat \<Rightarrow> gofloat" where "times_gofloat = gf_mul"
definition divide_gofloat :: "gofloat \<Rightarrow> gofloat \<Rightarrow> gofloat" where "divide_gofloat = gf_div"
definition inverse_gofloat :: "gofloat \<Rightarrow> gofloat" where "inverse_gofloat = gf_div (Fin 1)"
definition less_gofloat :: "gofloat \<Rightarrow> gofloat \<Rightarrow> bool" where "less_gofloat = gf_less"
definition less_eq_gofloat :: "gofloat \<Rightarrow> gofloat \<Rightarrow> bool" where "less_eq_gofloat = gf_le"

instance ..

end

lemmas gofloat_op_defs = plus_gofloat_def uminus_gofloat_def minus_gofloat_def
  times_gofloat_def divide_gofloat_def inverse_gofloat_def less_gofloat_def less_eq_gofloat_def
  zero_gofloat_def one_gofloat_def

lemma fin_ops [simp, fin_simps]:
  "Fin a + Fin b = Fin (a + b)"
  "Fin a - Fin b = Fin (a - b)"
  "- Fin a = Fin (- a)"
  "Fin a * Fin b = Fin (a * b)"
  "Fin a / Fin b = (if b = 0 then gf_inf a else Fin (a / b))"
  by (simp_all add: gofloat_op_defs)

lemma fin_order [simp, fin_simps]:
  "Fin a < Fin b \<longleftrightarrow> a < b"
  "Fin a \<le> Fin b \<longleftrightarrow> a \<le> b"
  by (simp_all add: gofloat_op_defs)

lemma fin_zero [fin_simps]: "0 = Fin 0" and fin_one [fin_simps]: "1 = Fin 1"
  by (simp_all add: gofloat_op_defs)

lemma feq_Fin [simp, fin_simps]:
  "feq (Fin a) y \<longleftrightarrow> y = Fin a"
  "feq x (Fin a) \<longleftrightarrow> x = Fin a"
  by (auto simp: feq_def)

lemma nan_compare [simp]:
  "\<not> NaN < x" "\<not> x < NaN" "\<not> NaN \<le> x" "\<not> x \<le> NaN" "\<not> feq NaN x" "\<not> feq x NaN"
  by (cases x; simp add: gofloat_op_defs feq_def)+

lemma inf_compare [simp]:
  "\<not> PInf < x" "\<not> x < NInf" "Fin a < PInf" "NInf < Fin a" "NInf < PInf"
  "Fin a \<le> PInf" "NInf \<le> Fin a" "\<not> PInf \<le> Fin a" "\<not> Fin a \<le> NInf"
  by (cases x; simp add: gofloat_op_defs)+

lemma nan_arith [simp]:
  "NaN + x = NaN" "x + NaN = NaN" "NaN - x = NaN" "x - NaN = NaN"
  "NaN * x = NaN" "x * NaN = NaN" "NaN / x = NaN" "x / NaN = NaN"
  by (cases x; simp add: gofloat_op_defs)+

definition is_fin :: "gofloat \<Rightarrow> bool" where
  "is_fin x \<longleftrightarrow> (case x of Fin _ \<Rightarrow> True | _ \<Rightarrow> False)"

fun real_of :: "gofloat \<Rightarrow> real" where
  "real_of (Fin a) = a"
| "real_of _ = 0"

lemma is_fin_simps [simp]: "is_fin (Fin a)" "\<not> is_fin PInf" "\<not> is_fin NInf" "\<not> is_fin NaN"
  by (simp_all add: is_fin_def)

lemma Fin_real_of [simp]: "is_fin x \<Longrightarrow> Fin (real_of x) = x"
  by (cases x) simp_all

lemma is_finE [elim?]: "is_fin x \<Longrightarrow> (\<And>a. x = Fin a \<Longrightarrow> P) \<Longrightarrow> P"
  by (cases x) simp_all

text \<open>\<^verbatim>\<open>float64(i)\<close> of an integer, and the built-in \<^verbatim>\<open>min\<close> and \<^verbatim>\<open>max\<close>, which return
  NaN when an argument is NaN.\<close>

definition float_of_int :: "int \<Rightarrow> gofloat" where
  "float_of_int i = Fin (real_of_int i)"

definition fmin :: "gofloat \<Rightarrow> gofloat \<Rightarrow> gofloat" where
  "fmin x y = (if x = NaN \<or> y = NaN then NaN else if x < y then x else y)"

definition fmax :: "gofloat \<Rightarrow> gofloat \<Rightarrow> gofloat" where
  "fmax x y = (if x = NaN \<or> y = NaN then NaN else if y < x then x else y)"

lemma fmin_Fin [simp, fin_simps]: "fmin (Fin a) (Fin b) = Fin (min a b)"
  by (simp add: fmin_def min_def)

lemma fmax_Fin [simp, fin_simps]: "fmax (Fin a) (Fin b) = Fin (max a b)"
  by (simp add: fmax_def max_def)

lemma float_of_int_Fin [simp]: "is_fin (float_of_int i)"
  by (simp add: float_of_int_def)

text \<open>Summing a list in the order of a loop \<^verbatim>\<open>s += x\<close>.\<close>

lemma foldl_plus_Fin:
  "foldl (\<lambda>s x. s + f x) (Fin s) xs = Fin (s + sum_list (map (\<lambda>x. real_of (f x)) xs))"
  if "\<forall>x\<in>set xs. is_fin (f x)"
  using that
proof (induction xs arbitrary: s)
  case Nil
  then show ?case by simp
next
  case (Cons x xs)
  then have "Fin s + f x = Fin (s + real_of (f x))"
    by (cases "f x") simp_all
  with Cons show ?case by (simp add: add.assoc)
qed

section \<open>Go maps\<close>

type_synonym ('k, 'v) gomap = "('k \<times> 'v) list"

abbreviation mget :: "('k, 'v) gomap \<Rightarrow> 'k \<Rightarrow> 'v option" where
  "mget m k \<equiv> map_of m k"

abbreviation mput :: "'k \<Rightarrow> 'v \<Rightarrow> ('k, 'v) gomap \<Rightarrow> ('k, 'v) gomap" where
  "mput k v m \<equiv> AList.update k v m"

abbreviation mdel :: "'k \<Rightarrow> ('k, 'v) gomap \<Rightarrow> ('k, 'v) gomap" where
  "mdel k m \<equiv> AList.delete k m"

text \<open>\<^verbatim>\<open>m[k]\<close> with the zero value of the element type for a missing key.\<close>

definition mget0 :: "'v \<Rightarrow> ('k, 'v) gomap \<Rightarrow> 'k \<Rightarrow> 'v" where
  "mget0 z m k = (case mget m k of None \<Rightarrow> z | Some v \<Rightarrow> v)"

definition wf_map :: "('k, 'v) gomap \<Rightarrow> bool" where
  "wf_map m \<longleftrightarrow> distinct (map fst m)"

text \<open>The contract every user of a Go map relies on.\<close>

locale go_map =
  fixes emp :: "'m"
    and put :: "'k \<Rightarrow> 'v \<Rightarrow> 'm \<Rightarrow> 'm"
    and del :: "'k \<Rightarrow> 'm \<Rightarrow> 'm"
    and lookup :: "'m \<Rightarrow> 'k \<Rightarrow> 'v option"
    and invar :: "'m \<Rightarrow> bool"
  assumes lookup_emp: "lookup emp k = None"
    and lookup_put: "invar m \<Longrightarrow> lookup (put k v m) k' = (if k' = k then Some v else lookup m k')"
    and lookup_del: "invar m \<Longrightarrow> lookup (del k m) k' = (if k' = k then None else lookup m k')"
    and invar_emp: "invar emp"
    and invar_put: "invar m \<Longrightarrow> invar (put k v m)"
    and invar_del: "invar m \<Longrightarrow> invar (del k m)"
begin

text \<open>A loop that stores one entry per element: the last element with a key wins.\<close>

lemma invar_foldl_put: "invar m \<Longrightarrow> invar (foldl (\<lambda>m x. put (f x) (g x) m) m xs)"
  by (induction xs arbitrary: m) (simp_all add: invar_put)

lemma lookup_foldl_put:
  "invar m \<Longrightarrow> lookup (foldl (\<lambda>m x. put (f x) (g x) m) m xs) k =
     (case find (\<lambda>x. f x = k) (rev xs) of Some x \<Rightarrow> Some (g x) | None \<Rightarrow> lookup m k)"
proof (induction xs arbitrary: m rule: rev_induct)
  case Nil
  then show ?case by simp
next
  case (snoc x xs)
  then show ?case by (simp add: lookup_put invar_foldl_put)
qed

lemma lookup_foldl_put_distinct:
  assumes "invar m" and "distinct (map f xs)" and "x \<in> set xs"
  shows "lookup (foldl (\<lambda>m x. put (f x) (g x) m) m xs) (f x) = Some (g x)"
  using assms
proof (induction xs arbitrary: m rule: rev_induct)
  case Nil
  then show ?case by simp
next
  case (snoc y ys)
  show ?case
  proof (cases "x = y")
    case True
    with snoc.prems show ?thesis by (simp add: lookup_put invar_foldl_put)
  next
    case False
    with snoc.prems have "x \<in> set ys" by auto
    moreover from snoc.prems have "f y \<notin> f ` set ys" by simp
    ultimately have "f x \<noteq> f y" by (metis imageI)
    with snoc \<open>x \<in> set ys\<close> show ?thesis by (simp add: lookup_put invar_foldl_put)
  qed
qed

lemma lookup_foldl_put_None:
  "invar m \<Longrightarrow> k \<notin> f ` set xs \<Longrightarrow> lookup (foldl (\<lambda>m x. put (f x) (g x) m) m xs) k = lookup m k"
  by (induction xs arbitrary: m) (auto simp: lookup_put invar_put)

end

interpretation gm: go_map "[]" AList.update AList.delete map_of wf_map
  by unfold_locales (auto simp: wf_map_def update_conv' delete_conv' distinct_update distinct_delete)


lemma wf_map_Nil [simp, intro]: "wf_map []"
  by (rule gm.invar_emp)

lemma wf_map_put [simp, intro]: "wf_map m \<Longrightarrow> wf_map (mput k v m)"
  by (rule gm.invar_put)

lemma wf_map_del [simp, intro]: "wf_map m \<Longrightarrow> wf_map (mdel k m)"
  by (rule gm.invar_del)

lemma mget_put [simp, gomap_simps]: "mget (mput k v m) k' = (if k' = k then Some v else mget m k')"
  by (simp add: update_conv')

lemma mget_del [simp, gomap_simps]: "mget (mdel k m) k' = (if k' = k then None else mget m k')"
  by (simp add: delete_conv')

lemma mget0_put [simp, gomap_simps]: "mget0 z (mput k v m) k' = (if k' = k then v else mget0 z m k')"
  by (simp add: mget0_def)

lemma mget0_Nil [simp, gomap_simps]: "mget0 z [] k = z"
  by (simp add: mget0_def)

lemma wf_map_mget: "wf_map m \<Longrightarrow> mget m k = Some v \<longleftrightarrow> (k, v) \<in> set m"
  by (simp add: wf_map_def)

lemma mget_in_keys: "mget m k = Some v \<Longrightarrow> k \<in> fst ` set m"
  by (metis map_of_SomeD fst_conv imageI)

lemma set_mput: "set (mput k v m) \<subseteq> insert (k, v) (set m)"
  by (induction m) auto

lemma keys_put: "fst ` set (mput k v m) = insert k (fst ` set m)"
  by (simp add: dom_update)

section \<open>Formatted messages\<close>

text \<open>\<^verbatim>\<open>fmt.Sprintf\<close> and \<^verbatim>\<open>fmt.Errorf\<close> texts: the format with the list of its arguments, one of
  which may be a formatted text (a wrapped error or the result of a \<^verbatim>\<open>String\<close> method).\<close>

datatype fmtarg = FInt int | FFloat gofloat | FStr string | FBool bool
  | FMsg "string \<times> fmtarg list"

type_synonym message = "string \<times> fmtarg list"

definition sprintf :: "string \<Rightarrow> fmtarg list \<Rightarrow> message" where
  "sprintf f args = (f, args)"

section \<open>Integer division\<close>

text \<open>Go truncates towards zero; the divisor is never zero where the code divides.\<close>

definition godiv :: "int \<Rightarrow> int \<Rightarrow> int" where
  "godiv a b = sgn a * sgn b * (\<bar>a\<bar> div \<bar>b\<bar>)"

lemma godiv_nonneg [simp]: "0 \<le> a \<Longrightarrow> 0 < b \<Longrightarrow> godiv a b = a div b"
  by (cases "a = 0") (simp_all add: godiv_def)

lemma godiv_neg: "a < 0 \<Longrightarrow> 0 < b \<Longrightarrow> godiv a b \<le> 0"
  by (simp add: godiv_def pos_imp_zdiv_nonneg_iff)

lemma godiv_pos_iff: "0 < b \<Longrightarrow> 0 < godiv a b \<longleftrightarrow> b \<le> a"
proof (cases "0 \<le> a")
  case True
  assume "0 < b"
  with True show ?thesis by (simp add: pos_imp_zdiv_pos_iff)
next
  case False
  assume "0 < b"
  with False show ?thesis using godiv_neg [of a b] by simp
qed

lemma godiv_mult_le: "0 < b \<Longrightarrow> 0 \<le> a \<Longrightarrow> godiv a b * b \<le> a"
  by simp (metis mult.commute pos_mod_sign minus_mod_eq_mult_div diff_ge_0_iff_ge
      minus_mod_eq_div_mult order_less_imp_le diff_le_self diff_left_mono diff_zero)

section \<open>Ordering and sorting\<close>

definition cmp_int :: "int \<Rightarrow> int \<Rightarrow> int" where
  "cmp_int x y = (if x < y then -1 else if y < x then 1 else 0)"

text \<open>\<^verbatim>\<open>cmp.Compare\<close> on floats: NaN is less than any other value and equal to itself.\<close>

definition cmp_float :: "gofloat \<Rightarrow> gofloat \<Rightarrow> int" where
  "cmp_float x y =
     (if x = NaN then (if y = NaN then 0 else -1)
      else if y = NaN then 1
      else if x < y then -1 else if y < x then 1 else 0)"

text \<open>\<^verbatim>\<open>slices.SortFunc\<close>: a stable insertion sort, as the library runs on short slices. The
  entries come from map iterations, whose order is arbitrary, so no order among equal
  elements is lost.\<close>

fun insert_cmp :: "('a \<Rightarrow> 'a \<Rightarrow> int) \<Rightarrow> 'a \<Rightarrow> 'a list \<Rightarrow> 'a list" where
  "insert_cmp c x [] = [x]"
| "insert_cmp c x (y # ys) = (if c x y \<le> 0 then x # y # ys else y # insert_cmp c x ys)"

definition sort_func :: "('a \<Rightarrow> 'a \<Rightarrow> int) \<Rightarrow> 'a list \<Rightarrow> 'a list" where
  "sort_func c xs = foldr (insert_cmp c) xs []"

text \<open>\<^verbatim>\<open>slices.BinarySearchFunc\<close> (the index only) and \<^verbatim>\<open>slices.Insert\<close>.\<close>

function bsearch_loop :: "('a \<Rightarrow> 'a \<Rightarrow> int) \<Rightarrow> 'a list \<Rightarrow> 'a \<Rightarrow> nat \<Rightarrow> nat \<Rightarrow> nat" where
  "bsearch_loop c xs t i j =
     (if i < j then
        let h = (i + j) div 2
        in if c (xs ! h) t < 0 then bsearch_loop c xs t (h + 1) j else bsearch_loop c xs t i h
      else i)"
  by pat_completeness auto
termination
  by (relation "measure (\<lambda>(c, xs, t, i, j). j - i)") auto

declare bsearch_loop.simps [simp del]

lemma bsearch_loop_done: "\<not> i < j \<Longrightarrow> bsearch_loop c xs t i j = i"
  by (subst bsearch_loop.simps) simp

lemma bsearch_loop_low:
  "i < j \<Longrightarrow> c (xs ! ((i + j) div 2)) t < 0 \<Longrightarrow>
    bsearch_loop c xs t i j = bsearch_loop c xs t ((i + j) div 2 + 1) j"
  by (subst bsearch_loop.simps) (simp add: Let_def)

lemma bsearch_loop_high:
  "i < j \<Longrightarrow> \<not> c (xs ! ((i + j) div 2)) t < 0 \<Longrightarrow>
    bsearch_loop c xs t i j = bsearch_loop c xs t i ((i + j) div 2)"
  by (subst bsearch_loop.simps) (simp add: Let_def)

definition binary_search_func :: "('a \<Rightarrow> 'a \<Rightarrow> int) \<Rightarrow> 'a list \<Rightarrow> 'a \<Rightarrow> nat" where
  "binary_search_func c xs t = bsearch_loop c xs t 0 (length xs)"

definition insert_at :: "'a list \<Rightarrow> nat \<Rightarrow> 'a \<Rightarrow> 'a list" where
  "insert_at xs i x = take i xs @ x # drop i xs"

lemma mset_insert_cmp [simp]: "mset (insert_cmp c x xs) = add_mset x (mset xs)"
  by (induction xs) auto

lemma set_insert_cmp [simp]: "set (insert_cmp c x xs) = insert x (set xs)"
  by (induction xs) auto

lemma mset_sort_func [simp]: "mset (sort_func c xs) = mset xs"
  by (induction xs) (simp_all add: sort_func_def)

lemma set_sort_func [simp]: "set (sort_func c xs) = set xs"
  by (metis mset_sort_func set_mset_mset)

lemma length_sort_func [simp]: "length (sort_func c xs) = length xs"
  by (metis mset_sort_func size_mset)

lemma mset_insert_at [simp]: "mset (insert_at xs i x) = add_mset x (mset xs)"
  by (simp add: insert_at_def) (metis append_take_drop_id mset_append)

lemma set_insert_at [simp]: "set (insert_at xs i x) = insert x (set xs)"
  by (metis mset_insert_at set_mset_add_mset_insert set_mset_mset)

lemma length_insert_at [simp]: "length (insert_at xs i x) = Suc (length xs)"
  by (metis mset_insert_at size_add_mset size_mset)

text \<open>What sorting and searching ask of a comparison function.\<close>

locale comparator =
  fixes cmp :: "'a \<Rightarrow> 'a \<Rightarrow> int"
  assumes cmp_anti: "cmp x y < 0 \<longleftrightarrow> 0 < cmp y x"
    and cmp_trans: "cmp x y \<le> 0 \<Longrightarrow> cmp y z \<le> 0 \<Longrightarrow> cmp x z \<le> 0"
begin

lemma cmp_refl: "cmp x x = 0"
  using cmp_anti [of x x] by (cases "cmp x x" "0::int" rule: linorder_cases) auto

lemma cmp_total: "cmp x y \<le> 0 \<or> cmp y x \<le> 0"
  using cmp_anti [of y x] by linarith

lemma cmp_less_trans: "cmp x y \<le> 0 \<Longrightarrow> cmp y z < 0 \<Longrightarrow> cmp x z < 0"
  using cmp_trans [of z x y] cmp_anti by (metis linorder_not_le)

lemma sorted_insert_cmp:
  "sorted_wrt (\<lambda>a b. cmp a b \<le> 0) xs \<Longrightarrow> sorted_wrt (\<lambda>a b. cmp a b \<le> 0) (insert_cmp cmp x xs)"
proof (induction xs)
  case Nil
  then show ?case by simp
next
  case (Cons y ys)
  show ?case
  proof (cases "cmp x y \<le> 0")
    case True
    with Cons.prems show ?thesis by (auto intro: cmp_trans)
  next
    case False
    with cmp_total have "cmp y x \<le> 0" by blast
    with False Cons show ?thesis by auto
  qed
qed

lemma sorted_sort_func: "sorted_wrt (\<lambda>a b. cmp a b \<le> 0) (sort_func cmp xs)"
  by (induction xs) (simp_all add: sort_func_def sorted_insert_cmp)

lemma bsearch_loop_bounds:
  "i \<le> j \<Longrightarrow> i \<le> bsearch_loop cmp xs t i j \<and> bsearch_loop cmp xs t i j \<le> j"
proof (induction "j - i" arbitrary: i j rule: less_induct)
  case less
  show ?case
  proof (cases "i < j")
    case True
    define h where "h = (i + j) div 2"
    have h: "i \<le> h" "h < j" using True by (auto simp: h_def)
    show ?thesis
    proof (cases "cmp (xs ! h) t < 0")
      case low: True
      have "h + 1 \<le> bsearch_loop cmp xs t (h + 1) j \<and> bsearch_loop cmp xs t (h + 1) j \<le> j"
        using h by (intro less.hyps) auto
      with h show ?thesis
        using bsearch_loop_low [OF True, of cmp xs t] low by (simp add: h_def)
    next
      case high: False
      have "i \<le> bsearch_loop cmp xs t i h \<and> bsearch_loop cmp xs t i h \<le> h"
        using h by (intro less.hyps) auto
      with h show ?thesis
        using bsearch_loop_high [OF True, of cmp xs t] high by (simp add: h_def)
    qed
  next
    case False
    with less.prems show ?thesis by (simp add: bsearch_loop_done)
  qed
qed

text \<open>The search returns the insertion point: all elements before it are smaller than the
  target, none from it on is.\<close>

lemma bsearch_loop_correct:
  assumes "sorted_wrt (\<lambda>a b. cmp a b \<le> 0) xs" and "i \<le> j" and "j \<le> length xs"
    and "\<forall>k<i. cmp (xs ! k) t < 0" and "\<forall>k. j \<le> k \<and> k < length xs \<longrightarrow> 0 \<le> cmp (xs ! k) t"
  shows "(\<forall>k<bsearch_loop cmp xs t i j. cmp (xs ! k) t < 0) \<and>
    (\<forall>k. bsearch_loop cmp xs t i j \<le> k \<and> k < length xs \<longrightarrow> 0 \<le> cmp (xs ! k) t)"
  using assms(2-)
proof (induction "j - i" arbitrary: i j rule: less_induct)
  case less
  show ?case
  proof (cases "i < j")
    case False
    with less.prems show ?thesis by (simp add: bsearch_loop_done)
  next
    case True
    define h where "h = (i + j) div 2"
    from True have h: "i \<le> h" "h < j" by (auto simp: h_def)
    have mono: "cmp (xs ! k) (xs ! l) \<le> 0" if "k \<le> l" "l < length xs" for k l
    proof (cases "k = l")
      case True then show ?thesis by (simp add: cmp_refl)
    next
      case False
      with that assms(1) show ?thesis by (simp add: sorted_wrt_iff_nth_less)
    qed
    show ?thesis
    proof (cases "cmp (xs ! h) t < 0")
      case low: True
      have "\<forall>k<h + 1. cmp (xs ! k) t < 0"
      proof (intro allI impI)
        fix k assume "k < h + 1"
        then have "cmp (xs ! k) (xs ! h) \<le> 0" using h less.prems by (intro mono) auto
        then show "cmp (xs ! k) t < 0" using low by (rule cmp_less_trans)
      qed
      moreover have "bsearch_loop cmp xs t i j = bsearch_loop cmp xs t (h + 1) j"
        using bsearch_loop_low [OF True, of cmp xs t] low by (simp add: h_def)
      moreover have "j - (h + 1) < j - i" "h + 1 \<le> j" using h by auto
      ultimately show ?thesis using less.hyps [of j "h + 1"] less.prems(2,4) by presburger
    next
      case high: False
      have "\<forall>k. h \<le> k \<and> k < length xs \<longrightarrow> 0 \<le> cmp (xs ! k) t"
      proof (intro allI impI)
        fix k assume k: "h \<le> k \<and> k < length xs"
        then have "cmp (xs ! h) (xs ! k) \<le> 0" by (intro mono) auto
        then show "0 \<le> cmp (xs ! k) t" using high cmp_less_trans by (meson linorder_not_le)
      qed
      moreover have "bsearch_loop cmp xs t i j = bsearch_loop cmp xs t i h"
        using bsearch_loop_high [OF True, of cmp xs t] high by (simp add: h_def)
      moreover have "h - i < j - i" "h \<le> length xs" using h less.prems by auto
      ultimately show ?thesis using less.hyps [of h i] less.prems(3) h(1) by presburger
    qed
  qed
qed

lemma binary_search_func_le: "binary_search_func cmp xs t \<le> length xs"
  using bsearch_loop_bounds [of 0 "length xs" xs t] by (simp add: binary_search_func_def)

lemma binary_search_func_correct:
  assumes "sorted_wrt (\<lambda>a b. cmp a b \<le> 0) xs"
  shows "(\<forall>x\<in>set (take (binary_search_func cmp xs t) xs). cmp x t < 0) \<and>
    (\<forall>x\<in>set (drop (binary_search_func cmp xs t) xs). 0 \<le> cmp x t)"
  using bsearch_loop_correct [OF assms, of 0 "length xs" t]
  by (auto simp: binary_search_func_def in_set_conv_nth)

text \<open>Inserting at the found index keeps a sorted list sorted.\<close>

lemma sorted_insert_at_search:
  assumes "sorted_wrt (\<lambda>a b. cmp a b \<le> 0) xs"
  shows "sorted_wrt (\<lambda>a b. cmp a b \<le> 0) (insert_at xs (binary_search_func cmp xs t) t)"
proof -
  let ?i = "binary_search_func cmp xs t"
  note c = binary_search_func_correct [OF assms, of t]
  have split: "sorted_wrt (\<lambda>a b. cmp a b \<le> 0) (take ?i xs @ drop ?i xs)" using assms by simp
  have "cmp t y \<le> 0" if "y \<in> set (drop ?i xs)" for y
    using c that cmp_anti [of y t] by (meson linorder_not_le)
  moreover have "cmp x t \<le> 0" if "x \<in> set (take ?i xs)" for x
    using c that by force
  ultimately show ?thesis
    using split unfolding insert_at_def sorted_wrt_append by auto
qed

end

interpretation ci: comparator cmp_int
  by unfold_locales (auto simp: cmp_int_def split: if_splits)

lemma cmp_float_cases:
  "cmp_float x y \<le> 0 \<longleftrightarrow> x = NaN \<or> (y \<noteq> NaN \<and> \<not> y < x)"
  "cmp_float x y < 0 \<longleftrightarrow> (x = NaN \<and> y \<noteq> NaN) \<or> x < y"
  by (cases x; cases y; simp add: cmp_float_def)+

interpretation cf: comparator cmp_float
proof unfold_locales
  fix x y z :: gofloat
  show "cmp_float x y < 0 \<longleftrightarrow> 0 < cmp_float y x"
    by (cases x; cases y; simp add: cmp_float_def)
  show "cmp_float x y \<le> 0 \<Longrightarrow> cmp_float y z \<le> 0 \<Longrightarrow> cmp_float x z \<le> 0"
    by (cases x; cases y; cases z; simp add: cmp_float_cases)
qed

section \<open>Overflow, powers and loops that may not return\<close>

text \<open>Arithmetic is exact; where the code tests for overflow, \<open>f64\<close> turns a result above
  \<^verbatim>\<open>math.MaxFloat64\<close> into an infinity.\<close>

definition MaxFloat64 :: real where
  "MaxFloat64 = 2 ^ 1024 - 2 ^ 971"

definition MaxFloat32 :: real where
  "MaxFloat32 = 2 ^ 128 - 2 ^ 104"

fun f64 :: "gofloat \<Rightarrow> gofloat" where
  "f64 (Fin x) = (if x > MaxFloat64 then PInf else if x < - MaxFloat64 then NInf else Fin x)"
| "f64 y = y"

definition isInf :: "gofloat \<Rightarrow> bool" where
  "isInf x \<longleftrightarrow> x = PInf \<or> x = NInf"

lemma isInf_simps [simp]: "\<not> isInf (Fin x)" "isInf PInf" "isInf NInf" "\<not> isInf NaN"
  by (simp_all add: isInf_def)

lemma MaxFloat64_gt: "1 < MaxFloat64"
proof -
  have "(2::real) ^ 1024 = 2 ^ 53 * 2 ^ 971" by (simp flip: power_add)
  then have "MaxFloat64 = (2 ^ 53 - 1) * 2 ^ 971"
    unfolding MaxFloat64_def by (simp only: left_diff_distrib mult_1)
  moreover have "(1::real) < (2 ^ 53 - 1) * 1" by simp
  moreover have "(2 ^ 53 - 1) * (1::real) \<le> (2 ^ 53 - 1) * 2 ^ 971"
    by (intro mult_left_mono one_le_power) simp_all
  ultimately show ?thesis by linarith
qed

lemma f64_Fin: "0 \<le> x \<Longrightarrow> f64 (Fin x) = (if x > MaxFloat64 then PInf else Fin x)"
  using MaxFloat64_gt by simp

declare f64.simps(1) [simp del]

fun fabs :: "gofloat \<Rightarrow> gofloat" where
  "fabs (Fin x) = Fin \<bar>x\<bar>"
| "fabs NaN = NaN"
| "fabs _ = PInf"

text \<open>\<^verbatim>\<open>math.Pow\<close> with a non-negative integer exponent.\<close>

fun fpow :: "gofloat \<Rightarrow> nat \<Rightarrow> gofloat" where
  "fpow _ 0 = Fin 1"
| "fpow (Fin r) n = Fin (r ^ n)"
| "fpow PInf n = PInf"
| "fpow NInf n = (if odd n then NInf else PInf)"
| "fpow NaN n = NaN"

lemma fpow_Fin [simp, fin_simps]: "fpow (Fin r) n = Fin (r ^ n)"
  by (cases n) simp_all

text \<open>A loop over a range whose body may fail to return.\<close>

primrec ofoldl :: "('s \<Rightarrow> 'a \<Rightarrow> 's option) \<Rightarrow> 's \<Rightarrow> 'a list \<Rightarrow> 's option" where
  "ofoldl f s [] = Some s"
| "ofoldl f s (x # xs) = Option.bind (f s x) (\<lambda>s'. ofoldl f s' xs)"

lemma ofoldl_append [simp]: "ofoldl f s (xs @ ys) = Option.bind (ofoldl f s xs) (\<lambda>s'. ofoldl f s' ys)"
  by (induction xs arbitrary: s) simp_all

text \<open>Total correctness of a loop over \<open>0, \<dots>, k - 1\<close> by an invariant on the index.\<close>

lemma ofoldl_inv:
  assumes "ofoldl f s xs = Some t" and "P s" and "\<And>s x s'. P s \<Longrightarrow> x \<in> set xs \<Longrightarrow> f s x = Some s' \<Longrightarrow> P s'"
  shows "P t"
  using assms
proof (induction xs arbitrary: s)
  case (Cons x xs)
  obtain s' where s': "f s x = Some s'" "ofoldl f s' xs = Some t"
    using Cons.prems(1) by (auto simp: bind_eq_Some_conv)
  have "P s'" by (rule Cons.prems(3) [OF Cons.prems(2) _ s'(1)]) simp
  then show ?case by (rule Cons.IH [OF s'(2)]) (rule Cons.prems(3), simp_all)
qed simp

lemma ofoldl_Some:
  assumes "\<And>s x. x \<in> set xs \<Longrightarrow> f s x \<noteq> None"
  shows "ofoldl f s xs \<noteq> None"
  using assms
proof (induction xs arbitrary: s)
  case (Cons x xs)
  obtain s' where s': "f s x = Some s'" using Cons.prems [of x s] by auto
  have "ofoldl f s' xs \<noteq> None" by (rule Cons.IH) (rule Cons.prems, simp)
  then show ?case by (simp add: s')
qed simp

lemma ofoldl_upt_inv:
  assumes "Inv 0 s" and "\<And>i s. i < k \<Longrightarrow> Inv i s \<Longrightarrow> \<exists>s'. f s i = Some s' \<and> Inv (Suc i) s'"
  shows "\<exists>s'. ofoldl f s [0..<k] = Some s' \<and> Inv k s'"
  using assms(2)
proof (induction k)
  case 0
  then show ?case using assms(1) by simp
next
  case (Suc k)
  then obtain s' where s': "ofoldl f s [0..<k] = Some s'" "Inv k s'" by auto
  with Suc.prems [of k s'] show ?case by auto
qed

lemma foldl_upt_inv:
  assumes "Inv 0 s" and "\<And>i s. i < k \<Longrightarrow> Inv i s \<Longrightarrow> Inv (Suc i) (f s i)"
  shows "Inv k (foldl f s [0..<k])"
  using assms(2) by (induction k) (simp_all add: assms(1))

end
