(* ===== verification/Capacity_Config.thy ===== *)
theory Capacity_Config
  imports Go_Prelude
begin

text \<open>
  The thresholds of the capacity analyzer (\<^verbatim>\<open>internal/interfaces/capacity_scaling.go\<close>):
  their defaults, the merge of a per-model override into a base configuration and the
  validation of one entry. The lemmas relate the two: which entries pass validation, what a
  merge keeps of a validated configuration, and where it does not keep it.
\<close>

section \<open>Definitions\<close>

record CapacityScalingConfig =
  cs_ModelID :: string
  cs_Namespace :: string
  KvCacheThreshold :: gofloat
  QueueLengthThreshold :: gofloat
  KvSpareTrigger :: gofloat
  QueueSpareTrigger :: gofloat

text \<open>The zero value of the struct: what a missing map entry or an empty document gives.\<close>

definition zero_CapacityScalingConfig :: CapacityScalingConfig where
  "zero_CapacityScalingConfig =
     \<lparr>cs_ModelID = '''', cs_Namespace = '''', KvCacheThreshold = Fin 0,
      QueueLengthThreshold = Fin 0, KvSpareTrigger = Fin 0, QueueSpareTrigger = Fin 0\<rparr>"

definition DefaultCapacityScalingConfig :: CapacityScalingConfig where
  "DefaultCapacityScalingConfig = zero_CapacityScalingConfig
     \<lparr>KvCacheThreshold := Fin (80 / 100), QueueLengthThreshold := Fin 5,
      KvSpareTrigger := Fin (10 / 100), QueueSpareTrigger := Fin 3\<rparr>"

definition Merge :: "CapacityScalingConfig \<Rightarrow> CapacityScalingConfig \<Rightarrow> CapacityScalingConfig" where
  "Merge base override =
     (let b1 = (if \<not> feq (KvCacheThreshold override) (Fin 0)
                then base\<lparr>KvCacheThreshold := KvCacheThreshold override\<rparr> else base);
          b2 = (if \<not> feq (QueueLengthThreshold override) (Fin 0)
                then b1\<lparr>QueueLengthThreshold := QueueLengthThreshold override\<rparr> else b1);
          b3 = (if \<not> feq (KvSpareTrigger override) (Fin 0)
                then b2\<lparr>KvSpareTrigger := KvSpareTrigger override\<rparr> else b2)
      in if \<not> feq (QueueSpareTrigger override) (Fin 0)
         then b3\<lparr>QueueSpareTrigger := QueueSpareTrigger override\<rparr> else b3)"

text \<open>\<open>None\<close> is the nil error.\<close>

definition Validate :: "CapacityScalingConfig \<Rightarrow> message option" where
  "Validate c =
     (if KvCacheThreshold c < Fin 0 \<or> Fin 1 < KvCacheThreshold c then
        Some (sprintf ''kvCacheThreshold must be between 0 and 1, got %.2f''
                [FFloat (KvCacheThreshold c)])
      else if QueueLengthThreshold c < Fin 0 then
        Some (sprintf ''queueLengthThreshold must be >= 0, got %.1f''
                [FFloat (QueueLengthThreshold c)])
      else if KvSpareTrigger c < Fin 0 \<or> Fin 1 < KvSpareTrigger c then
        Some (sprintf ''kvSpareTrigger must be between 0 and 1, got %.2f''
                [FFloat (KvSpareTrigger c)])
      else if QueueSpareTrigger c < Fin 0 then
        Some (sprintf ''queueSpareTrigger must be >= 0, got %.1f''
                [FFloat (QueueSpareTrigger c)])
      else if KvCacheThreshold c < KvSpareTrigger c then
        Some (sprintf ''kvCacheThreshold (%.2f) should be >= kvSpareTrigger (%.2f)''
                [FFloat (KvCacheThreshold c), FFloat (KvSpareTrigger c)])
      else None)"

section \<open>Validated configurations\<close>

text \<open>A configuration whose four thresholds are finite (neither NaN nor infinite).\<close>

definition finite_config :: "CapacityScalingConfig \<Rightarrow> bool" where
  "finite_config c \<longleftrightarrow> is_fin (KvCacheThreshold c) \<and> is_fin (QueueLengthThreshold c) \<and>
     is_fin (KvSpareTrigger c) \<and> is_fin (QueueSpareTrigger c)"

text \<open>The ranges a validated entry is meant to be in.\<close>

definition config_ok :: "CapacityScalingConfig \<Rightarrow> bool" where
  "config_ok c \<longleftrightarrow> Fin 0 \<le> KvSpareTrigger c \<and> KvSpareTrigger c \<le> KvCacheThreshold c \<and>
     KvCacheThreshold c \<le> Fin 1 \<and> Fin 0 \<le> QueueLengthThreshold c \<and> Fin 0 \<le> QueueSpareTrigger c"

lemma finite_configE:
  assumes "finite_config c"
  obtains kt qt ks qs where "KvCacheThreshold c = Fin kt" "QueueLengthThreshold c = Fin qt"
    "KvSpareTrigger c = Fin ks" "QueueSpareTrigger c = Fin qs"
  using assms unfolding finite_config_def by (meson is_finE)

lemma Validate_config_ok: "finite_config c \<Longrightarrow> Validate c = None \<longleftrightarrow> config_ok c"
  by (erule finite_configE) (auto simp: Validate_def config_ok_def)

lemma Merge_select [simp]:
  "KvCacheThreshold (Merge b ov) =
     (if feq (KvCacheThreshold ov) (Fin 0) then KvCacheThreshold b else KvCacheThreshold ov)"
  "QueueLengthThreshold (Merge b ov) =
     (if feq (QueueLengthThreshold ov) (Fin 0) then QueueLengthThreshold b
      else QueueLengthThreshold ov)"
  "KvSpareTrigger (Merge b ov) =
     (if feq (KvSpareTrigger ov) (Fin 0) then KvSpareTrigger b else KvSpareTrigger ov)"
  "QueueSpareTrigger (Merge b ov) =
     (if feq (QueueSpareTrigger ov) (Fin 0) then QueueSpareTrigger b else QueueSpareTrigger ov)"
  "cs_ModelID (Merge b ov) = cs_ModelID b"
  "cs_Namespace (Merge b ov) = cs_Namespace b"
  by (simp_all add: Merge_def Let_def)

lemma Merge_finite: "finite_config b \<Longrightarrow> finite_config ov \<Longrightarrow> finite_config (Merge b ov)"
  by (simp add: finite_config_def)

lemma Merge_zero [simp]: "Merge b zero_CapacityScalingConfig = b"
  by (simp add: Merge_def zero_CapacityScalingConfig_def)

lemma DefaultCapacityScalingConfig_finite [simp]: "finite_config DefaultCapacityScalingConfig"
  by (simp add: finite_config_def DefaultCapacityScalingConfig_def zero_CapacityScalingConfig_def)

section \<open>Properties\<close>

text \<open>C29: a merge of two validated configurations is itself valid, except in one case, which the
  code never checks: the override lowers only the saturation threshold, and lowers it below the
  spare trigger of the base.\<close>

theorem merge_validation:
  assumes "finite_config base" and "finite_config override"
    and "Validate base = None" and "Validate override = None"
  shows "Validate (Merge base override) = None \<longleftrightarrow>
    \<not> (KvSpareTrigger override = Fin 0 \<and> KvCacheThreshold override \<noteq> Fin 0 \<and>
       KvCacheThreshold override < KvSpareTrigger base)"
proof -
  have ok: "config_ok base" "config_ok override"
    using assms Validate_config_ok by blast+
  have "Validate (Merge base override) = None \<longleftrightarrow> config_ok (Merge base override)"
    using assms Validate_config_ok Merge_finite by blast
  also have "\<dots> \<longleftrightarrow> \<not> (KvSpareTrigger override = Fin 0 \<and> KvCacheThreshold override \<noteq> Fin 0 \<and>
       KvCacheThreshold override < KvSpareTrigger base)"
    using assms(1,2) ok by (elim finite_configE) (auto simp: config_ok_def)
  finally show ?thesis .
qed

theorem merge_validation_witness:
  "Validate (Merge DefaultCapacityScalingConfig
       (zero_CapacityScalingConfig\<lparr>KvCacheThreshold := Fin (1 / 2)\<rparr>)) = None \<and>
   Validate (Merge DefaultCapacityScalingConfig
       (zero_CapacityScalingConfig\<lparr>KvCacheThreshold := Fin (1 / 20)\<rparr>)) \<noteq> None"
proof -
  let ?d = DefaultCapacityScalingConfig
  let ?o = "\<lambda>t. zero_CapacityScalingConfig\<lparr>KvCacheThreshold := Fin t\<rparr>"
  note defs = DefaultCapacityScalingConfig_def zero_CapacityScalingConfig_def
  have f: "finite_config (?o t)" for t by (simp add: finite_config_def defs)
  have v: "Validate ?d = None" "Validate (?o (1 / 2)) = None" "Validate (?o (1 / 20)) = None"
    by (simp_all add: Validate_def defs)
  show ?thesis
    using merge_validation [of ?d "?o (1 / 2)"] merge_validation [of ?d "?o (1 / 20)"] f v
      DefaultCapacityScalingConfig_finite unfolding defs by simp
qed

text \<open>An override that gives only the cache spare trigger never passes validation, although
  merging it into any validated base whose saturation threshold is at least that trigger would
  give a valid configuration: validation looks at the entry before it is merged, when its missing
  threshold is still zero.\<close>

lemma spare_trigger_override_rejected:
  assumes "finite_config base" and "Validate base = None"
    and "override = zero_CapacityScalingConfig\<lparr>KvSpareTrigger := Fin t\<rparr>"
    and "0 < t" and "Fin t \<le> KvCacheThreshold base"
  shows "Validate override \<noteq> None \<and> Validate (Merge base override) = None"
proof -
  have "config_ok base" using assms(1,2) Validate_config_ok by blast
  moreover have "finite_config override"
    using assms(3) by (simp add: finite_config_def zero_CapacityScalingConfig_def)
  moreover have "finite_config (Merge base override)" "\<not> config_ok override"
    using assms(1,3,4) Merge_finite \<open>finite_config override\<close>
    by (auto simp: config_ok_def zero_CapacityScalingConfig_def)
  ultimately show ?thesis
    using assms by (auto simp: Validate_config_ok config_ok_def zero_CapacityScalingConfig_def)
qed

lemma spare_trigger_override_rejected_witness:
  "Validate (zero_CapacityScalingConfig\<lparr>KvSpareTrigger := Fin (15 / 100)\<rparr>) \<noteq> None \<and>
   Validate (Merge DefaultCapacityScalingConfig
     (zero_CapacityScalingConfig\<lparr>KvSpareTrigger := Fin (15 / 100)\<rparr>)) = None"
  by (rule spare_trigger_override_rejected [where t = "15 / 100"])
    (simp_all add: finite_config_def Validate_def DefaultCapacityScalingConfig_def
      zero_CapacityScalingConfig_def)

end
