(* ===== verification/Capacity_Analyzer.thy ===== *)
theory Capacity_Analyzer
  imports Capacity_Config
begin

text \<open>
  The capacity analyzer, the default decision maker of the controller: the data of
  \<^verbatim>\<open>internal/interfaces/capacity_analyzer.go\<close> and the operations of
  \<^verbatim>\<open>internal/capacity/analyzer.go\<close>. The clock is an argument, log output is left out.
  Iterations over \<^verbatim>\<open>variantMap\<close> follow the order of its association list.
\<close>

section \<open>Data\<close>

record ReplicaMetrics =
  rm_PodName :: string
  rm_KvCacheUsage :: gofloat
  rm_QueueLength :: int
  rm_VariantName :: string
  rm_Namespace :: string
  rm_ModelID :: string
  rm_AcceleratorName :: string
  rm_Cost :: gofloat

record VariantCapacityAnalysis =
  va_VariantName :: string
  va_AcceleratorName :: string
  va_Cost :: gofloat
  va_ReplicaCount :: int
  va_NonSaturatedCount :: int
  va_MaxKvCacheUsage :: gofloat
  va_MaxQueueLength :: int
  va_AvgSpareKvCapacity :: gofloat
  va_AvgSpareQueueLength :: gofloat
  va_SaturatedReplicas :: "string list"

record 'time ModelCapacityAnalysis =
  ma_ModelID :: string
  ma_Namespace :: string
  ma_AnalyzedAt :: 'time
  ma_TotalReplicas :: int
  ma_NonSaturatedCount :: int
  ma_AvgSpareKvCapacity :: gofloat
  ma_AvgSpareQueueLength :: gofloat
  ma_ShouldScaleUp :: bool
  ma_ShouldScaleDown :: bool
  ma_ScaleUpReason :: message
  ma_ScaleDownSafe :: bool
  ma_VariantAnalyses :: "VariantCapacityAnalysis list"

datatype CapacityAction = ActionScaleUp | ActionScaleDown | ActionNoChange

record VariantDecision =
  vd_VariantName :: string
  vd_Namespace :: string
  vd_ModelID :: string
  vd_AcceleratorName :: string
  vd_Cost :: gofloat
  vd_Action :: CapacityAction
  vd_CurrentReplicas :: int
  vd_TargetReplicas :: int
  vd_DesiredReplicas :: int
  vd_Reason :: message
  vd_CapacityBased :: bool
  vd_ModelBasedDecision :: bool
  vd_SafetyOverride :: bool
  vd_CapacityOnly :: bool

record VariantReplicaState =
  vs_VariantName :: string
  vs_CurrentReplicas :: int
  vs_DesiredReplicas :: int

definition zero_VariantReplicaState :: VariantReplicaState where
  "zero_VariantReplicaState =
     \<lparr>vs_VariantName = '''', vs_CurrentReplicas = 0, vs_DesiredReplicas = 0\<rparr>"

definition MinNonSaturatedReplicasForScaleDown :: int where
  "MinNonSaturatedReplicasForScaleDown = 2"

section \<open>Analysis of the replicas\<close>

text \<open>The test both \<^verbatim>\<open>analyzeVariant\<close> and \<^verbatim>\<open>isScaleDownSafe\<close> make of one replica.\<close>

definition isSaturated :: "CapacityScalingConfig \<Rightarrow> ReplicaMetrics \<Rightarrow> bool" where
  "isSaturated c m \<longleftrightarrow> KvCacheThreshold c \<le> rm_KvCacheUsage m \<or>
     QueueLengthThreshold c \<le> float_of_int (rm_QueueLength m)"

text \<open>The accumulators of the loop: the analysis under construction, the two totals and the
  number of non-saturated replicas.\<close>

definition analyzeVariant_step ::
  "CapacityScalingConfig \<Rightarrow> VariantCapacityAnalysis \<times> gofloat \<times> gofloat \<times> int \<Rightarrow> ReplicaMetrics \<Rightarrow>
   VariantCapacityAnalysis \<times> gofloat \<times> gofloat \<times> int" where
  "analyzeVariant_step config st metric =
     (let (a, totalSpareKv, totalSpareQueue, n) = st;
          (a, totalSpareKv, totalSpareQueue, n) =
            (if isSaturated config metric
             then (a\<lparr>va_SaturatedReplicas := va_SaturatedReplicas a @ [rm_PodName metric]\<rparr>,
                   totalSpareKv, totalSpareQueue, n)
             else (a, totalSpareKv + (KvCacheThreshold config - rm_KvCacheUsage metric),
                   totalSpareQueue +
                     (QueueLengthThreshold config - float_of_int (rm_QueueLength metric)), n + 1));
          a = (if va_MaxKvCacheUsage a < rm_KvCacheUsage metric
               then a\<lparr>va_MaxKvCacheUsage := rm_KvCacheUsage metric\<rparr> else a);
          a = (if va_MaxQueueLength a < rm_QueueLength metric
               then a\<lparr>va_MaxQueueLength := rm_QueueLength metric\<rparr> else a)
      in (a, totalSpareKv, totalSpareQueue, n))"

definition init_VariantCapacityAnalysis ::
  "string \<Rightarrow> ReplicaMetrics list \<Rightarrow> VariantCapacityAnalysis" where
  "init_VariantCapacityAnalysis variantName metrics =
     \<lparr>va_VariantName = variantName,
      va_AcceleratorName = (case metrics of [] \<Rightarrow> '''' | m # _ \<Rightarrow> rm_AcceleratorName m),
      va_Cost = (case metrics of [] \<Rightarrow> Fin 0 | m # _ \<Rightarrow> rm_Cost m),
      va_ReplicaCount = int (length metrics), va_NonSaturatedCount = 0,
      va_MaxKvCacheUsage = Fin 0, va_MaxQueueLength = 0,
      va_AvgSpareKvCapacity = Fin 0, va_AvgSpareQueueLength = Fin 0, va_SaturatedReplicas = []\<rparr>"

definition analyzeVariant ::
  "string \<Rightarrow> ReplicaMetrics list \<Rightarrow> CapacityScalingConfig \<Rightarrow> VariantCapacityAnalysis" where
  "analyzeVariant variantName metrics config =
     (let (a, totalSpareKv, totalSpareQueue, n) =
            foldl (analyzeVariant_step config)
              (init_VariantCapacityAnalysis variantName metrics, Fin 0, Fin 0, 0) metrics;
          a = a\<lparr>va_NonSaturatedCount := n\<rparr>
      in if n > 0
         then a\<lparr>va_AvgSpareKvCapacity := totalSpareKv / float_of_int n,
                va_AvgSpareQueueLength := totalSpareQueue / float_of_int n\<rparr>
         else a)"

definition shouldScaleUp :: "gofloat \<Rightarrow> gofloat \<Rightarrow> CapacityScalingConfig \<Rightarrow> bool \<times> message" where
  "shouldScaleUp avgSpareKv avgSpareQueue config =
     (let kvTriggered = avgSpareKv < KvSpareTrigger config;
          queueTriggered = avgSpareQueue < QueueSpareTrigger config
      in if \<not> kvTriggered \<and> \<not> queueTriggered then (False, sprintf '''' [])
         else if kvTriggered \<and> queueTriggered then
           (True, sprintf ''both KV spare (%.3f < %.3f) and queue spare (%.1f < %.1f)''
             [FFloat avgSpareKv, FFloat (KvSpareTrigger config),
              FFloat avgSpareQueue, FFloat (QueueSpareTrigger config)])
         else if kvTriggered then
           (True, sprintf ''KV spare capacity low (%.3f < %.3f)''
             [FFloat avgSpareKv, FFloat (KvSpareTrigger config)])
         else
           (True, sprintf ''queue spare capacity low (%.1f < %.1f)''
             [FFloat avgSpareQueue, FFloat (QueueSpareTrigger config)]))"

definition isScaleDownSafe :: "ReplicaMetrics list \<Rightarrow> CapacityScalingConfig \<Rightarrow> bool \<times> bool" where
  "isScaleDownSafe replicaMetrics config =
     (let nonSaturatedMetrics = filter (\<lambda>m. \<not> isSaturated config m) replicaMetrics;
          nonSaturatedCount = int (length nonSaturatedMetrics)
      in if nonSaturatedCount < MinNonSaturatedReplicasForScaleDown then (False, False)
         else
           let totalKvLoad = foldl (\<lambda>s m. s + rm_KvCacheUsage m) (Fin 0) nonSaturatedMetrics;
               totalQueueLoad = foldl (\<lambda>s m. s + rm_QueueLength m) 0 nonSaturatedMetrics;
               remainingCount = nonSaturatedCount - 1;
               avgKvAfterRemoval = totalKvLoad / float_of_int remainingCount;
               avgQueueAfterRemoval = float_of_int totalQueueLoad / float_of_int remainingCount;
               remainingSpareKv = KvCacheThreshold config - avgKvAfterRemoval;
               remainingSpareQueue = QueueLengthThreshold config - avgQueueAfterRemoval;
               kvSafe = KvSpareTrigger config \<le> remainingSpareKv;
               queueSafe = QueueSpareTrigger config \<le> remainingSpareQueue
           in (False, kvSafe \<and> queueSafe))"

text \<open>Grouping: the counts give the keys of \<^verbatim>\<open>variantMap\<close>, then every metric is appended to
  the slice of its variant.\<close>

definition variantCounts :: "ReplicaMetrics list \<Rightarrow> (string, int) gomap" where
  "variantCounts ms =
     foldl (\<lambda>m x. mput (rm_VariantName x) (mget0 0 m (rm_VariantName x) + 1) m) [] ms"

definition variantMap :: "ReplicaMetrics list \<Rightarrow> (string, ReplicaMetrics list) gomap" where
  "variantMap ms =
     foldl (\<lambda>m x. mput (rm_VariantName x) (mget0 [] m (rm_VariantName x) @ [x]) m)
       (map (\<lambda>(v, c). (v, [])) (variantCounts ms)) ms"

text \<open>The aggregation over the variants: the list of analyses, the count and the two totals.
  (The worst-case metrics the loop also tracks are never read.)\<close>

definition aggregate_step ::
  "CapacityScalingConfig \<Rightarrow> VariantCapacityAnalysis list \<times> int \<times> gofloat \<times> gofloat \<Rightarrow>
   string \<times> ReplicaMetrics list \<Rightarrow> VariantCapacityAnalysis list \<times> int \<times> gofloat \<times> gofloat" where
  "aggregate_step config st vm =
     (let (vas, n, totalSpareKv, totalSpareQueue) = st;
          a = analyzeVariant (fst vm) (snd vm) config;
          k = float_of_int (va_NonSaturatedCount a)
      in (vas @ [a], n + va_NonSaturatedCount a,
          totalSpareKv + va_AvgSpareKvCapacity a * k,
          totalSpareQueue + va_AvgSpareQueueLength a * k))"

definition AnalyzeModelCapacity ::
  "'time \<Rightarrow> string \<Rightarrow> string \<Rightarrow> ReplicaMetrics list \<Rightarrow> CapacityScalingConfig \<Rightarrow>
   'time ModelCapacityAnalysis" where
  "AnalyzeModelCapacity now modelID namespace replicaMetrics config =
     (let zero = \<lparr>ma_ModelID = modelID, ma_Namespace = namespace, ma_AnalyzedAt = now,
                  ma_TotalReplicas = 0, ma_NonSaturatedCount = 0,
                  ma_AvgSpareKvCapacity = Fin 0, ma_AvgSpareQueueLength = Fin 0,
                  ma_ShouldScaleUp = False, ma_ShouldScaleDown = False,
                  ma_ScaleUpReason = sprintf '''' [], ma_ScaleDownSafe = False,
                  ma_VariantAnalyses = []\<rparr>
      in if replicaMetrics = [] then zero
         else
           let (variantAnalyses, nonSaturatedCount, totalSpareKv, totalSpareQueue) =
                 foldl (aggregate_step config) ([], 0, Fin 0, Fin 0) (variantMap replicaMetrics);
               a = zero\<lparr>ma_TotalReplicas := int (length replicaMetrics),
                        ma_NonSaturatedCount := nonSaturatedCount,
                        ma_VariantAnalyses := variantAnalyses\<rparr>;
               a = (if nonSaturatedCount > 0
                    then a\<lparr>ma_AvgSpareKvCapacity := totalSpareKv / float_of_int nonSaturatedCount,
                           ma_AvgSpareQueueLength :=
                             totalSpareQueue / float_of_int nonSaturatedCount\<rparr>
                    else a);
               (up, reason) =
                 shouldScaleUp (ma_AvgSpareKvCapacity a) (ma_AvgSpareQueueLength a) config;
               (down, safe) = isScaleDownSafe replicaMetrics config
           in a\<lparr>ma_ShouldScaleUp := up, ma_ScaleUpReason := reason,
                ma_ShouldScaleDown := down, ma_ScaleDownSafe := safe\<rparr>)"

section \<open>What one variant's analysis holds\<close>

definition finite_metrics :: "ReplicaMetrics list \<Rightarrow> bool" where
  "finite_metrics ms \<longleftrightarrow> (\<forall>m\<in>set ms. is_fin (rm_KvCacheUsage m))"

definition unsaturated :: "CapacityScalingConfig \<Rightarrow> ReplicaMetrics list \<Rightarrow> ReplicaMetrics list" where
  "unsaturated c ms = filter (\<lambda>m. \<not> isSaturated c m) ms"

text \<open>Total spare capacity of the non-saturated replicas, as real numbers.\<close>

definition spareKv :: "CapacityScalingConfig \<Rightarrow> ReplicaMetrics list \<Rightarrow> real" where
  "spareKv c ms =
     (\<Sum>m\<leftarrow>unsaturated c ms. real_of (KvCacheThreshold c) - real_of (rm_KvCacheUsage m))"

definition spareQueue :: "CapacityScalingConfig \<Rightarrow> ReplicaMetrics list \<Rightarrow> real" where
  "spareQueue c ms =
     (\<Sum>m\<leftarrow>unsaturated c ms. real_of (QueueLengthThreshold c) - real_of_int (rm_QueueLength m))"

lemma finite_metrics_simps [simp]:
  "finite_metrics []"
  "finite_metrics (m # ms) \<longleftrightarrow> is_fin (rm_KvCacheUsage m) \<and> finite_metrics ms"
  "finite_metrics (ms @ ms') \<longleftrightarrow> finite_metrics ms \<and> finite_metrics ms'"
  by (auto simp: finite_metrics_def)

lemma finite_metrics_filter: "finite_metrics ms \<Longrightarrow> finite_metrics (filter P ms)"
  by (auto simp: finite_metrics_def)

lemma unsaturated_simps [simp]:
  "unsaturated c [] = []"
  "unsaturated c (m # ms) = (if isSaturated c m then unsaturated c ms else m # unsaturated c ms)"
  "unsaturated c (ms @ ms') = unsaturated c ms @ unsaturated c ms'"
  by (auto simp: unsaturated_def)

lemma spare_simps [simp]:
  "spareKv c [] = 0" "spareQueue c [] = 0"
  "spareKv c (ms @ ms') = spareKv c ms + spareKv c ms'"
  "spareQueue c (ms @ ms') = spareQueue c ms + spareQueue c ms'"
  by (simp_all add: spareKv_def spareQueue_def)

lemma spare_no_unsaturated:
  "unsaturated c ms = [] \<Longrightarrow> spareKv c ms = 0" "unsaturated c ms = [] \<Longrightarrow> spareQueue c ms = 0"
  by (simp_all add: spareKv_def spareQueue_def)

lemma analyzeVariant_step_totals:
  assumes "finite_config c" and "is_fin (rm_KvCacheUsage m)"
  shows "snd (analyzeVariant_step c (a, Fin k, Fin q, n) m) =
    (Fin (k + spareKv c [m]), Fin (q + spareQueue c [m]), n + int (length (unsaturated c [m])))"
  using assms
  by (elim finite_configE is_finE)
    (simp add: analyzeVariant_step_def Let_def spareKv_def spareQueue_def float_of_int_def)

lemma analyzeVariant_step_frame:
  "fst (analyzeVariant_step c (a, k, q, n) m) =
    a\<lparr>va_SaturatedReplicas :=
        va_SaturatedReplicas a @ (if isSaturated c m then [rm_PodName m] else []),
      va_MaxKvCacheUsage := (if va_MaxKvCacheUsage a < rm_KvCacheUsage m
        then rm_KvCacheUsage m else va_MaxKvCacheUsage a),
      va_MaxQueueLength := (if va_MaxQueueLength a < rm_QueueLength m
        then rm_QueueLength m else va_MaxQueueLength a)\<rparr>"
  by (simp add: analyzeVariant_step_def Let_def)

lemma analyzeVariant_loop_totals:
  assumes "finite_config c" and "finite_metrics ms"
  shows "snd (foldl (analyzeVariant_step c) (a, Fin k, Fin q, n) ms) =
    (Fin (k + spareKv c ms), Fin (q + spareQueue c ms), n + int (length (unsaturated c ms)))"
  using assms(2)
proof (induction ms arbitrary: a k q n)
  case Nil
  then show ?case by simp
next
  case (Cons m ms)
  obtain a' where step: "analyzeVariant_step c (a, Fin k, Fin q, n) m =
      (a', Fin (k + spareKv c [m]), Fin (q + spareQueue c [m]),
       n + int (length (unsaturated c [m])))"
    using analyzeVariant_step_totals [OF assms(1), of m a k q n] Cons.prems
    by (metis finite_metrics_simps(2) prod.collapse)
  have "spareKv c (m # ms) = spareKv c [m] + spareKv c ms"
    and "spareQueue c (m # ms) = spareQueue c [m] + spareQueue c ms"
    using spare_simps(3,4) [of c "[m]" ms] by simp_all
  with Cons step show ?case by (simp add: algebra_simps)
qed

text \<open>The loop only touches the saturated pods and the two maxima of the analysis.\<close>

lemma analyzeVariant_loop_frame:
  "\<exists>mk mq. fst (foldl (analyzeVariant_step c) st ms) =
     (fst st)\<lparr>va_SaturatedReplicas := va_SaturatedReplicas (fst st) @
        map rm_PodName (filter (isSaturated c) ms),
      va_MaxKvCacheUsage := mk, va_MaxQueueLength := mq\<rparr>"
proof (induction ms arbitrary: st)
  case Nil
  show ?case
    by (rule exI [of _ "va_MaxKvCacheUsage (fst st)"], rule exI [of _ "va_MaxQueueLength (fst st)"])
      simp
next
  case (Cons m ms)
  obtain a k q n where st: "st = (a, k, q, n)" by (metis prod.collapse)
  obtain mk mq where "fst (foldl (analyzeVariant_step c) (analyzeVariant_step c st m) ms) =
     (fst (analyzeVariant_step c st m))\<lparr>va_SaturatedReplicas :=
        va_SaturatedReplicas (fst (analyzeVariant_step c st m)) @
        map rm_PodName (filter (isSaturated c) ms),
      va_MaxKvCacheUsage := mk, va_MaxQueueLength := mq\<rparr>"
    using Cons.IH by blast
  then show ?case
    by (intro exI [of _ mk] exI [of _ mq]) (simp add: st analyzeVariant_step_frame)
qed

lemma analyzeVariant_fields:
  "va_VariantName (analyzeVariant v ms c) = v"
  "va_ReplicaCount (analyzeVariant v ms c) = int (length ms)"
  "va_Cost (analyzeVariant v ms c) = (case ms of [] \<Rightarrow> Fin 0 | m # _ \<Rightarrow> rm_Cost m)"
  "va_AcceleratorName (analyzeVariant v ms c) =
     (case ms of [] \<Rightarrow> '''' | m # _ \<Rightarrow> rm_AcceleratorName m)"
  "va_SaturatedReplicas (analyzeVariant v ms c) = map rm_PodName (filter (isSaturated c) ms)"
  using analyzeVariant_loop_frame
    [of c "(init_VariantCapacityAnalysis v ms, Fin 0, Fin 0, 0)" ms]
  by (auto simp: analyzeVariant_def Let_def init_VariantCapacityAnalysis_def
      split: prod.splits)

lemma analyzeVariant_counts:
  assumes "finite_config c" and "finite_metrics ms"
  shows "va_NonSaturatedCount (analyzeVariant v ms c) = int (length (unsaturated c ms))"
    and "va_AvgSpareKvCapacity (analyzeVariant v ms c) * float_of_int (int (length (unsaturated c ms)))
      = Fin (spareKv c ms)"
    and "va_AvgSpareQueueLength (analyzeVariant v ms c) * float_of_int (int (length (unsaturated c ms)))
      = Fin (spareQueue c ms)"
proof -
  let ?f = "foldl (analyzeVariant_step c) (init_VariantCapacityAnalysis v ms, Fin 0, Fin 0, 0) ms"
  obtain a where a: "?f = (a, Fin (spareKv c ms), Fin (spareQueue c ms), int (length (unsaturated c ms)))"
    using analyzeVariant_loop_totals [OF assms, of "init_VariantCapacityAnalysis v ms" 0 0 0]
    by (metis add_0 prod.collapse)
  obtain mk mq where "a = (init_VariantCapacityAnalysis v ms)\<lparr>va_SaturatedReplicas :=
        map rm_PodName (filter (isSaturated c) ms), va_MaxKvCacheUsage := mk, va_MaxQueueLength := mq\<rparr>"
    using analyzeVariant_loop_frame
      [of c "(init_VariantCapacityAnalysis v ms, Fin 0, Fin 0, 0)" ms] a
    by (auto simp: init_VariantCapacityAnalysis_def)
  with a show "va_NonSaturatedCount (analyzeVariant v ms c) = int (length (unsaturated c ms))"
    "va_AvgSpareKvCapacity (analyzeVariant v ms c) * float_of_int (int (length (unsaturated c ms)))
      = Fin (spareKv c ms)"
    "va_AvgSpareQueueLength (analyzeVariant v ms c) * float_of_int (int (length (unsaturated c ms)))
      = Fin (spareQueue c ms)"
    using spare_no_unsaturated [of c ms]
    by (auto simp: analyzeVariant_def Let_def float_of_int_def init_VariantCapacityAnalysis_def)
qed

section \<open>Grouping by variant loses nothing\<close>

lemma mset_concat_put_append:
  "wf_map m \<Longrightarrow> mset (concat (map snd (mput k (mget0 [] m k @ [x]) m))) =
     add_mset x (mset (concat (map snd m)))"
proof (induction m)
  case Nil
  then show ?case by simp
next
  case (Cons p m)
  obtain k' v where p: "p = (k', v)" by (cases p)
  show ?case
  proof (cases "k' = k")
    case True
    with p show ?thesis by (simp add: mget0_def)
  next
    case False
    with p have "mget0 [] (p # m) k = mget0 [] m k" by (simp add: mget0_def)
    moreover from Cons.prems have "wf_map m" by (simp add: wf_map_def)
    ultimately show ?thesis using Cons.IH p False by simp
  qed
qed

abbreviation group_step ::
  "(string, ReplicaMetrics list) gomap \<Rightarrow> ReplicaMetrics \<Rightarrow> (string, ReplicaMetrics list) gomap" where
  "group_step m x \<equiv> mput (rm_VariantName x) (mget0 [] m (rm_VariantName x) @ [x]) m"

lemma group_loop:
  assumes "wf_map m"
  shows "wf_map (foldl group_step m ms)"
    and "mset (concat (map snd (foldl group_step m ms))) = mset (concat (map snd m)) + mset ms"
    and "mget0 [] (foldl group_step m ms) v = mget0 [] m v @ filter (\<lambda>x. rm_VariantName x = v) ms"
    and "fst ` set (foldl group_step m ms) = fst ` set m \<union> rm_VariantName ` set ms"
  using assms
proof (induction ms arbitrary: m)
  case (Cons x ms)
  {
    case 1
    then show ?case using Cons.IH(1) by simp
  next
    case 2
    then show ?case using Cons.IH(2) [of "group_step m x"] by (simp add: mset_concat_put_append)
  next
    case 3
    then show ?case using Cons.IH(3) [of "group_step m x"] by (auto simp: mget0_def)
  next
    case 4
    then show ?case using Cons.IH(4) [of "group_step m x"] by (simp add: keys_put)
  }
qed simp_all

lemma variantCounts_wf: "wf_map (variantCounts ms)"
  and variantCounts_keys: "fst ` set (variantCounts ms) = rm_VariantName ` set ms"
proof -
  have "wf_map m \<Longrightarrow> wf_map (foldl (\<lambda>m x. mput (rm_VariantName x)
      (mget0 0 m (rm_VariantName x) + 1 :: int) m) m ms) \<and>
    fst ` set (foldl (\<lambda>m x. mput (rm_VariantName x) (mget0 0 m (rm_VariantName x) + 1) m) m ms)
      = fst ` set m \<union> rm_VariantName ` set ms" for m
    by (induction ms arbitrary: m) (simp_all add: keys_put)
  from this [of "[]"] show "wf_map (variantCounts ms)"
    and "fst ` set (variantCounts ms) = rm_VariantName ` set ms"
    by (simp_all add: variantCounts_def)
qed

lemma empty_groups:
  fixes m :: "(string, int) gomap"
  assumes "wf_map m"
  shows "wf_map (map (\<lambda>(v, c). (v, [])) m)"
    and "concat (map snd (map (\<lambda>(v, c). (v, [])) m)) = []"
    and "mget0 [] (map (\<lambda>(v, c). (v, [])) m) v = []"
    and "fst ` set (map (\<lambda>(v, c). (v, [])) m) = fst ` set m"
  using assms
  by (auto simp: wf_map_def comp_def case_prod_beta image_image mget0_def
      split: option.splits dest!: map_of_SomeD)

lemma variantMap_wf: "wf_map (variantMap ms)"
  and variantMap_mset: "mset (concat (map snd (variantMap ms))) = mset ms"
  and variantMap_keys: "fst ` set (variantMap ms) = rm_VariantName ` set ms"
  and variantMap_get0:
    "mget0 [] (variantMap ms) v = filter (\<lambda>x. rm_VariantName x = v) ms"
proof -
  note e = empty_groups [OF variantCounts_wf [of ms]]
  note g = group_loop [OF e(1), of ms]
  show "wf_map (variantMap ms)" unfolding variantMap_def by (rule g(1))
  show "mset (concat (map snd (variantMap ms))) = mset ms"
    unfolding variantMap_def g(2) e(2) by simp
  show "fst ` set (variantMap ms) = rm_VariantName ` set ms"
    unfolding variantMap_def g(4) e(4) variantCounts_keys by simp
  show "mget0 [] (variantMap ms) v = filter (\<lambda>x. rm_VariantName x = v) ms"
    unfolding variantMap_def g(3) e(3) by simp
qed

lemma variantMap_group:
  assumes "(v, g) \<in> set (variantMap ms)"
  shows "g = filter (\<lambda>x. rm_VariantName x = v) ms" and "g \<noteq> []"
proof -
  from assms variantMap_wf have "mget (variantMap ms) v = Some g"
    by (simp add: wf_map_mget)
  then show g: "g = filter (\<lambda>x. rm_VariantName x = v) ms"
    using variantMap_get0 [of ms v] by (simp add: mget0_def)
  from assms have "v \<in> rm_VariantName ` set ms"
    using variantMap_keys [of ms] by force
  with g show "g \<noteq> []" by (auto simp: filter_empty_conv)
qed

text \<open>A sum over the groups of a sum over their members is the sum over all replicas.\<close>

lemma sum_concat_perm:
  fixes f :: "ReplicaMetrics \<Rightarrow> real"
  assumes "mset (concat gs) = mset ms"
  shows "(\<Sum>g\<leftarrow>gs. \<Sum>m\<leftarrow>unsaturated c g. f m) = (\<Sum>m\<leftarrow>unsaturated c ms. f m)"
proof -
  have "(\<Sum>g\<leftarrow>gs. \<Sum>m\<leftarrow>unsaturated c g. f m) = (\<Sum>m\<leftarrow>unsaturated c (concat gs). f m)"
    by (induction gs) simp_all
  also have "\<dots> = sum_mset (image_mset f (filter_mset (\<lambda>m. \<not> isSaturated c m) (mset (concat gs))))"
    by (metis mset_filter mset_map sum_mset_sum_list unsaturated_def)
  also have "\<dots> = (\<Sum>m\<leftarrow>unsaturated c ms. f m)"
    by (metis assms mset_filter mset_map sum_mset_sum_list unsaturated_def)
  finally show ?thesis .
qed

lemma length_concat_perm:
  assumes "mset (concat gs) = mset ms"
  shows "(\<Sum>g\<leftarrow>gs. int (length (unsaturated c g))) = int (length (unsaturated c ms))"
proof -
  have "(\<Sum>g\<leftarrow>gs. int (length (unsaturated c g))) = int (length (unsaturated c (concat gs)))"
    by (induction gs) simp_all
  also have "length (unsaturated c (concat gs)) = length (unsaturated c ms)"
    by (metis assms mset_filter size_mset unsaturated_def)
  finally show ?thesis .
qed

section \<open>The analysis of a model\<close>

lemma aggregate_loop:
  assumes "finite_config c" and "\<forall>(v, g)\<in>set vm. finite_metrics g"
  shows "foldl (aggregate_step c) (vas, n, Fin k, Fin q) vm =
    (vas @ map (\<lambda>(v, g). analyzeVariant v g c) vm,
     n + (\<Sum>g\<leftarrow>map snd vm. int (length (unsaturated c g))),
     Fin (k + (\<Sum>g\<leftarrow>map snd vm. spareKv c g)), Fin (q + (\<Sum>g\<leftarrow>map snd vm. spareQueue c g)))"
  using assms(2)
proof (induction vm arbitrary: vas n k q)
  case Nil
  then show ?case by simp
next
  case (Cons p vm)
  obtain v g where p: "p = (v, g)" by (cases p)
  with Cons.prems have "finite_metrics g" by simp
  with analyzeVariant_counts [OF assms(1), of g v] Cons p show ?case
    by (simp add: aggregate_step_def Let_def algebra_simps)
qed

definition avgSpareKv :: "CapacityScalingConfig \<Rightarrow> ReplicaMetrics list \<Rightarrow> real" where
  "avgSpareKv c ms = (if unsaturated c ms = [] then 0
     else spareKv c ms / real (length (unsaturated c ms)))"

definition avgSpareQueue :: "CapacityScalingConfig \<Rightarrow> ReplicaMetrics list \<Rightarrow> real" where
  "avgSpareQueue c ms = (if unsaturated c ms = [] then 0
     else spareQueue c ms / real (length (unsaturated c ms)))"

lemma variantMap_sums:
  "(\<Sum>g\<leftarrow>map snd (variantMap ms). spareKv c g) = spareKv c ms"
  "(\<Sum>g\<leftarrow>map snd (variantMap ms). spareQueue c g) = spareQueue c ms"
  "(\<Sum>g\<leftarrow>map snd (variantMap ms). int (length (unsaturated c g))) = int (length (unsaturated c ms))"
  unfolding spareKv_def spareQueue_def
  by (rule sum_concat_perm length_concat_perm, rule variantMap_mset)+

lemma variantMap_finite:
  "finite_metrics ms \<Longrightarrow> \<forall>(v, g)\<in>set (variantMap ms). finite_metrics g"
  using variantMap_group(1) by (fastforce simp: finite_metrics_filter)

lemma AnalyzeModelCapacity_finite:
  assumes "finite_config c" and "finite_metrics ms" and "ms \<noteq> []"
  shows "AnalyzeModelCapacity now modelID ns ms c =
    \<lparr>ma_ModelID = modelID, ma_Namespace = ns, ma_AnalyzedAt = now,
     ma_TotalReplicas = int (length ms), ma_NonSaturatedCount = int (length (unsaturated c ms)),
     ma_AvgSpareKvCapacity = Fin (avgSpareKv c ms),
     ma_AvgSpareQueueLength = Fin (avgSpareQueue c ms),
     ma_ShouldScaleUp = fst (shouldScaleUp (Fin (avgSpareKv c ms)) (Fin (avgSpareQueue c ms)) c),
     ma_ShouldScaleDown = fst (isScaleDownSafe ms c),
     ma_ScaleUpReason = snd (shouldScaleUp (Fin (avgSpareKv c ms)) (Fin (avgSpareQueue c ms)) c),
     ma_ScaleDownSafe = snd (isScaleDownSafe ms c),
     ma_VariantAnalyses = map (\<lambda>(v, g). analyzeVariant v g c) (variantMap ms)\<rparr>"
proof -
  have "foldl (aggregate_step c) ([], 0, Fin 0, Fin 0) (variantMap ms) =
    (map (\<lambda>(v, g). analyzeVariant v g c) (variantMap ms), int (length (unsaturated c ms)),
     Fin (spareKv c ms), Fin (spareQueue c ms))"
    using aggregate_loop [OF assms(1) variantMap_finite [OF assms(2)], of "[]" 0 0 0]
    unfolding variantMap_sums by simp
  with assms(3) show ?thesis
    unfolding AnalyzeModelCapacity_def
    by (cases "unsaturated c ms = []")
      (simp_all add: Let_def avgSpareKv_def avgSpareQueue_def float_of_int_def split: prod.splits)
qed

lemma AnalyzeModelCapacity_analyses:
  "ms \<noteq> [] \<Longrightarrow> ma_VariantAnalyses (AnalyzeModelCapacity now modelID ns ms c) =
     map (\<lambda>(v, g). analyzeVariant v g c) (variantMap ms)"
proof -
  have "fst (foldl (aggregate_step c) (vas, n, k, q) vm) =
      vas @ map (\<lambda>(v, g). analyzeVariant v g c) vm" for vas n k q vm
    by (induction vm arbitrary: vas n k q) (auto simp: aggregate_step_def Let_def)
  from this [of "[]" 0 "Fin 0" "Fin 0" "variantMap ms"]
  show "ms \<noteq> [] \<Longrightarrow> ?thesis"
    by (auto simp: AnalyzeModelCapacity_def Let_def split: prod.splits)
qed

subsection \<open>Loads\<close>

definition kvLoad :: "CapacityScalingConfig \<Rightarrow> ReplicaMetrics list \<Rightarrow> real" where
  "kvLoad c ms = (\<Sum>m\<leftarrow>unsaturated c ms. real_of (rm_KvCacheUsage m))"

definition queueLoad :: "CapacityScalingConfig \<Rightarrow> ReplicaMetrics list \<Rightarrow> real" where
  "queueLoad c ms = (\<Sum>m\<leftarrow>unsaturated c ms. real_of_int (rm_QueueLength m))"

lemma spare_load:
  "spareKv c ms = real (length (unsaturated c ms)) * real_of (KvCacheThreshold c) - kvLoad c ms"
  "spareQueue c ms =
     real (length (unsaturated c ms)) * real_of (QueueLengthThreshold c) - queueLoad c ms"
  by (simp_all add: spareKv_def kvLoad_def spareQueue_def queueLoad_def sum_list_subtractf
      sum_list_triv)

lemma foldl_plus_int: "foldl (\<lambda>s m. s + f m) s ms = s + (\<Sum>m\<leftarrow>ms. f m :: int)"
  by (induction ms arbitrary: s) simp_all

lemma real_of_int_sum_list: "real_of_int (\<Sum>m\<leftarrow>ms. f m) = (\<Sum>m\<leftarrow>ms. real_of_int (f m))"
  by (induction ms) simp_all

lemma isScaleDownSafe_finite:
  assumes "finite_config c" and "finite_metrics ms"
  shows "isScaleDownSafe ms c =
    (False, 2 \<le> length (unsaturated c ms) \<and>
      real_of (KvSpareTrigger c) \<le> real_of (KvCacheThreshold c) -
        kvLoad c ms / (real (length (unsaturated c ms)) - 1) \<and>
      real_of (QueueSpareTrigger c) \<le> real_of (QueueLengthThreshold c) -
        queueLoad c ms / (real (length (unsaturated c ms)) - 1))"
proof -
  let ?u = "unsaturated c ms"
  have "foldl (\<lambda>s m. s + rm_KvCacheUsage m) (Fin 0) ?u = Fin (kvLoad c ms)"
    using foldl_plus_Fin [of ?u rm_KvCacheUsage 0] assms(2)
    by (simp add: kvLoad_def unsaturated_def finite_metrics_def)
  moreover have "real_of_int (\<Sum>m\<leftarrow>?u. rm_QueueLength m) = queueLoad c ms"
    by (simp add: queueLoad_def real_of_int_sum_list)
  ultimately show ?thesis
    using assms(1) unfolding isScaleDownSafe_def unsaturated_def [symmetric]
    by (elim finite_configE)
      (auto simp: Let_def MinNonSaturatedReplicasForScaleDown_def float_of_int_def foldl_plus_int)
qed

text \<open>Loads are non-negative; with that, taking a replica away only raises the average load.\<close>

definition nonneg_metrics :: "ReplicaMetrics list \<Rightarrow> bool" where
  "nonneg_metrics ms \<longleftrightarrow>
     (\<forall>m\<in>set ms. Fin 0 \<le> rm_KvCacheUsage m \<and> 0 \<le> rm_QueueLength m)"

lemma load_nonneg:
  assumes "finite_metrics ms" and "nonneg_metrics ms"
  shows "0 \<le> kvLoad c ms" and "0 \<le> queueLoad c ms"
proof -
  have "0 \<le> real_of (rm_KvCacheUsage m) \<and> 0 \<le> rm_QueueLength m" if "m \<in> set ms" for m
    using assms that by (cases "rm_KvCacheUsage m") (auto simp: finite_metrics_def nonneg_metrics_def)
  then show "0 \<le> kvLoad c ms" "0 \<le> queueLoad c ms"
    by (auto simp: kvLoad_def queueLoad_def unsaturated_def intro!: sum_list_nonneg)
qed

lemma avgSpare_load:
  assumes "unsaturated c ms \<noteq> []"
  shows "avgSpareKv c ms = real_of (KvCacheThreshold c) - kvLoad c ms / real (length (unsaturated c ms))"
    and "avgSpareQueue c ms =
      real_of (QueueLengthThreshold c) - queueLoad c ms / real (length (unsaturated c ms))"
  using assms by (simp_all add: avgSpareKv_def avgSpareQueue_def spare_load diff_divide_distrib)

lemma shouldScaleUp_finite:
  "finite_config c \<Longrightarrow> fst (shouldScaleUp (Fin k) (Fin q) c) \<longleftrightarrow>
     k < real_of (KvSpareTrigger c) \<or> q < real_of (QueueSpareTrigger c)"
  by (erule finite_configE) (simp add: shouldScaleUp_def Let_def)

text \<open>A load spread over fewer replicas leaves less spare capacity.\<close>

lemma spread_load_mono:
  fixes load t :: real
  assumes "0 \<le> load" and "2 \<le> (n::nat)"
  shows "t - load / (real n - 1) \<le> t - load / real n"
  using assms by (simp add: frac_le)

section \<open>NaN samples\<close>

text \<open>A pod whose cache-usage sample is NaN is not saturated by its cache, and its sample makes
  the sums it enters NaN.\<close>

lemma analyzeVariant_loop_nan:
  "(\<exists>m\<in>set ms. rm_KvCacheUsage m = NaN \<and> \<not> isSaturated c m) \<or> k = NaN \<Longrightarrow>
   fst (snd (foldl (analyzeVariant_step c) (a, k, q, n) ms)) = NaN"
proof (induction ms arbitrary: a k q n)
  case Nil
  then show ?case by simp
next
  case (Cons m ms)
  obtain a' k' q' n' where st: "analyzeVariant_step c (a, k, q, n) m = (a', k', q', n')"
    by (metis prod.collapse)
  then have "k' = (if isSaturated c m then k else k + (KvCacheThreshold c - rm_KvCacheUsage m))"
    by (auto simp: analyzeVariant_step_def Let_def split: if_splits)
  with Cons.prems have "(\<exists>m\<in>set ms. rm_KvCacheUsage m = NaN \<and> \<not> isSaturated c m) \<or> k' = NaN"
    by auto
  with st Cons.IH show ?case by simp
qed

lemma analyzeVariant_loop_count:
  "snd (snd (snd (foldl (analyzeVariant_step c) (a, k, q, n) ms))) =
     n + int (length (unsaturated c ms))"
proof (induction ms arbitrary: a k q n)
  case (Cons m ms)
  obtain a' k' q' n' where st: "analyzeVariant_step c (a, k, q, n) m = (a', k', q', n')"
    by (metis prod.collapse)
  then have "n' = (if isSaturated c m then n else n + 1)"
    by (auto simp: analyzeVariant_step_def Let_def split: if_splits)
  with st Cons.IH show ?case by simp
qed simp

lemma analyzeVariant_nan:
  assumes "m \<in> set ms" and "rm_KvCacheUsage m = NaN" and "\<not> isSaturated c m"
  shows "va_AvgSpareKvCapacity (analyzeVariant v ms c) = NaN"
proof -
  let ?f = "foldl (analyzeVariant_step c) (init_VariantCapacityAnalysis v ms, Fin 0, Fin 0, 0) ms"
  obtain a q n where f: "?f = (a, NaN, q, n)"
    using analyzeVariant_loop_nan [of ms c "Fin 0" _ "Fin 0" 0] assms by (metis prod.collapse)
  from assms have "0 < length (unsaturated c ms)"
    by (auto simp: unsaturated_def filter_empty_conv)
  then have "0 < n"
    using analyzeVariant_loop_count [of c "init_VariantCapacityAnalysis v ms" "Fin 0" "Fin 0" 0 ms] f
    by simp
  with f show ?thesis by (simp add: analyzeVariant_def)
qed

lemma analyzeVariant_count_nonneg:
  "va_NonSaturatedCount (analyzeVariant v ms c) = int (length (unsaturated c ms))"
  using analyzeVariant_loop_count [of c "init_VariantCapacityAnalysis v ms" "Fin 0" "Fin 0" 0 ms]
  by (auto simp: analyzeVariant_def Let_def split: prod.splits)

lemma aggregate_loop_nan:
  "(\<exists>p\<in>set vm. va_AvgSpareKvCapacity (analyzeVariant (fst p) (snd p) c) = NaN) \<or> k = NaN \<Longrightarrow>
   fst (snd (snd (foldl (aggregate_step c) (vas, n, k, q) vm))) = NaN"
proof (induction vm arbitrary: vas n k q)
  case (Cons p vm)
  obtain vas' n' k' q' where st: "aggregate_step c (vas, n, k, q) p = (vas', n', k', q')"
    by (metis prod.collapse)
  with Cons.prems
  have "(\<exists>p\<in>set vm. va_AvgSpareKvCapacity (analyzeVariant (fst p) (snd p) c) = NaN) \<or> k' = NaN"
    by (auto simp: aggregate_step_def Let_def)
  with st Cons.IH show ?case by simp
qed simp

lemma aggregate_loop_count:
  "fst (snd (foldl (aggregate_step c) (vas, n, k, q) vm)) =
     n + (\<Sum>g\<leftarrow>map snd vm. int (length (unsaturated c g)))"
  by (induction vm arbitrary: vas n k q)
    (auto simp: aggregate_step_def Let_def analyzeVariant_count_nonneg)

lemma foldl_plus_nan:
  "(\<exists>m\<in>set ms. f m = NaN) \<or> s = NaN \<Longrightarrow> foldl (\<lambda>s m. s + f m) s ms = NaN"
  by (induction ms arbitrary: s) auto

section \<open>Properties of the analysis\<close>

text \<open>A replica with a given variant, cache usage, queue length and cost, for the witnesses.\<close>

definition sample :: "string \<Rightarrow> gofloat \<Rightarrow> int \<Rightarrow> gofloat \<Rightarrow> ReplicaMetrics" where
  "sample v kv q cost =
     \<lparr>rm_PodName = v @ ''-pod'', rm_KvCacheUsage = kv, rm_QueueLength = q, rm_VariantName = v,
      rm_Namespace = ''ns'', rm_ModelID = ''llama'', rm_AcceleratorName = ''A100'',
      rm_Cost = cost\<rparr>"

lemmas sample_simps = sample_def DefaultCapacityScalingConfig_def zero_CapacityScalingConfig_def
  float_of_int_def

text \<open>C11: the grouping by variant is exact. Whatever the order of the replicas and of the map of
  variants, the analysis counts every replica once, its non-saturated count is the number of
  replicas below both thresholds, and its averages are the averages of the spare capacity over
  exactly those replicas (zero when there is none).\<close>

theorem analysis_exact:
  assumes "finite_config c" and "finite_metrics ms" and "ms \<noteq> []"
  shows "let a = AnalyzeModelCapacity now modelID ns ms c;
             u = filter (\<lambda>m. \<not> isSaturated c m) ms
         in ma_TotalReplicas a = int (length ms) \<and>
            (\<Sum>va\<leftarrow>ma_VariantAnalyses a. va_ReplicaCount va) = int (length ms) \<and>
            ma_NonSaturatedCount a = int (length u) \<and>
            (\<Sum>va\<leftarrow>ma_VariantAnalyses a. va_NonSaturatedCount va) = int (length u) \<and>
            ma_AvgSpareKvCapacity a = (if u = [] then Fin 0 else Fin ((\<Sum>m\<leftarrow>u.
              real_of (KvCacheThreshold c) - real_of (rm_KvCacheUsage m)) / real (length u))) \<and>
            ma_AvgSpareQueueLength a = (if u = [] then Fin 0 else Fin ((\<Sum>m\<leftarrow>u.
              real_of (QueueLengthThreshold c) - real_of_int (rm_QueueLength m)) / real (length u)))"
proof -
  note f = AnalyzeModelCapacity_finite [OF assms, of now modelID ns]
  have len: "(\<Sum>g\<leftarrow>gs. int (length g)) = int (length (concat gs))" for gs :: "ReplicaMetrics list list"
    by (induction gs) simp_all
  have "length (concat (map snd (variantMap ms))) = length ms"
    using variantMap_mset [of ms] by (metis size_mset)
  then have "(\<Sum>va\<leftarrow>map (\<lambda>(v, g). analyzeVariant v g c) (variantMap ms). va_ReplicaCount va) =
      int (length ms)"
    using len [of "map snd (variantMap ms)"]
    by (simp add: comp_def case_prod_beta analyzeVariant_fields)
  moreover have "(\<Sum>va\<leftarrow>map (\<lambda>(v, g). analyzeVariant v g c) (variantMap ms). va_NonSaturatedCount va) =
      int (length (unsaturated c ms))"
    using variantMap_sums(3) [of c ms]
    by (simp add: comp_def case_prod_beta analyzeVariant_count_nonneg)
  ultimately show ?thesis
    by (simp add: f Let_def avgSpareKv_def avgSpareQueue_def spareKv_def spareQueue_def
        flip: unsaturated_def)
qed

lemma sample_metrics_ok:
  "finite_metrics [sample ''a'' (Fin (1/5)) 1 (Fin 10), sample ''b'' (Fin (1/5)) 1 (Fin 20)]"
  "nonneg_metrics [sample ''a'' (Fin (1/5)) 1 (Fin 10), sample ''b'' (Fin (1/5)) 1 (Fin 20)]"
  by (simp_all add: sample_def nonneg_metrics_def)

lemma sample_scale_down_safe:
  "ma_ScaleDownSafe (AnalyzeModelCapacity () ''llama'' ''ns''
     [sample ''a'' (Fin (1/5)) 1 (Fin 10), sample ''b'' (Fin (1/5)) 1 (Fin 20)]
     DefaultCapacityScalingConfig)"
  by (simp add: AnalyzeModelCapacity_finite [OF DefaultCapacityScalingConfig_finite sample_metrics_ok(1)]
        isScaleDownSafe_finite [OF DefaultCapacityScalingConfig_finite sample_metrics_ok(1)])
    (simp add: kvLoad_def queueLoad_def isSaturated_def sample_simps)

theorem analysis_exact_witness:
  "ma_NonSaturatedCount (AnalyzeModelCapacity () ''llama'' ''ns''
     [sample ''a'' (Fin (1/5)) 1 (Fin 10), sample ''b'' (Fin (1/5)) 1 (Fin 20)]
     DefaultCapacityScalingConfig) = 2"
  using analysis_exact [OF DefaultCapacityScalingConfig_finite sample_metrics_ok(1),
      of "()" "''llama''" "''ns''"]
  by (simp add: Let_def isSaturated_def sample_simps)

text \<open>The two recommendations exclude each other. For non-negative loads an analysis that
  declares scale-down safe never asks for a scale-up: the headroom left after taking one replica
  away is below the headroom there is now.\<close>

lemma scale_up_down_exclusive:
  assumes "finite_config c" and "finite_metrics ms" and "nonneg_metrics ms"
    and "ma_ScaleDownSafe (AnalyzeModelCapacity now modelID ns ms c)"
  shows "\<not> ma_ShouldScaleUp (AnalyzeModelCapacity now modelID ns ms c)"
proof -
  have ne: "ms \<noteq> []" using assms(4) by (auto simp: AnalyzeModelCapacity_def)
  note f = AnalyzeModelCapacity_finite [OF assms(1,2) ne, of now modelID ns]
  let ?n = "length (unsaturated c ms)"
  from assms(4) have safe: "2 \<le> ?n"
    "real_of (KvSpareTrigger c) \<le> real_of (KvCacheThreshold c) - kvLoad c ms / (real ?n - 1)"
    "real_of (QueueSpareTrigger c) \<le> real_of (QueueLengthThreshold c) - queueLoad c ms / (real ?n - 1)"
    by (simp_all add: f isScaleDownSafe_finite [OF assms(1,2)])
  from safe(1) have u: "unsaturated c ms \<noteq> []" by auto
  show ?thesis
    using safe spread_load_mono [OF load_nonneg(1) [OF assms(2,3), of c] safe(1)]
      spread_load_mono [OF load_nonneg(2) [OF assms(2,3), of c] safe(1)]
    by (auto simp: f shouldScaleUp_finite [OF assms(1)] avgSpare_load [OF u] not_less
        intro: order_trans)
qed

text \<open>C2: an approved scale-down does not flap. If scale-down is declared safe and the load of
  the non-saturated replicas is then carried, in any split that saturates none of them, by one
  replica fewer, the next analysis does not ask for a scale-up.\<close>

theorem scale_down_no_flapping:
  assumes "finite_config c" and "finite_metrics ms" and "finite_metrics ms'"
    and "ma_ScaleDownSafe (AnalyzeModelCapacity now modelID ns ms c)"
    and "\<forall>m\<in>set ms'. \<not> isSaturated c m"
    and "length ms' + 1 = length (filter (\<lambda>m. \<not> isSaturated c m) ms)"
    and "(\<Sum>m\<leftarrow>ms'. real_of (rm_KvCacheUsage m)) =
      (\<Sum>m\<leftarrow>filter (\<lambda>m. \<not> isSaturated c m) ms. real_of (rm_KvCacheUsage m))"
    and "(\<Sum>m\<leftarrow>ms'. rm_QueueLength m) =
      (\<Sum>m\<leftarrow>filter (\<lambda>m. \<not> isSaturated c m) ms. rm_QueueLength m)"
  shows "\<not> ma_ShouldScaleUp (AnalyzeModelCapacity now' modelID ns ms' c)"
proof -
  have ne: "ms \<noteq> []" using assms(4) by (auto simp: AnalyzeModelCapacity_def)
  note safe = assms(4) [unfolded AnalyzeModelCapacity_finite [OF assms(1,2) ne]
      isScaleDownSafe_finite [OF assms(1,2)], simplified]
  have u': "unsaturated c ms' = ms'" using assms(5) by (simp add: unsaturated_def)
  have loads: "kvLoad c ms' = kvLoad c ms" "queueLoad c ms' = queueLoad c ms"
    using assms(7) arg_cong [OF assms(8), of real_of_int] u'
    by (simp_all add: kvLoad_def queueLoad_def unsaturated_def real_of_int_sum_list)
  have len: "real (length ms') = real (length (unsaturated c ms)) - 1"
    using assms(6) by (simp add: unsaturated_def)
  with safe have ne': "ms' \<noteq> []" by auto
  with safe show ?thesis
    by (simp add: AnalyzeModelCapacity_finite [OF assms(1,3) ne'] shouldScaleUp_finite [OF assms(1)]
        avgSpare_load u' loads len)
qed

theorem scale_down_no_flapping_witness:
  "\<not> ma_ShouldScaleUp (AnalyzeModelCapacity () ''llama'' ''ns''
     [sample ''a'' (Fin (2/5)) 2 (Fin 10)] DefaultCapacityScalingConfig)"
  by (rule scale_down_no_flapping [OF DefaultCapacityScalingConfig_finite sample_metrics_ok(1)
        _ sample_scale_down_safe])
    (simp_all add: isSaturated_def sample_simps)

text \<open>C27: overload is detected. When every replica is saturated and a trigger is positive, the
  analysis asks for a scale-up and declares scale-down unsafe.\<close>

theorem all_saturated_scales_up:
  assumes "finite_config c" and "finite_metrics ms" and "ms \<noteq> []"
    and "\<forall>m\<in>set ms. isSaturated c m"
    and "Fin 0 < KvSpareTrigger c \<or> Fin 0 < QueueSpareTrigger c"
  shows "ma_ShouldScaleUp (AnalyzeModelCapacity now modelID ns ms c) \<and>
    \<not> ma_ScaleDownSafe (AnalyzeModelCapacity now modelID ns ms c)"
proof -
  have "unsaturated c ms = []" using assms(4) by (simp add: unsaturated_def)
  then show ?thesis
    using assms(1,5) by (auto simp: AnalyzeModelCapacity_finite [OF assms(1-3)] avgSpareKv_def
        avgSpareQueue_def shouldScaleUp_finite isScaleDownSafe_finite [OF assms(1,2)]
        elim!: finite_configE)
qed

theorem all_saturated_scales_up_witness:
  "ma_ShouldScaleUp (AnalyzeModelCapacity () ''llama'' ''ns'' [sample ''a'' (Fin (9/10)) 0 (Fin 10)]
     DefaultCapacityScalingConfig)"
  by (rule conjunct1, rule all_saturated_scales_up [OF DefaultCapacityScalingConfig_finite])
    (simp_all add: isSaturated_def sample_simps)

text \<open>One NaN sample hides cache pressure. A replica whose cache-usage sample is NaN and
  whose queue is below its threshold counts as not saturated, makes the average spare cache NaN,
  and so takes the cache trigger out of the decision: the model is scaled up only if the queue
  trigger fires, however full the other caches are, and scale-down is never approved.\<close>

lemma nan_sample_masks_kv_trigger:
  assumes "m \<in> set ms" and "rm_KvCacheUsage m = NaN"
    and "\<not> QueueLengthThreshold c \<le> float_of_int (rm_QueueLength m)"
  shows "let a = AnalyzeModelCapacity now modelID ns ms c
    in ma_AvgSpareKvCapacity a = NaN \<and>
       (ma_ShouldScaleUp a \<longleftrightarrow> ma_AvgSpareQueueLength a < QueueSpareTrigger c) \<and>
       \<not> ma_ScaleDownSafe a"
proof -
  have sat: "\<not> isSaturated c m" using assms(2,3) by (simp add: isSaturated_def)
  then have mu: "m \<in> set (unsaturated c ms)" using assms(1) by (simp add: unsaturated_def)
  let ?f = "foldl (aggregate_step c) ([], 0, Fin 0, Fin 0) (variantMap ms)"
  have "rm_VariantName m \<in> fst ` set (variantMap ms)"
    using assms(1) variantMap_keys [of ms] by simp
  then obtain g where g: "(rm_VariantName m, g) \<in> set (variantMap ms)" by auto
  then have "m \<in> set g" using variantMap_group(1) [OF g] assms(1) by simp
  then have "va_AvgSpareKvCapacity (analyzeVariant (rm_VariantName m) g c) = NaN"
    using analyzeVariant_nan [OF _ assms(2) sat] by simp
  then have nan: "fst (snd (snd ?f)) = NaN"
    using g by (intro aggregate_loop_nan) force
  have cnt: "fst (snd ?f) = int (length (unsaturated c ms))"
    using aggregate_loop_count [of c "[]" 0 "Fin 0" "Fin 0" "variantMap ms"] variantMap_sums(3)
    by simp
  obtain vas q where f: "?f = (vas, int (length (unsaturated c ms)), NaN, q)"
    using nan cnt by (metis prod.collapse)
  have ne: "ms \<noteq> []" "unsaturated c ms \<noteq> []" using assms(1) mu by auto
  have "foldl (\<lambda>s m. s + rm_KvCacheUsage m) (Fin 0) (unsaturated c ms) = NaN"
    by (rule foldl_plus_nan) (use mu assms(2) in blast)
  then have "\<not> snd (isScaleDownSafe ms c)"
    by (simp add: isScaleDownSafe_def Let_def flip: unsaturated_def)
  with f ne show ?thesis
    by (auto simp: AnalyzeModelCapacity_def Let_def shouldScaleUp_def split: prod.splits)
qed

lemma nan_sample_masks_kv_trigger_witness:
  "\<not> ma_ScaleDownSafe (AnalyzeModelCapacity () ''llama'' ''ns''
      [sample ''a'' NaN 0 (Fin 10), sample ''b'' (Fin (79/100)) 1 (Fin 20)]
      DefaultCapacityScalingConfig)"
  using nan_sample_masks_kv_trigger [of "sample ''a'' NaN 0 (Fin 10)"
      "[sample ''a'' NaN 0 (Fin 10), sample ''b'' (Fin (79/100)) 1 (Fin 20)]"
      DefaultCapacityScalingConfig "()" "''llama''" "''ns''"]
  by (simp add: Let_def sample_simps)

end
