(* ===== verification/Capacity_Targets.thy ===== *)
theory Capacity_Targets
  imports Capacity_Analyzer
begin

text \<open>
  Replica targets per variant and the arbitration with the model-based optimizer
  (\<^verbatim>\<open>CalculateCapacityTargets\<close>, \<^verbatim>\<open>ArbitrateWithModelBased\<close> and \<^verbatim>\<open>arbitrateVariant\<close> of
  \<^verbatim>\<open>internal/capacity/analyzer.go\<close>). The lemmas give the target of every variant in closed
  form, the choice of the variant that is scaled, its independence of the order of the
  analyses, and the decision matrix of the arbitration.
\<close>

section \<open>Targets\<close>

definition stateMap :: "VariantReplicaState list \<Rightarrow> (string, VariantReplicaState) gomap" where
  "stateMap variantStates = foldl (\<lambda>m s. mput (vs_VariantName s) s m) [] variantStates"

definition state_of :: "VariantReplicaState list \<Rightarrow> string \<Rightarrow> VariantReplicaState" where
  "state_of variantStates v = mget0 zero_VariantReplicaState (stateMap variantStates) v"

text \<open>The variant has a desired count of an earlier run that the deployment has not reached.\<close>

definition preserves :: "VariantReplicaState list \<Rightarrow> VariantCapacityAnalysis \<Rightarrow> bool" where
  "preserves variantStates va \<longleftrightarrow>
     (let s = state_of variantStates (va_VariantName va)
      in vs_DesiredReplicas s \<noteq> 0 \<and> vs_DesiredReplicas s \<noteq> vs_CurrentReplicas s)"

definition preserve_step ::
  "VariantReplicaState list \<Rightarrow> (string, int) gomap \<times> (string, bool) gomap \<Rightarrow>
   VariantCapacityAnalysis \<Rightarrow> (string, int) gomap \<times> (string, bool) gomap" where
  "preserve_step variantStates st va =
     (let (targets, preserved) = st
      in if preserves variantStates va
         then (mput (va_VariantName va)
                 (vs_DesiredReplicas (state_of variantStates (va_VariantName va))) targets,
               mput (va_VariantName va) True preserved)
         else (targets, preserved))"

text \<open>The bodies of the two selection loops.\<close>

definition cheapest_step ::
  "(string, bool) gomap \<Rightarrow> VariantCapacityAnalysis option \<Rightarrow> VariantCapacityAnalysis \<Rightarrow>
   VariantCapacityAnalysis option" where
  "cheapest_step preserved best va =
     (if mget0 False preserved (va_VariantName va) then best
      else case best of
        None \<Rightarrow> Some va
      | Some b \<Rightarrow>
          if va_Cost va < va_Cost b \<or>
             (feq (va_Cost va) (va_Cost b) \<and> va_VariantName va < va_VariantName b)
          then Some va else best)"

definition mostExpensive_step ::
  "(string, bool) gomap \<Rightarrow> VariantCapacityAnalysis option \<Rightarrow> VariantCapacityAnalysis \<Rightarrow>
   VariantCapacityAnalysis option" where
  "mostExpensive_step preserved best va =
     (if mget0 False preserved (va_VariantName va) then best
      else if va_ReplicaCount va \<le> 1 then best
      else case best of
        None \<Rightarrow> Some va
      | Some b \<Rightarrow>
          if va_Cost b < va_Cost va \<or>
             (feq (va_Cost va) (va_Cost b) \<and> va_VariantName b < va_VariantName va)
          then Some va else best)"

definition CalculateCapacityTargets ::
  "'time ModelCapacityAnalysis option \<Rightarrow> VariantReplicaState list \<Rightarrow> (string, int) gomap" where
  "CalculateCapacityTargets capacityAnalysis variantStates =
     (case capacityAnalysis of
        None \<Rightarrow> foldl (\<lambda>m s. mput (vs_VariantName s) (vs_CurrentReplicas s) m) [] variantStates
      | Some ca \<Rightarrow>
          if ma_VariantAnalyses ca = []
          then foldl (\<lambda>m s. mput (vs_VariantName s) (vs_CurrentReplicas s) m) [] variantStates
          else
            let targets = foldl (\<lambda>m va. mput (va_VariantName va) (va_ReplicaCount va) m) []
                            (ma_VariantAnalyses ca);
                (targets, preserved) =
                  foldl (preserve_step variantStates) (targets, []) (ma_VariantAnalyses ca)
            in if ma_ShouldScaleUp ca then
                 case foldl (cheapest_step preserved) None (ma_VariantAnalyses ca) of
                   Some b \<Rightarrow> mput (va_VariantName b) (va_ReplicaCount b + 1) targets
                 | None \<Rightarrow> targets
               else if ma_ScaleDownSafe ca then
                 case foldl (mostExpensive_step preserved) None (ma_VariantAnalyses ca) of
                   Some b \<Rightarrow> mput (va_VariantName b) (va_ReplicaCount b - 1) targets
                 | None \<Rightarrow> targets
               else targets)"

section \<open>Arbitration\<close>

text \<open>The comparison of a target with the current replicas: \<^verbatim>\<open>arbitrateVariant\<close> makes it for
  the capacity target and for the model-based target, and the controller where it turns
  targets into decisions.\<close>

definition action_for :: "int \<Rightarrow> int \<Rightarrow> CapacityAction" where
  "action_for target current =
     (if target > current then ActionScaleUp
      else if target < current then ActionScaleDown
      else ActionNoChange)"

definition action_string :: "CapacityAction \<Rightarrow> string" where
  "action_string a = (case a of ActionScaleUp \<Rightarrow> ''scale-up'' | ActionScaleDown \<Rightarrow> ''scale-down''
     | ActionNoChange \<Rightarrow> ''no-change'')"

definition init_VariantDecision ::
  "'time ModelCapacityAnalysis option \<Rightarrow> VariantCapacityAnalysis option \<Rightarrow> VariantReplicaState \<Rightarrow>
   VariantDecision" where
  "init_VariantDecision modelAnalysis variantAnalysis state =
     \<lparr>vd_VariantName = vs_VariantName state,
      vd_Namespace = (case modelAnalysis of None \<Rightarrow> '''' | Some m \<Rightarrow> ma_Namespace m),
      vd_ModelID = (case modelAnalysis of None \<Rightarrow> '''' | Some m \<Rightarrow> ma_ModelID m),
      vd_AcceleratorName =
        (case variantAnalysis of None \<Rightarrow> '''' | Some v \<Rightarrow> va_AcceleratorName v),
      vd_Cost = (case variantAnalysis of None \<Rightarrow> Fin 0 | Some v \<Rightarrow> va_Cost v),
      vd_Action = ActionNoChange, vd_CurrentReplicas = vs_CurrentReplicas state,
      vd_TargetReplicas = 0, vd_DesiredReplicas = vs_DesiredReplicas state,
      vd_Reason = sprintf '''' [], vd_CapacityBased = False, vd_ModelBasedDecision = False,
      vd_SafetyOverride = False, vd_CapacityOnly = False\<rparr>"

definition arbitrateVariant ::
  "'time ModelCapacityAnalysis option \<Rightarrow> VariantCapacityAnalysis option \<Rightarrow> VariantReplicaState \<Rightarrow>
   int \<Rightarrow> int \<Rightarrow> VariantDecision" where
  "arbitrateVariant modelAnalysis variantAnalysis state capacityTarget modelBasedTarget =
     (let decision = init_VariantDecision modelAnalysis variantAnalysis state;
          current = vs_CurrentReplicas state;
          capacityAction = action_for capacityTarget current;
          modelBasedAction = action_for modelBasedTarget current
      in if capacityAction = ActionScaleUp \<and> modelBasedAction = ActionScaleDown then
           decision\<lparr>vd_Action := ActionNoChange, vd_TargetReplicas := current,
             vd_Reason := sprintf
               ''capacity veto: capacity needs scale-up (capacity=%d, model-based=%d)''
               [FInt capacityTarget, FInt modelBasedTarget],
             vd_SafetyOverride := True, vd_CapacityBased := True, vd_ModelBasedDecision := True\<rparr>
         else if modelBasedAction = ActionScaleDown \<and>
                 (case modelAnalysis of None \<Rightarrow> False | Some m \<Rightarrow> \<not> ma_ScaleDownSafe m) then
           decision\<lparr>vd_Action := ActionNoChange, vd_TargetReplicas := current,
             vd_Reason := sprintf
               ''capacity safety block: scale-down unsafe (model-based wants %d)''
               [FInt modelBasedTarget],
             vd_SafetyOverride := True, vd_CapacityBased := True, vd_ModelBasedDecision := True\<rparr>
         else if capacityAction = ActionScaleUp \<and> modelBasedAction = ActionNoChange then
           decision\<lparr>vd_Action := ActionScaleUp, vd_TargetReplicas := capacityTarget,
             vd_Reason := sprintf ''capacity-driven scale-up to %d'' [FInt capacityTarget],
             vd_CapacityBased := True, vd_ModelBasedDecision := False\<rparr>
         else if modelBasedAction = ActionScaleUp \<or> modelBasedAction = ActionScaleDown then
           decision\<lparr>vd_Action := modelBasedAction, vd_TargetReplicas := modelBasedTarget,
             vd_Reason := sprintf ''model-based recommendation: %s to %d (capacity allows)''
               [FStr (action_string modelBasedAction), FInt modelBasedTarget],
             vd_CapacityBased := False, vd_ModelBasedDecision := True\<rparr>
         else
           decision\<lparr>vd_Action := ActionNoChange, vd_TargetReplicas := current,
             vd_Reason := sprintf ''no action needed'' [],
             vd_CapacityBased := False, vd_ModelBasedDecision := False\<rparr>)"

definition variantAnalysisMap ::
  "'time ModelCapacityAnalysis option \<Rightarrow> (string, VariantCapacityAnalysis) gomap" where
  "variantAnalysisMap capacityAnalysis =
     (case capacityAnalysis of
        None \<Rightarrow> []
      | Some ca \<Rightarrow> foldl (\<lambda>m va. mput (va_VariantName va) va m) [] (ma_VariantAnalyses ca))"

definition ArbitrateWithModelBased ::
  "'time ModelCapacityAnalysis option \<Rightarrow> (string, int) gomap \<Rightarrow> (string, int) gomap \<Rightarrow>
   VariantReplicaState list \<Rightarrow> VariantDecision list" where
  "ArbitrateWithModelBased capacityAnalysis capacityTargets modelBasedTargets variantStates =
     (let vam = variantAnalysisMap capacityAnalysis
      in map (\<lambda>state. arbitrateVariant capacityAnalysis (mget vam (vs_VariantName state)) state
                (mget0 0 capacityTargets (vs_VariantName state))
                (mget0 0 modelBasedTargets (vs_VariantName state))) variantStates)"

section \<open>Selecting the best element of a list\<close>

text \<open>Both selection loops keep the best element seen so far among those not skipped.\<close>

definition select_step ::
  "('a \<Rightarrow> bool) \<Rightarrow> ('a \<Rightarrow> 'a \<Rightarrow> bool) \<Rightarrow> 'a option \<Rightarrow> 'a \<Rightarrow> 'a option" where
  "select_step skip better best x =
     (if skip x then best
      else case best of None \<Rightarrow> Some x | Some b \<Rightarrow> if better x b then Some x else best)"

lemma select_step_simps:
  "select_step skip better None x = (if skip x then None else Some x)"
  "select_step skip better (Some b) x =
     (if \<not> skip x \<and> better x b then Some x else Some b)"
  by (simp_all add: select_step_def)

text \<open>The order the loops rely on: strict, and total on elements with different keys that
  satisfy \<open>ok\<close>.\<close>

locale strict_preference =
  fixes better :: "'a \<Rightarrow> 'a \<Rightarrow> bool"
    and key :: "'a \<Rightarrow> 'k"
    and ok :: "'a \<Rightarrow> bool"
  assumes better_irrefl: "\<not> better x x"
    and better_trans: "better x y \<Longrightarrow> better y z \<Longrightarrow> better x z"
    and better_total: "ok x \<Longrightarrow> ok y \<Longrightarrow> key x \<noteq> key y \<Longrightarrow> better x y \<or> better y x"
begin

lemma better_asym: "better x y \<Longrightarrow> \<not> better y x"
  using better_irrefl better_trans by blast

text \<open>What the loop returns, for a list with distinct keys.\<close>

lemma select_invariant:
  assumes "\<forall>x\<in>set xs. ok x" and "distinct (map key xs)"
  shows "case foldl (select_step skip better) None xs of
      None \<Rightarrow> \<forall>x\<in>set xs. skip x
    | Some r \<Rightarrow> r \<in> set xs \<and> \<not> skip r \<and> (\<forall>x\<in>set xs. \<not> skip x \<longrightarrow> x \<noteq> r \<longrightarrow> better r x)"
  using assms
proof (induction xs rule: rev_induct)
  case Nil
  then show ?case by simp
next
  case (snoc x xs)
  let ?b = "foldl (select_step skip better) None xs"
  show ?case
  proof (cases ?b)
    case None
    with snoc show ?thesis by (auto simp: select_step_simps)
  next
    case (Some r)
    with snoc have r: "r \<in> set xs" "\<not> skip r"
      "\<forall>y\<in>set xs. \<not> skip y \<longrightarrow> y \<noteq> r \<longrightarrow> better r y" by auto
    from snoc.prems r(1) have "key x \<noteq> key r" "ok x" "ok r" by auto
    then have "better x r \<or> better r x" by (intro better_total) auto
    moreover have "better x y" if "better x r" "y \<in> set xs" "\<not> skip y" for y
      using that r(3) better_trans by (cases "y = r") auto
    ultimately consider (new) "\<not> skip x" "better x r" "\<forall>y\<in>set xs. \<not> skip y \<longrightarrow> better x y"
      | (old) "skip x \<or> \<not> better x r" "skip x \<or> better r x"
      by blast
    then show ?thesis
    proof cases
      case new
      with Some show ?thesis by (simp add: select_step_simps)
    next
      case old
      then have "foldl (select_step skip better) None (xs @ [x]) = Some r"
        using Some by (auto simp: select_step_simps)
      with r old show ?thesis by auto
    qed
  qed
qed

lemma select_None_iff:
  assumes "\<forall>x\<in>set xs. ok x" and "distinct (map key xs)"
  shows "foldl (select_step skip better) None xs = None \<longleftrightarrow> (\<forall>x\<in>set xs. skip x)"
  using select_invariant [OF assms, of skip] by (auto split: option.splits)

lemma select_Some:
  assumes "\<forall>x\<in>set xs. ok x" and "distinct (map key xs)"
    and "foldl (select_step skip better) None xs = Some r"
  shows "r \<in> set xs" "\<not> skip r" "x \<in> set xs \<Longrightarrow> \<not> skip x \<Longrightarrow> x \<noteq> r \<Longrightarrow> better r x"
  using select_invariant [OF assms(1,2), of skip] assms(3) by auto

lemma select_perm:
  assumes "\<forall>x\<in>set xs. ok x" and "distinct (map key xs)" and "mset ys = mset xs"
  shows "foldl (select_step skip better) None ys = foldl (select_step skip better) None xs"
proof -
  have set: "set ys = set xs" using assms(3) by (metis set_mset_mset)
  have ys: "\<forall>x\<in>set ys. ok x" "distinct (map key ys)"
    using assms set by (metis, metis mset_eq_imp_distinct_iff mset_map)
  show ?thesis
  proof (cases "foldl (select_step skip better) None xs")
    case None
    then show ?thesis
      using select_None_iff [OF assms(1,2), of skip] select_None_iff [OF ys, of skip] set by simp
  next
    case (Some r)
    note r = select_Some [OF assms(1,2) Some]
    then obtain r' where r': "foldl (select_step skip better) None ys = Some r'"
      using select_None_iff [OF ys, of skip] set by fastforce
    note s = select_Some [OF ys r']
    have "r' = r"
    proof (rule ccontr)
      assume ne: "r' \<noteq> r"
      then have "better r r'" using r(3) [of r'] s(1,2) set by simp
      moreover have "better r' r" using s(3) [of r] r(1,2) set ne by simp
      ultimately show False using better_asym by blast
    qed
    with Some r' show ?thesis by simp
  qed
qed

end

definition cheaper :: "VariantCapacityAnalysis \<Rightarrow> VariantCapacityAnalysis \<Rightarrow> bool" where
  "cheaper x y \<longleftrightarrow> va_Cost x < va_Cost y \<or>
     (feq (va_Cost x) (va_Cost y) \<and> va_VariantName x < va_VariantName y)"

definition dearer :: "VariantCapacityAnalysis \<Rightarrow> VariantCapacityAnalysis \<Rightarrow> bool" where
  "dearer x y \<longleftrightarrow> va_Cost y < va_Cost x \<or>
     (feq (va_Cost x) (va_Cost y) \<and> va_VariantName y < va_VariantName x)"

definition cost_ok :: "VariantCapacityAnalysis \<Rightarrow> bool" where
  "cost_ok va \<longleftrightarrow> va_Cost va \<noteq> NaN"

lemma gofloat_less_trans: "x < y \<Longrightarrow> y < z \<Longrightarrow> x < (z :: gofloat)"
  by (cases x; cases y; cases z; simp)

lemma gofloat_trichotomy: "x \<noteq> NaN \<Longrightarrow> y \<noteq> NaN \<Longrightarrow> x < y \<or> feq x y \<or> y < x"
  by (cases x; cases y; auto simp: feq_def)

interpretation cheap: strict_preference cheaper va_VariantName cost_ok
proof unfold_locales
  fix x y z :: VariantCapacityAnalysis
  show "\<not> cheaper x x" by (cases "va_Cost x") (auto simp: cheaper_def)
  show "cheaper x y \<Longrightarrow> cheaper y z \<Longrightarrow> cheaper x z"
    by (auto simp: cheaper_def feq_def intro: gofloat_less_trans less_trans)
  show "cost_ok x \<Longrightarrow> cost_ok y \<Longrightarrow> va_VariantName x \<noteq> va_VariantName y \<Longrightarrow>
      cheaper x y \<or> cheaper y x"
    using gofloat_trichotomy [of "va_Cost x" "va_Cost y"]
    by (auto simp: cheaper_def cost_ok_def feq_def)
qed

interpretation dear: strict_preference dearer va_VariantName cost_ok
proof unfold_locales
  fix x y z :: VariantCapacityAnalysis
  show "\<not> dearer x x" by (cases "va_Cost x") (auto simp: dearer_def)
  show "dearer x y \<Longrightarrow> dearer y z \<Longrightarrow> dearer x z"
    by (auto simp: dearer_def feq_def intro: gofloat_less_trans less_trans)
  show "cost_ok x \<Longrightarrow> cost_ok y \<Longrightarrow> va_VariantName x \<noteq> va_VariantName y \<Longrightarrow>
      dearer x y \<or> dearer y x"
    using gofloat_trichotomy [of "va_Cost x" "va_Cost y"]
    by (auto simp: dearer_def cost_ok_def feq_def)
qed

lemma cheapest_step_select:
  "cheapest_step p = select_step (\<lambda>va. mget0 False p (va_VariantName va)) cheaper"
  by (intro ext) (simp add: cheapest_step_def select_step_def cheaper_def split: option.split)

lemma mostExpensive_step_select:
  "mostExpensive_step p =
     select_step (\<lambda>va. mget0 False p (va_VariantName va) \<or> va_ReplicaCount va \<le> 1) dearer"
  by (intro ext) (simp add: mostExpensive_step_def select_step_def dearer_def split: option.split)

section \<open>The targets in closed form\<close>

lemma preserves_name: "va_VariantName a = va_VariantName b \<Longrightarrow> preserves st a = preserves st b"
  by (simp add: preserves_def)

lemma preserve_loop:
  "mget (fst (foldl (preserve_step st) (t, p) as)) v =
     (if \<exists>a\<in>set as. va_VariantName a = v \<and> preserves st a
      then Some (vs_DesiredReplicas (state_of st v)) else mget t v)"
  "mget0 False (snd (foldl (preserve_step st) (t, p) as)) v \<longleftrightarrow>
     (\<exists>a\<in>set as. va_VariantName a = v \<and> preserves st a) \<or> mget0 False p v"
  by (induction as arbitrary: t p) (auto simp: preserve_step_def)

lemma preserve_loop_wf:
  "wf_map t \<Longrightarrow> wf_map (fst (foldl (preserve_step st) (t, p) as))"
  by (induction as arbitrary: t p) (auto simp: preserve_step_def)

definition scale_up_choice ::
  "VariantReplicaState list \<Rightarrow> VariantCapacityAnalysis list \<Rightarrow> VariantCapacityAnalysis option" where
  "scale_up_choice st as = foldl (select_step (preserves st) cheaper) None as"

definition scale_down_choice ::
  "VariantReplicaState list \<Rightarrow> VariantCapacityAnalysis list \<Rightarrow> VariantCapacityAnalysis option" where
  "scale_down_choice st as =
     foldl (select_step (\<lambda>va. preserves st va \<or> va_ReplicaCount va \<le> 1) dearer) None as"

lemma foldl_select_cong:
  "\<forall>x\<in>set as. skip x = skip' x \<Longrightarrow>
    foldl (select_step skip b) st as = foldl (select_step skip' b) st as"
proof (induction as arbitrary: st)
  case (Cons a as)
  then have "select_step skip b st a = select_step skip' b st a"
    by (cases st) (simp_all add: select_step_simps)
  with Cons show ?case by simp
qed simp

lemma choice_loops:
  assumes p_def: "p = snd (foldl (preserve_step st) (t, []) as)"
  shows "foldl (cheapest_step p) None as = scale_up_choice st as"
    and "foldl (mostExpensive_step p) None as = scale_down_choice st as"
proof -
  have "mget0 False p (va_VariantName a) = preserves st a" if "a \<in> set as" for a
  proof -
    have "(\<exists>b\<in>set as. va_VariantName b = va_VariantName a \<and> preserves st b) = preserves st a"
      using that preserves_name by blast
    then show ?thesis unfolding p_def preserve_loop by simp
  qed
  then have skip: "\<forall>a\<in>set as. mget0 False p (va_VariantName a) = preserves st a"
    "\<forall>a\<in>set as. (mget0 False p (va_VariantName a) \<or> va_ReplicaCount a \<le> 1) =
       (preserves st a \<or> va_ReplicaCount a \<le> 1)"
    by simp_all
  show "foldl (cheapest_step p) None as = scale_up_choice st as"
    unfolding cheapest_step_select scale_up_choice_def by (rule foldl_select_cong) (rule skip)
  show "foldl (mostExpensive_step p) None as = scale_down_choice st as"
    unfolding mostExpensive_step_select scale_down_choice_def
    by (rule foldl_select_cong) (rule skip)
qed

text \<open>The targets before the capacity action: ready replicas, or the preserved count.\<close>

definition base_targets ::
  "VariantReplicaState list \<Rightarrow> VariantCapacityAnalysis list \<Rightarrow> (string, int) gomap" where
  "base_targets st as = fst (foldl (preserve_step st)
     (foldl (\<lambda>m va. mput (va_VariantName va) (va_ReplicaCount va) m) [] as, []) as)"

lemma CalculateCapacityTargets_unfold:
  assumes "ma_VariantAnalyses ca \<noteq> []"
  shows "CalculateCapacityTargets (Some ca) st =
    (let t = base_targets st (ma_VariantAnalyses ca)
     in if ma_ShouldScaleUp ca then
          (case scale_up_choice st (ma_VariantAnalyses ca) of
             Some b \<Rightarrow> mput (va_VariantName b) (va_ReplicaCount b + 1) t | None \<Rightarrow> t)
        else if ma_ScaleDownSafe ca then
          (case scale_down_choice st (ma_VariantAnalyses ca) of
             Some b \<Rightarrow> mput (va_VariantName b) (va_ReplicaCount b - 1) t | None \<Rightarrow> t)
        else t)"
proof -
  let ?as = "ma_VariantAnalyses ca"
  let ?t = "foldl (\<lambda>m va. mput (va_VariantName va) (va_ReplicaCount va) m) [] ?as"
  obtain t p where tp: "foldl (preserve_step st) (?t, []) ?as = (t, p)" by fastforce
  have "foldl (cheapest_step p) None ?as = scale_up_choice st ?as"
    "foldl (mostExpensive_step p) None ?as = scale_down_choice st ?as"
    using choice_loops [of p st ?t ?as] tp by simp_all
  note ch = this
  show ?thesis
    unfolding CalculateCapacityTargets_def base_targets_def option.case Let_def tp prod.case ch
    by (simp only: assms if_False fst_conv)
qed

lemma base_targets_get:
  assumes "distinct (map va_VariantName as)" and "va \<in> set as"
  shows "mget (base_targets st as) (va_VariantName va) = Some (if preserves st va
    then vs_DesiredReplicas (state_of st (va_VariantName va)) else va_ReplicaCount va)"
proof -
  let ?t = "foldl (\<lambda>m va. mput (va_VariantName va) (va_ReplicaCount va) m) [] as"
  have "mget ?t (va_VariantName va) = Some (va_ReplicaCount va)"
    using assms by (intro gm.lookup_foldl_put_distinct) auto
  moreover have "(\<exists>a\<in>set as. va_VariantName a = va_VariantName va \<and> preserves st a) = preserves st va"
    using assms(2) preserves_name by blast
  ultimately show ?thesis unfolding base_targets_def preserve_loop by simp
qed

lemma base_targets_None:
  "v \<notin> va_VariantName ` set as \<Longrightarrow> mget (base_targets st as) v = None"
  unfolding base_targets_def preserve_loop by (subst gm.lookup_foldl_put_None) auto

text \<open>The target of one analysed variant.\<close>

definition target_spec ::
  "'time ModelCapacityAnalysis \<Rightarrow> VariantReplicaState list \<Rightarrow> VariantCapacityAnalysis \<Rightarrow> int" where
  "target_spec ca st va =
     (if preserves st va then vs_DesiredReplicas (state_of st (va_VariantName va))
      else if ma_ShouldScaleUp ca then
        (if scale_up_choice st (ma_VariantAnalyses ca) = Some va
         then va_ReplicaCount va + 1 else va_ReplicaCount va)
      else if ma_ScaleDownSafe ca then
        (if scale_down_choice st (ma_VariantAnalyses ca) = Some va
         then va_ReplicaCount va - 1 else va_ReplicaCount va)
      else va_ReplicaCount va)"

definition analysis_ok :: "'time ModelCapacityAnalysis \<Rightarrow> bool" where
  "analysis_ok ca \<longleftrightarrow> ma_VariantAnalyses ca \<noteq> [] \<and>
     distinct (map va_VariantName (ma_VariantAnalyses ca)) \<and>
     (\<forall>va\<in>set (ma_VariantAnalyses ca). cost_ok va)"

lemma scale_up_choiceD:
  assumes "analysis_ok ca" and "scale_up_choice st (ma_VariantAnalyses ca) = Some r"
  shows "r \<in> set (ma_VariantAnalyses ca)" "\<not> preserves st r"
    "va \<in> set (ma_VariantAnalyses ca) \<Longrightarrow> \<not> preserves st va \<Longrightarrow> va \<noteq> r \<Longrightarrow> cheaper r va"
  using assms cheap.select_Some [of "ma_VariantAnalyses ca" "preserves st" r]
  by (auto simp: scale_up_choice_def analysis_ok_def)

lemma scale_down_choiceD:
  assumes "analysis_ok ca" and "scale_down_choice st (ma_VariantAnalyses ca) = Some r"
  shows "r \<in> set (ma_VariantAnalyses ca)" "\<not> preserves st r" "1 < va_ReplicaCount r"
    "va \<in> set (ma_VariantAnalyses ca) \<Longrightarrow> \<not> preserves st va \<Longrightarrow> 1 < va_ReplicaCount va \<Longrightarrow>
      va \<noteq> r \<Longrightarrow> dearer r va"
  using assms dear.select_Some [of "ma_VariantAnalyses ca"
      "\<lambda>va. preserves st va \<or> va_ReplicaCount va \<le> 1" r]
  by (force simp: scale_down_choice_def analysis_ok_def)+

lemma target_spec_get:
  assumes ok: "analysis_ok ca" and va: "va \<in> set (ma_VariantAnalyses ca)"
  shows "mget (CalculateCapacityTargets (Some ca) st) (va_VariantName va) =
    Some (target_spec ca st va)"
proof -
  let ?as = "ma_VariantAnalyses ca"
  have d: "?as \<noteq> []" "distinct (map va_VariantName ?as)" using ok by (auto simp: analysis_ok_def)
  have inj: "va_VariantName va = va_VariantName b \<longleftrightarrow> b = va" if "b \<in> set ?as" for b
    using that va d(2) by (auto simp: distinct_map inj_on_def)
  have up: "va_VariantName va = va_VariantName b \<longleftrightarrow> b = va" "\<not> preserves st b"
    if "scale_up_choice st ?as = Some b" for b
    using inj scale_up_choiceD(1,2) [OF ok that] by blast+
  have down: "va_VariantName va = va_VariantName b \<longleftrightarrow> b = va" "\<not> preserves st b"
    if "scale_down_choice st ?as = Some b" for b
    using inj scale_down_choiceD(1,2) [OF ok that] by blast+
  note base = base_targets_get [OF d(2) va, of st]
  show ?thesis
  proof (cases "ma_ShouldScaleUp ca")
    case True
    then show ?thesis using up base
      by (cases "scale_up_choice st ?as")
        (auto simp: CalculateCapacityTargets_unfold [OF d(1)] target_spec_def)
  next
    case False
    then show ?thesis using down base
      by (cases "scale_down_choice st ?as")
        (auto simp: CalculateCapacityTargets_unfold [OF d(1)] target_spec_def)
  qed
qed

lemma targets_keys:
  assumes ok: "analysis_ok ca" and v: "v \<notin> va_VariantName ` set (ma_VariantAnalyses ca)"
  shows "mget (CalculateCapacityTargets (Some ca) st) v = None"
proof -
  have d: "ma_VariantAnalyses ca \<noteq> []" using ok by (auto simp: analysis_ok_def)
  show ?thesis
    using v scale_up_choiceD(1) [OF ok, of st] scale_down_choiceD(1) [OF ok, of st]
    by (auto simp: CalculateCapacityTargets_unfold [OF d] Let_def base_targets_None
        split: option.splits)
qed

section \<open>Decisions\<close>

text \<open>What every producer of decisions promises: the action says how the target compares with
  the current replicas.\<close>

locale decision_maker =
  fixes decide :: "'i \<Rightarrow> VariantDecision"
  assumes action_consistent:
    "vd_Action (decide i) = action_for (vd_TargetReplicas (decide i)) (vd_CurrentReplicas (decide i))"
begin

lemma scale_up_iff:
  "vd_Action (decide i) = ActionScaleUp \<longleftrightarrow>
     vd_CurrentReplicas (decide i) < vd_TargetReplicas (decide i)"
  by (simp add: action_consistent action_for_def)

lemma scale_down_iff:
  "vd_Action (decide i) = ActionScaleDown \<longleftrightarrow>
     vd_TargetReplicas (decide i) < vd_CurrentReplicas (decide i)"
  by (simp add: action_consistent action_for_def)

lemma no_change_iff:
  "vd_Action (decide i) = ActionNoChange \<longleftrightarrow>
     vd_TargetReplicas (decide i) = vd_CurrentReplicas (decide i)"
  by (auto simp: action_consistent action_for_def)

end

lemma action_for_cases [simp]:
  "action_for t c = ActionScaleUp \<longleftrightarrow> c < t"
  "action_for t c = ActionScaleDown \<longleftrightarrow> t < c"
  "action_for t c = ActionNoChange \<longleftrightarrow> t = c"
  by (auto simp: action_for_def)

lemma arbitrateVariant_current [simp]:
  "vd_CurrentReplicas (arbitrateVariant ma va s ct mt) = vs_CurrentReplicas s"
  by (simp add: arbitrateVariant_def Let_def init_VariantDecision_def)

lemma arbitrateVariant_action:
  "vd_Action (arbitrateVariant ma va s ct mt) =
     action_for (vd_TargetReplicas (arbitrateVariant ma va s ct mt)) (vs_CurrentReplicas s)"
  unfolding arbitrateVariant_def Let_def by (simp split: if_split) (simp add: action_for_def)

lemma arbitrateVariant_target:
  "vd_TargetReplicas (arbitrateVariant ma va s ct mt) =
     (let cur = vs_CurrentReplicas s;
          unsafe = (case ma of None \<Rightarrow> False | Some m \<Rightarrow> \<not> ma_ScaleDownSafe m)
      in if mt < cur \<and> (cur < ct \<or> unsafe) then cur
         else if cur < ct \<and> mt = cur then ct else mt)"
  by (auto simp: arbitrateVariant_def Let_def init_VariantDecision_def action_for_def)

lemma arbitrateVariant_override:
  "vd_SafetyOverride (arbitrateVariant ma va s ct mt) \<longleftrightarrow>
     mt < vs_CurrentReplicas s \<and> (vs_CurrentReplicas s < ct \<or>
       (case ma of None \<Rightarrow> False | Some m \<Rightarrow> \<not> ma_ScaleDownSafe m))"
  by (auto simp: arbitrateVariant_def Let_def init_VariantDecision_def action_for_def)

interpretation arb: decision_maker "\<lambda>(ma, va, s, ct, mt). arbitrateVariant ma va s ct mt"
  by unfold_locales (auto simp: arbitrateVariant_action)

section \<open>Properties of the targets\<close>

text \<open>An analysis made by \<^verbatim>\<open>AnalyzeModelCapacity\<close> from replicas whose cost is not NaN meets
  the conditions of the lemmas above, and every variant in it has a replica.\<close>

lemma AnalyzeModelCapacity_ok:
  assumes "ms \<noteq> []" and "\<forall>m\<in>set ms. rm_Cost m \<noteq> NaN"
  shows "analysis_ok (AnalyzeModelCapacity now modelID ns ms c)"
    and "va \<in> set (ma_VariantAnalyses (AnalyzeModelCapacity now modelID ns ms c)) \<Longrightarrow>
      1 \<le> va_ReplicaCount va"
proof -
  have vas: "ma_VariantAnalyses (AnalyzeModelCapacity now modelID ns ms c) =
      map (\<lambda>(v, g). analyzeVariant v g c) (variantMap ms)"
    using assms(1) by (rule AnalyzeModelCapacity_analyses)
  have "variantMap ms \<noteq> []"
    using variantMap_keys [of ms] assms(1) by fastforce
  moreover have nm: "map va_VariantName (map (\<lambda>(v, g). analyzeVariant v g c) (variantMap ms)) =
      map fst (variantMap ms)"
    by (simp add: analyzeVariant_fields case_prod_beta)
  moreover have "cost_ok (analyzeVariant v g c)" if grp: "(v, g) \<in> set (variantMap ms)" for v g
  proof -
    obtain m g' where g: "g = m # g'" using variantMap_group(2) [OF grp] by (cases g) auto
    then have "m \<in> set ms"
      using variantMap_group(1) [OF grp] by (metis filter_is_subset list.set_intros(1) subsetD)
    with g assms(2) show ?thesis by (simp add: cost_ok_def analyzeVariant_fields)
  qed
  ultimately show "analysis_ok (AnalyzeModelCapacity now modelID ns ms c)"
    using variantMap_wf [of ms] unfolding analysis_ok_def vas nm wf_map_def by auto
  show "1 \<le> va_ReplicaCount va"
    if "va \<in> set (ma_VariantAnalyses (AnalyzeModelCapacity now modelID ns ms c))"
    using that variantMap_group(2) unfolding vas
    by (fastforce simp: analyzeVariant_fields Suc_le_eq)
qed

lemma AnalyzeModelCapacity_names:
  "ms \<noteq> [] \<Longrightarrow> va_VariantName ` set (ma_VariantAnalyses (AnalyzeModelCapacity now modelID ns ms c)) =
    rm_VariantName ` set ms"
  by (simp add: AnalyzeModelCapacity_analyses image_image case_prod_beta analyzeVariant_fields
      flip: variantMap_keys)

text \<open>The variant that a scale-up takes: the cheapest of those without a preserved count, equal
  costs decided by name; and the one a scale-down takes: the most expensive of those without a
  preserved count and with more than one replica.\<close>

definition cheapest_candidate ::
  "VariantReplicaState list \<Rightarrow> VariantCapacityAnalysis list \<Rightarrow> VariantCapacityAnalysis \<Rightarrow> bool" where
  "cheapest_candidate st as va \<longleftrightarrow> va \<in> set as \<and> \<not> preserves st va \<and>
     (\<forall>x\<in>set as. \<not> preserves st x \<longrightarrow> x = va \<or> cheaper va x)"

definition dearest_candidate ::
  "VariantReplicaState list \<Rightarrow> VariantCapacityAnalysis list \<Rightarrow> VariantCapacityAnalysis \<Rightarrow> bool" where
  "dearest_candidate st as va \<longleftrightarrow> va \<in> set as \<and> \<not> preserves st va \<and> 1 < va_ReplicaCount va \<and>
     (\<forall>x\<in>set as. \<not> preserves st x \<longrightarrow> 1 < va_ReplicaCount x \<longrightarrow> x = va \<or> dearer va x)"

lemma scale_up_choice_iff:
  assumes ok: "analysis_ok ca"
  shows "scale_up_choice st (ma_VariantAnalyses ca) = Some va \<longleftrightarrow>
    cheapest_candidate st (ma_VariantAnalyses ca) va"
proof
  assume "scale_up_choice st (ma_VariantAnalyses ca) = Some va"
  then show "cheapest_candidate st (ma_VariantAnalyses ca) va"
    using scale_up_choiceD [OF ok] unfolding cheapest_candidate_def by blast
next
  let ?as = "ma_VariantAnalyses ca"
  assume c: "cheapest_candidate st ?as va"
  have d: "\<forall>x\<in>set ?as. cost_ok x" "distinct (map va_VariantName ?as)"
    using ok by (auto simp: analysis_ok_def)
  obtain r where r: "scale_up_choice st ?as = Some r"
    using cheap.select_None_iff [OF d, of "preserves st"] c
    by (auto simp: cheapest_candidate_def scale_up_choice_def)
  note R = scale_up_choiceD [OF ok r]
  have "r = va"
  proof (rule ccontr)
    assume "r \<noteq> va"
    then have "cheaper r va" "cheaper va r" using c R unfolding cheapest_candidate_def by auto
    then show False using cheap.better_asym by blast
  qed
  with r show "scale_up_choice st ?as = Some va" by simp
qed

lemma scale_down_choice_iff:
  assumes ok: "analysis_ok ca"
  shows "scale_down_choice st (ma_VariantAnalyses ca) = Some va \<longleftrightarrow>
    dearest_candidate st (ma_VariantAnalyses ca) va"
proof
  assume "scale_down_choice st (ma_VariantAnalyses ca) = Some va"
  then show "dearest_candidate st (ma_VariantAnalyses ca) va"
    using scale_down_choiceD [OF ok] unfolding dearest_candidate_def by blast
next
  let ?as = "ma_VariantAnalyses ca"
  assume c: "dearest_candidate st ?as va"
  have d: "\<forall>x\<in>set ?as. cost_ok x" "distinct (map va_VariantName ?as)"
    using ok by (auto simp: analysis_ok_def)
  obtain r where r: "scale_down_choice st ?as = Some r"
    using dear.select_None_iff [OF d, of "\<lambda>va. preserves st va \<or> va_ReplicaCount va \<le> 1"] c
    by (auto simp: dearest_candidate_def scale_down_choice_def)
  note R = scale_down_choiceD [OF ok r]
  have "r = va"
  proof (rule ccontr)
    assume "r \<noteq> va"
    then have "dearer r va" "dearer va r" using c R unfolding dearest_candidate_def by auto
    then show False using dear.better_asym by blast
  qed
  with r show "scale_down_choice st ?as = Some va" by simp
qed

lemma candidates_perm:
  "set as = set bs \<Longrightarrow> cheapest_candidate st as = cheapest_candidate st bs"
  "set as = set bs \<Longrightarrow> dearest_candidate st as = dearest_candidate st bs"
  by (simp_all add: cheapest_candidate_def dearest_candidate_def fun_eq_iff)

lemma target_spec_candidates:
  assumes "analysis_ok ca" and "va \<in> set (ma_VariantAnalyses ca)"
  shows "target_spec ca st va =
    (if preserves st va then vs_DesiredReplicas (state_of st (va_VariantName va))
     else if ma_ShouldScaleUp ca \<and> cheapest_candidate st (ma_VariantAnalyses ca) va
       then va_ReplicaCount va + 1
     else if \<not> ma_ShouldScaleUp ca \<and> ma_ScaleDownSafe ca \<and>
          dearest_candidate st (ma_VariantAnalyses ca) va
       then va_ReplicaCount va - 1
     else va_ReplicaCount va)"
  by (simp add: target_spec_def scale_up_choice_iff [OF assms(1)] scale_down_choice_iff [OF assms(1)])

text \<open>C6: the capacity targets, variant by variant. A variant whose earlier desired count is not
  yet reached keeps that count; otherwise its target is its number of ready replicas, plus one
  if the model must scale up and the variant is the cheapest candidate, minus one if no scale-up
  is needed, scale-down is safe and the variant is the most expensive candidate with more than
  one replica. No other variant gets a target.\<close>

theorem capacity_targets_exact:
  assumes "ms \<noteq> []" and "\<forall>m\<in>set ms. rm_Cost m \<noteq> NaN"
  shows "let ca = AnalyzeModelCapacity now modelID ns ms c; as = ma_VariantAnalyses ca;
             ts = CalculateCapacityTargets (Some ca) states
         in (\<forall>v. v \<notin> va_VariantName ` set as \<longrightarrow> mget ts v = None) \<and>
            (\<forall>va\<in>set as. mget ts (va_VariantName va) = Some (
               if preserves states va then vs_DesiredReplicas (state_of states (va_VariantName va))
               else if ma_ShouldScaleUp ca \<and> cheapest_candidate states as va
                 then va_ReplicaCount va + 1
               else if \<not> ma_ShouldScaleUp ca \<and> ma_ScaleDownSafe ca \<and> dearest_candidate states as va
                 then va_ReplicaCount va - 1
               else va_ReplicaCount va))"
proof -
  note ok = AnalyzeModelCapacity_ok(1) [OF assms, of now modelID ns c]
  show ?thesis
    unfolding Let_def
    using targets_keys [OF ok] target_spec_get [OF ok] target_spec_candidates [OF ok] by simp
qed

text \<open>Two variants, the cheaper one with a replica, the other with two, all lightly loaded.\<close>

definition sample_fleet :: "ReplicaMetrics list" where
  "sample_fleet = [sample ''a'' (Fin (1/5)) 1 (Fin 10), sample ''b'' (Fin (1/5)) 1 (Fin 20),
     sample ''b'' (Fin (1/5)) 1 (Fin 20)]"

lemma sample_fleet_ok: "sample_fleet \<noteq> []" "\<forall>m\<in>set sample_fleet. rm_Cost m \<noteq> NaN"
  by (simp_all add: sample_fleet_def sample_def)

theorem capacity_targets_exact_witness:
  "mget (CalculateCapacityTargets (Some (AnalyzeModelCapacity () ''llama'' ''ns'' sample_fleet
     DefaultCapacityScalingConfig)) []) ''c'' = None"
proof -
  have "rm_VariantName ` set sample_fleet = {''a'', ''b''}"
    by (auto simp: sample_fleet_def sample_def)
  then have "''c'' \<notin> va_VariantName ` set (ma_VariantAnalyses
      (AnalyzeModelCapacity () ''llama'' ''ns'' sample_fleet DefaultCapacityScalingConfig))"
    by (simp add: AnalyzeModelCapacity_names [OF sample_fleet_ok(1)])
  then show ?thesis
    using capacity_targets_exact [OF sample_fleet_ok, of "()" "''llama''" "''ns''"
        DefaultCapacityScalingConfig "[]"]
    unfolding Let_def by blast
qed

text \<open>C24: the targets do not depend on the iteration order of the variant map. Two analyses with
  the same recommendation and the same variant analyses in any two orders give the same target
  to every variant, because costs are compared strictly and ties are decided by name.\<close>

theorem targets_order_independent:
  assumes "analysis_ok ca" and "mset (ma_VariantAnalyses ca') = mset (ma_VariantAnalyses ca)"
    and "ma_ShouldScaleUp ca' = ma_ShouldScaleUp ca"
    and "ma_ScaleDownSafe ca' = ma_ScaleDownSafe ca"
  shows "mget (CalculateCapacityTargets (Some ca') states) v =
    mget (CalculateCapacityTargets (Some ca) states) v"
proof -
  have set: "set (ma_VariantAnalyses ca') = set (ma_VariantAnalyses ca)"
    using assms(2) by (metis set_mset_mset)
  have "mset (map va_VariantName (ma_VariantAnalyses ca')) =
      mset (map va_VariantName (ma_VariantAnalyses ca))" using assms(2) by simp
  then have "distinct (map va_VariantName (ma_VariantAnalyses ca')) =
      distinct (map va_VariantName (ma_VariantAnalyses ca))" by (rule mset_eq_imp_distinct_iff)
  then have ok': "analysis_ok ca'"
    using assms(1) set by (auto simp: analysis_ok_def)
  show ?thesis
  proof (cases "v \<in> va_VariantName ` set (ma_VariantAnalyses ca)")
    case True
    then obtain va where va: "va \<in> set (ma_VariantAnalyses ca)" "v = va_VariantName va" by auto
    with set have va': "va \<in> set (ma_VariantAnalyses ca')" by simp
    show ?thesis
      unfolding va(2) target_spec_get [OF assms(1) va(1)] target_spec_get [OF ok' va']
        target_spec_candidates [OF assms(1) va(1)] target_spec_candidates [OF ok' va']
        assms(3,4) candidates_perm [OF set] ..
  next
    case False
    with set show ?thesis by (simp add: targets_keys [OF assms(1)] targets_keys [OF ok'])
  qed
qed

definition sample_analysis :: "VariantCapacityAnalysis list \<Rightarrow> unit ModelCapacityAnalysis" where
  "sample_analysis as =
     \<lparr>ma_ModelID = ''llama'', ma_Namespace = ''ns'', ma_AnalyzedAt = (), ma_TotalReplicas = 3,
      ma_NonSaturatedCount = 3, ma_AvgSpareKvCapacity = Fin (3/5), ma_AvgSpareQueueLength = Fin 4,
      ma_ShouldScaleUp = False, ma_ShouldScaleDown = False, ma_ScaleUpReason = sprintf '''' [],
      ma_ScaleDownSafe = True, ma_VariantAnalyses = as\<rparr>"

theorem targets_order_independent_witness:
  "mget (CalculateCapacityTargets (Some (sample_analysis
       [analyzeVariant ''b'' [] DefaultCapacityScalingConfig,
        analyzeVariant ''a'' [] DefaultCapacityScalingConfig])) []) ''a'' =
   mget (CalculateCapacityTargets (Some (sample_analysis
       [analyzeVariant ''a'' [] DefaultCapacityScalingConfig,
        analyzeVariant ''b'' [] DefaultCapacityScalingConfig])) []) ''a''"
  by (rule targets_order_independent)
    (simp_all add: sample_analysis_def analysis_ok_def cost_ok_def analyzeVariant_fields)



section \<open>Properties of the arbitration\<close>

text \<open>C5: the arbitration never scales down against the capacity analysis. A decision lowers the
  replicas only if the model-based optimizer asked for exactly that count, the capacity target
  does not ask for more than the current replicas and the capacity analysis, if there is one,
  declared scale-down safe; every other request to scale down is turned into no change and
  marked as a safety override.\<close>

theorem arbitration_scale_down_safe:
  "let d = arbitrateVariant ma va s ct mt; cur = vs_CurrentReplicas s;
       allowed = (ct \<le> cur \<and> (case ma of None \<Rightarrow> True | Some m \<Rightarrow> ma_ScaleDownSafe m))
   in (vd_TargetReplicas d < cur \<longleftrightarrow> mt < cur \<and> allowed) \<and>
      (vd_TargetReplicas d < cur \<longrightarrow> vd_TargetReplicas d = mt) \<and>
      (vd_SafetyOverride d \<longleftrightarrow> mt < cur \<and> \<not> allowed) \<and>
      (vd_SafetyOverride d \<longrightarrow> vd_TargetReplicas d = cur \<and> vd_Action d = ActionNoChange)"
  by (auto simp: Let_def arbitrateVariant_target arbitrateVariant_override arbitrateVariant_action
      split: option.splits)

theorem arbitration_scale_down_safe_witness:
  "vd_TargetReplicas (arbitrateVariant (Some (sample_analysis []))
     None \<lparr>vs_VariantName = ''a'', vs_CurrentReplicas = 3, vs_DesiredReplicas = 3\<rparr> 3 2) = 2"
  using arbitration_scale_down_safe [of "Some (sample_analysis [])" None
      "\<lparr>vs_VariantName = ''a'', vs_CurrentReplicas = 3, vs_DesiredReplicas = 3\<rparr>" 3 2]
  by (simp add: Let_def sample_analysis_def)

text \<open>C26: a capacity shortage is never ignored. When the capacity target is above the current
  replicas, the decision does not go below the current replicas, follows the capacity target
  when the optimizer sees no need to change, and follows the optimizer when it scales up too; and
  one decision is made for each variant, in order, whose action always says how its target
  compares with its current replicas.\<close>

theorem arbitration_follows_capacity:
  assumes "s \<in> set states"
    and "vs_CurrentReplicas s < mget0 0 capacityTargets (vs_VariantName s)"
  shows "let ds = ArbitrateWithModelBased ca capacityTargets modelTargets states;
             mt = mget0 0 modelTargets (vs_VariantName s); cur = vs_CurrentReplicas s
         in map vd_VariantName ds = map vs_VariantName states \<and>
            (\<forall>d\<in>set ds. vd_Action d = action_for (vd_TargetReplicas d) (vd_CurrentReplicas d)) \<and>
            (\<exists>d\<in>set ds. vd_VariantName d = vs_VariantName s \<and> vd_CurrentReplicas d = cur \<and>
               vd_TargetReplicas d = (if mt < cur then cur
                 else if mt = cur then mget0 0 capacityTargets (vs_VariantName s) else mt))"
proof -
  have name: "vd_VariantName (arbitrateVariant ma va s ct mt) = vs_VariantName s"
    for ma :: "'a ModelCapacityAnalysis option" and va s ct mt
    by (simp add: arbitrateVariant_def Let_def init_VariantDecision_def)
  let ?d = "arbitrateVariant ca (mget (variantAnalysisMap ca) (vs_VariantName s)) s
      (mget0 0 capacityTargets (vs_VariantName s)) (mget0 0 modelTargets (vs_VariantName s))"
  have "?d \<in> set (ArbitrateWithModelBased ca capacityTargets modelTargets states)"
    using assms(1) by (auto simp: ArbitrateWithModelBased_def)
  moreover have "vd_TargetReplicas ?d = (if mget0 0 modelTargets (vs_VariantName s) < vs_CurrentReplicas s
      then vs_CurrentReplicas s
      else if mget0 0 modelTargets (vs_VariantName s) = vs_CurrentReplicas s
      then mget0 0 capacityTargets (vs_VariantName s) else mget0 0 modelTargets (vs_VariantName s))"
    using assms(2) by (simp add: arbitrateVariant_target Let_def)
  ultimately show ?thesis
    unfolding Let_def
    by (intro conjI bexI [of _ ?d])
      (simp_all add: ArbitrateWithModelBased_def comp_def name arbitrateVariant_action)
qed

theorem arbitration_follows_capacity_witness:
  "map vd_VariantName (ArbitrateWithModelBased (None :: unit ModelCapacityAnalysis option)
     [(''a'', 4)] [(''a'', 3)]
     [\<lparr>vs_VariantName = ''a'', vs_CurrentReplicas = 3, vs_DesiredReplicas = 3\<rparr>]) = [''a'']"
  using arbitration_follows_capacity
    [of "\<lparr>vs_VariantName = ''a'', vs_CurrentReplicas = 3, vs_DesiredReplicas = 3\<rparr>"
      "[\<lparr>vs_VariantName = ''a'', vs_CurrentReplicas = 3, vs_DesiredReplicas = 3\<rparr>]" "[(''a'', 4)]"
      "None :: unit ModelCapacityAnalysis option" "[(''a'', 3)]"]
  by (simp add: Let_def mget0_def)

end
