(* ===== verification/Inferno_Config.thy ===== *)
theory Inferno_Config
  imports Go_Prelude
begin

text \<open>
  The specifications the optimizer reads and the data it returns (\<^verbatim>\<open>pkg/config\<close>): accelerators,
  models, service classes, servers, capacity and the optimizer's own options, with the parameters
  of \<^verbatim>\<open>defaults.go\<close> and the saturation policies of \<^verbatim>\<open>config.go\<close>. A wrapper struct around one slice is
  that list.
\<close>

section \<open>Parameters\<close>

definition MaxQueueToBatchRatio :: int where "MaxQueueToBatchRatio = 10"

definition AccelPenaltyFactor :: gofloat where "AccelPenaltyFactor = Fin (1 / 10)"

definition DefaultServiceClassName :: string where "DefaultServiceClassName = ''Free''"

definition DefaultLowPriority :: int where "DefaultLowPriority = 100"

definition DefaultHighPriority :: int where "DefaultHighPriority = 1"

definition DefaultServiceClassPriority :: int where
  "DefaultServiceClassPriority = DefaultLowPriority"

section \<open>Saturation policies\<close>

text \<open>An integer type with four named values; \<open>OtherPolicy\<close> stands for the remaining integers.\<close>

datatype SaturatedAllocationPolicy =
  NonePolicy | PriorityExhaustive | PriorityRoundRobin | RoundRobin | OtherPolicy int

definition DefaultSaturatedAllocationPolicy :: SaturatedAllocationPolicy where
  "DefaultSaturatedAllocationPolicy = NonePolicy"

fun Policy_String :: "SaturatedAllocationPolicy \<Rightarrow> string" where
  "Policy_String NonePolicy = ''None''"
| "Policy_String PriorityExhaustive = ''PriorityExhaustive''"
| "Policy_String PriorityRoundRobin = ''PriorityRoundRobin''"
| "Policy_String RoundRobin = ''RoundRobin''"
| "Policy_String (OtherPolicy _) = ''Unknown''"

definition SaturatedAllocationPolicyEnum :: "string \<Rightarrow> SaturatedAllocationPolicy" where
  "SaturatedAllocationPolicyEnum s =
     (if s = ''None'' then NonePolicy
      else if s = ''PriorityExhaustive'' then PriorityExhaustive
      else if s = ''PriorityRoundRobin'' then PriorityRoundRobin
      else if s = ''RoundRobin'' then RoundRobin
      else DefaultSaturatedAllocationPolicy)"

section \<open>Specifications\<close>

record PowerSpec =
  pw_Idle :: int
  pw_Full :: int
  pw_MidPower :: int
  pw_MidUtil :: gofloat

record AcceleratorSpec =
  as_Name :: string
  as_Type :: string
  as_Multiplicity :: int
  as_MemSize :: int
  as_MemBW :: int
  as_Power :: PowerSpec
  as_Cost :: gofloat

record AcceleratorCount =
  ac_Type :: string
  ac_Count :: int

record Config_DecodeParms =
  cd_Alpha :: gofloat
  cd_Beta :: gofloat

record Config_PrefillParms =
  cp_Gamma :: gofloat
  cp_Delta :: gofloat

record ModelAcceleratorPerfData =
  pd_Name :: string
  pd_Acc :: string
  pd_AccCount :: int
  pd_MaxBatchSize :: int
  pd_AtTokens :: int
  pd_DecodeParms :: Config_DecodeParms
  pd_PrefillParms :: Config_PrefillParms

record ModelTarget =
  mt_Model :: string
  mt_SLO_ITL :: gofloat
  mt_SLO_TTFT :: gofloat
  mt_SLO_TPS :: gofloat

record ServiceClassSpec =
  sc_Name :: string
  sc_Priority :: int
  sc_ModelTargets :: "ModelTarget list"

record ServerLoadSpec =
  ld_ArrivalRate :: gofloat
  ld_AvgInTokens :: int
  ld_AvgOutTokens :: int

record AllocationData =
  ad_Accelerator :: string
  ad_NumReplicas :: int
  ad_MaxBatch :: int
  ad_Cost :: gofloat
  ad_ITLAverage :: gofloat
  ad_TTFTAverage :: gofloat
  ad_Load :: ServerLoadSpec

definition zero_ServerLoadSpec :: ServerLoadSpec where
  "zero_ServerLoadSpec = \<lparr>ld_ArrivalRate = Fin 0, ld_AvgInTokens = 0, ld_AvgOutTokens = 0\<rparr>"

definition zero_AllocationData :: AllocationData where
  "zero_AllocationData = \<lparr>ad_Accelerator = '''', ad_NumReplicas = 0, ad_MaxBatch = 0, ad_Cost = Fin 0,
     ad_ITLAverage = Fin 0, ad_TTFTAverage = Fin 0, ad_Load = zero_ServerLoadSpec\<rparr>"

record ServerSpec =
  ss_Name :: string
  ss_Class :: string
  ss_Model :: string
  ss_KeepAccelerator :: bool
  ss_MinNumReplicas :: int
  ss_MaxBatchSize :: int
  ss_CurrentAlloc :: AllocationData
  ss_DesiredAlloc :: AllocationData

record OptimizerSpec =
  os_Unlimited :: bool
  os_DelayedBestEffort :: bool
  os_SaturationPolicy :: string

record SystemSpec =
  sy_Accelerators :: "AcceleratorSpec list"
  sy_Models :: "ModelAcceleratorPerfData list"
  sy_ServiceClasses :: "ServiceClassSpec list"
  sy_Servers :: "ServerSpec list"
  sy_Optimizer :: OptimizerSpec
  sy_Capacity :: "AcceleratorCount list"

type_synonym AllocationSolution = "(string, AllocationData) gomap"

section \<open>Properties\<close>

text \<open>The names of the four policies round-trip, and every other text means no allocation
  beyond the service levels.\<close>

lemma policy_round_trip:
  "SaturatedAllocationPolicyEnum (Policy_String p) =
     (case p of OtherPolicy _ \<Rightarrow> NonePolicy | _ \<Rightarrow> p) \<and>
   (SaturatedAllocationPolicyEnum s \<noteq> NonePolicy \<longleftrightarrow>
     s \<in> Policy_String ` {PriorityExhaustive, PriorityRoundRobin, RoundRobin})"
  by (cases p) (auto simp: SaturatedAllocationPolicyEnum_def DefaultSaturatedAllocationPolicy_def)

end
