(* ===== verification/Queue_Model.thy ===== *)
theory Queue_Model
  imports Go_Prelude
begin

text \<open>
  The queueing models of \<^verbatim>\<open>pkg/analyzer\<close>: the abstract \<^verbatim>\<open>QueueModel\<close>, the M/M/1/K model that
  extends it and the model with state-dependent service rates that extends both
  (\<^verbatim>\<open>queuemodel.go\<close>, \<^verbatim>\<open>mm1kmodel.go\<close>, \<^verbatim>\<open>mm1modelstatedependent.go\<close>). Struct embedding is
  record extension, and the three function fields through which the base struct calls the
  derived one are arguments of \<open>QueueModel_Solve\<close>.

  An \<open>option\<close> result that is \<open>None\<close> is a call that does not return: the rescaling loop of
  \<^verbatim>\<open>computeProbabilities\<close> runs for ever for some rates, and indexing an empty slice panics.
  Probabilities are exact reals with the overflow of \<^verbatim>\<open>float64\<close> (\<open>f64\<close>), so the rescaling that
  guards against it is live; underflow and rounding are not modelled.
\<close>

section \<open>Definitions\<close>

record QueueModel =
  q_lambda :: gofloat
  q_mu :: gofloat
  q_rho :: gofloat
  q_avgRespTime :: gofloat
  q_avgWaitTime :: gofloat
  q_avgServTime :: gofloat
  q_avgNumInSystem :: gofloat
  q_avgQueueLength :: gofloat
  q_isValid :: bool

definition QueueModel_Solve ::
  "(('a QueueModel_scheme) \<Rightarrow> gofloat) \<Rightarrow> ('a QueueModel_scheme \<Rightarrow> gofloat) \<Rightarrow>
   ('a QueueModel_scheme \<Rightarrow> 'a QueueModel_scheme option) \<Rightarrow>
   'a QueueModel_scheme \<Rightarrow> gofloat \<Rightarrow> gofloat \<Rightarrow> 'a QueueModel_scheme option" where
  "QueueModel_Solve ComputeRho GetRhoMax computeStatistics m lambda mu =
     (let m = m\<lparr>q_lambda := lambda, q_mu := mu\<rparr>;
          m = m\<lparr>q_rho := ComputeRho m\<rparr>
      in if q_rho m < Fin 0 \<or> GetRhoMax m \<le> q_rho m \<or> lambda < Fin 0 \<or> mu \<le> Fin 0
         then Some (m\<lparr>q_isValid := False\<rparr>)
         else computeStatistics (m\<lparr>q_isValid := True\<rparr>))"

subsection \<open>M/M/1/K\<close>

record MM1KModel = QueueModel +
  q_K :: nat
  q_p :: "gofloat list"
  q_sumP :: gofloat
  q_throughput :: gofloat

text \<open>\<^verbatim>\<open>make\<close> panics for a negative length, and every caller passes a positive limit: \<open>K\<close> is a
  natural number.\<close>

definition NewMM1KModel :: "nat \<Rightarrow> MM1KModel" where
  "NewMM1KModel K =
     \<lparr>q_lambda = Fin 0, q_mu = Fin 0, q_rho = Fin 0, q_avgRespTime = Fin 0, q_avgWaitTime = Fin 0,
      q_avgServTime = Fin 0, q_avgNumInSystem = Fin 0, q_avgQueueLength = Fin 0,
      q_isValid = False, q_K = K, q_p = replicate (K + 1) (Fin 0), q_sumP = Fin 0,
      q_throughput = Fin 0\<rparr>"

definition MM1K_ComputeRho :: "'a MM1KModel_scheme \<Rightarrow> gofloat" where
  "MM1K_ComputeRho m = (if feq (q_lambda m) (q_mu m) then Fin 1 else q_lambda m / q_mu m)"

definition GetRhoMax :: "'a MM1KModel_scheme \<Rightarrow> gofloat" where
  "GetRhoMax m = float_of_int (int (q_K m))"

definition MM1K_computeProbabilities :: "'a MM1KModel_scheme \<Rightarrow> 'a MM1KModel_scheme" where
  "MM1K_computeProbabilities m =
     (let K = q_K m; rho = q_rho m;
          p = replicate (K + 1) (Fin 0);
          p = (if \<not> q_isValid m then p[0 := Fin 1] else p);
          p = p[0 := (if feq rho (Fin 1) then Fin 1 / float_of_int (int K + 1)
                      else (Fin 1 - rho) / (Fin 1 - fpow rho (K + 1)))];
          (p, sumP) = foldl (\<lambda>(p, s) i. let p = p[i := p ! 0 * fpow rho i] in (p, s + p ! i))
                        (p, Fin 0) [0..<K + 1]
      in m\<lparr>q_p := p, q_sumP := sumP\<rparr>)"

definition MM1K_computeStatistics :: "'a MM1KModel_scheme \<Rightarrow> 'a MM1KModel_scheme" where
  "MM1K_computeStatistics m =
     (if \<not> q_isValid m then m
      else
        let m = MM1K_computeProbabilities m;
            temp = foldl (\<lambda>t i. t + float_of_int (int i) * q_p m ! i) (Fin 0) [0..<q_K m + 1];
            m = m\<lparr>q_avgNumInSystem := temp\<rparr>;
            m = m\<lparr>q_throughput := q_lambda m * (Fin 1 - q_p m ! q_K m)\<rparr>;
            m = m\<lparr>q_avgRespTime := q_avgNumInSystem m / q_throughput m\<rparr>;
            m = m\<lparr>q_avgServTime := Fin 1 / q_mu m\<rparr>;
            m = m\<lparr>q_avgWaitTime := q_avgRespTime m - q_avgServTime m\<rparr>;
            m = (if q_avgWaitTime m < Fin 0 then m\<lparr>q_avgWaitTime := Fin 0\<rparr> else m)
        in m\<lparr>q_avgQueueLength := q_throughput m * q_avgWaitTime m\<rparr>)"

definition MM1K_Solve :: "MM1KModel \<Rightarrow> gofloat \<Rightarrow> gofloat \<Rightarrow> MM1KModel option" where
  "MM1K_Solve = QueueModel_Solve MM1K_ComputeRho GetRhoMax (\<lambda>m. Some (MM1K_computeStatistics m))"

subsection \<open>State-dependent service rates\<close>

record MM1ModelStateDependent = MM1KModel +
  q_servRate :: "gofloat list"
  q_avgNumInServers :: gofloat

definition NewMM1ModelStateDependent :: "nat \<Rightarrow> gofloat list \<Rightarrow> MM1ModelStateDependent" where
  "NewMM1ModelStateDependent K servRate =
     MM1KModel.extend (NewMM1KModel K)
       (MM1ModelStateDependent.fields servRate (Fin 0))"

definition SD_ComputeRho :: "'a MM1KModel_scheme \<Rightarrow> gofloat" where
  "SD_ComputeRho m = Fin 1 - q_p m ! 0"

text \<open>\<^verbatim>\<open>p[n+1] = p[n] * lambda / sRate\<close>, two float64 operations.\<close>

definition next_prob :: "gofloat \<Rightarrow> gofloat \<Rightarrow> gofloat \<Rightarrow> gofloat" where
  "next_prob lambda sRate pn = f64 (f64 (pn * lambda) / sRate)"

definition rescale_upto :: "gofloat \<Rightarrow> nat \<Rightarrow> gofloat list \<Rightarrow> gofloat list" where
  "rescale_upto scale n p = foldl (\<lambda>p i. p[i := p ! i / scale]) p [0..<n + 1]"

partial_function (option) rescale_loop ::
  "gofloat \<Rightarrow> gofloat \<Rightarrow> gofloat \<Rightarrow> nat \<Rightarrow> gofloat list \<Rightarrow> gofloat list option" where
  "rescale_loop scale lambda sRate n p =
     (if p ! (n + 1) < Fin 0 \<or> isInf (p ! (n + 1)) \<or> p ! (n + 1) = NaN
      then let p = rescale_upto scale n p
           in rescale_loop scale lambda sRate n (p[n + 1 := next_prob lambda sRate (p ! n)])
      else Some p)"

definition sRate_at :: "gofloat list \<Rightarrow> nat \<Rightarrow> gofloat option" where
  "sRate_at servRate n =
     (if n < length servRate then Some (servRate ! n)
      else if servRate = [] then None else Some (servRate ! (length servRate - 1)))"

definition prob_step ::
  "gofloat \<Rightarrow> gofloat \<Rightarrow> gofloat list \<Rightarrow> gofloat list \<Rightarrow> nat \<Rightarrow> gofloat list option" where
  "prob_step scale lambda servRate p n =
     Option.bind (sRate_at servRate n) (\<lambda>sRate.
       rescale_loop scale lambda sRate n (p[n + 1 := next_prob lambda sRate (p ! n)]))"

definition sum_step ::
  "gofloat \<Rightarrow> nat \<Rightarrow> gofloat list \<times> gofloat \<Rightarrow> nat \<Rightarrow> gofloat list \<times> gofloat" where
  "sum_step scale K ps n =
     (let (p, sum) = ps; sum = f64 (sum + p ! n)
      in if sum < Fin 0 \<or> isInf sum
         then foldl (\<lambda>(p, sum) i. let p = p[i := p ! i / scale]
                                 in (p, if i \<le> n then f64 (sum + p ! i) else sum))
                (p, Fin 0) [0..<K + 1]
         else (p, sum))"

definition SD_computeProbabilities ::
  "'a MM1ModelStateDependent_scheme \<Rightarrow> 'a MM1ModelStateDependent_scheme option" where
  "SD_computeProbabilities m =
     (let K = q_K m; scale = Fin MaxFloat64 / float_of_int (int K)
      in Option.bind (ofoldl (prob_step scale (q_lambda m) (q_servRate m)) ((q_p m)[0 := Fin 1]) [0..<K])
           (\<lambda>p. let (p, sum) = foldl (sum_step scale K) (p, Fin 0) [0..<K + 1];
                    (p, sumP) = foldl (\<lambda>(p, s) n. let p = p[n := p ! n / sum] in (p, s + p ! n))
                                  (p, Fin 0) [0..<K + 1];
                    m = m\<lparr>q_p := p, q_sumP := sumP\<rparr>
                in Some (m\<lparr>q_rho := SD_ComputeRho m\<rparr>)))"

text \<open>The loop over the states: the average number in the servers is set once, when the index
  reaches the number of service rates.\<close>

definition inServers_step ::
  "nat \<Rightarrow> gofloat list \<Rightarrow> gofloat \<times> gofloat \<times> gofloat \<Rightarrow> nat \<Rightarrow> gofloat \<times> gofloat \<times> gofloat" where
  "inServers_step num p st i =
     (let (avgNumInServers, avgNumInSystem, sumP) = st;
          avgNumInSystem = avgNumInSystem + float_of_int (int i) * p ! i;
          sumP = sumP + p ! i;
          avgNumInServers = (if i = num then avgNumInSystem + (Fin 1 - sumP) * float_of_int (int num)
                             else avgNumInServers)
      in (avgNumInServers, avgNumInSystem, sumP))"

definition SD_computeStatistics ::
  "'a MM1ModelStateDependent_scheme \<Rightarrow> 'a MM1ModelStateDependent_scheme option" where
  "SD_computeStatistics m =
     (if \<not> q_isValid m then Some m
      else Option.bind (SD_computeProbabilities m) (\<lambda>m.
        let num = length (q_servRate m);
            (avgNumInServers, avgNumInSystem, sumP) =
              foldl (inServers_step num (q_p m)) (Fin 0, Fin 0, q_p m ! 0) [1..<q_K m + 1];
            m = m\<lparr>q_avgNumInServers := avgNumInServers, q_avgNumInSystem := avgNumInSystem\<rparr>;
            m = m\<lparr>q_throughput := q_lambda m * (Fin 1 - q_p m ! q_K m)\<rparr>;
            m = m\<lparr>q_avgRespTime := q_avgNumInSystem m / q_throughput m\<rparr>;
            m = m\<lparr>q_avgServTime := q_avgNumInServers m / q_throughput m\<rparr>;
            m = m\<lparr>q_avgWaitTime := q_avgRespTime m - q_avgServTime m\<rparr>;
            m = (if q_avgWaitTime m < Fin 0 then m\<lparr>q_avgWaitTime := Fin 0\<rparr> else m)
        in Some (m\<lparr>q_avgQueueLength := q_throughput m * q_avgWaitTime m\<rparr>)))"

definition SD_Solve ::
  "MM1ModelStateDependent \<Rightarrow> gofloat \<Rightarrow> gofloat \<Rightarrow> MM1ModelStateDependent option" where
  "SD_Solve = QueueModel_Solve SD_ComputeRho GetRhoMax SD_computeStatistics"

section \<open>The birth-death distribution\<close>

text \<open>The stationary distribution of a birth-death chain on \<open>0, \<dots>, K\<close> with arrival rate \<open>l\<close>
  and service rate \<open>s j\<close> in state \<open>j + 1\<close>: the specification of both models.\<close>

definition bd_weight :: "real \<Rightarrow> (nat \<Rightarrow> real) \<Rightarrow> nat \<Rightarrow> real" where
  "bd_weight l s n = (\<Prod>j<n. l / s j)"

definition bd_total :: "real \<Rightarrow> (nat \<Rightarrow> real) \<Rightarrow> nat \<Rightarrow> real" where
  "bd_total l s K = (\<Sum>i\<le>K. bd_weight l s i)"

definition bd_prob :: "real \<Rightarrow> (nat \<Rightarrow> real) \<Rightarrow> nat \<Rightarrow> nat \<Rightarrow> real" where
  "bd_prob l s K n = bd_weight l s n / bd_total l s K"

lemma bd_weight_0 [simp]: "bd_weight l s 0 = 1"
  and bd_weight_Suc: "bd_weight l s (Suc n) = bd_weight l s n * (l / s n)"
  by (simp_all add: bd_weight_def)

lemma bd_weight_nonneg: "0 \<le> l \<Longrightarrow> (\<And>j. 0 < s j) \<Longrightarrow> 0 \<le> bd_weight l s n"
  by (auto simp: bd_weight_def intro!: prod_nonneg divide_nonneg_pos)

lemma bd_weight_pos: "0 < l \<Longrightarrow> (\<And>j. 0 < s j) \<Longrightarrow> 0 < bd_weight l s n"
  by (auto simp: bd_weight_def intro!: prod_pos)

lemma bd_total_pos:
  assumes "0 \<le> l" and "\<And>j. 0 < s j" shows "0 < bd_total l s K"
proof -
  have "bd_weight l s 0 \<le> bd_total l s K"
    unfolding bd_total_def using assms by (intro member_le_sum bd_weight_nonneg) auto
  then show ?thesis by simp
qed

lemma bd_prob_sum: "0 \<le> l \<Longrightarrow> (\<And>j. 0 < s j) \<Longrightarrow> (\<Sum>i\<le>K. bd_prob l s K i) = 1"
  using bd_total_pos [of l s K]
  by (simp add: bd_prob_def bd_total_def flip: sum_divide_distrib)

lemma bd_prob_nonneg: "0 \<le> l \<Longrightarrow> (\<And>j. 0 < s j) \<Longrightarrow> 0 \<le> bd_prob l s K i"
  unfolding bd_prob_def using bd_total_pos [of l s K] bd_weight_nonneg [of l s i]
  by (intro divide_nonneg_pos) auto

lemma bd_prob_pos: "0 < l \<Longrightarrow> (\<And>j. 0 < s j) \<Longrightarrow> 0 < bd_prob l s K i"
  unfolding bd_prob_def using bd_total_pos [of l s K] bd_weight_pos [of l s i]
  by (intro divide_pos_pos) auto

text \<open>Detailed balance: the flow up from a state equals the flow down into it.\<close>

lemma bd_balance: "s i \<noteq> 0 \<Longrightarrow> s i * bd_prob l s K (Suc i) = l * bd_prob l s K i"
  by (simp add: bd_prob_def bd_weight_Suc)

lemma bd_prob_le_1:
  assumes "0 \<le> l" and "\<And>j. 0 < s j" and "i \<le> K" shows "bd_prob l s K i \<le> 1"
proof -
  have "bd_prob l s K i \<le> (\<Sum>i\<le>K. bd_prob l s K i)"
    using assms by (intro member_le_sum bd_prob_nonneg) auto
  then show ?thesis using bd_prob_sum assms(1,2) by simp
qed

lemma bd_prob_last_less:
  assumes "0 < l" and "\<And>j. 0 < s j" and "0 < K" shows "bd_prob l s K K < 1"
proof -
  obtain k where k: "K = Suc k" using assms(3) gr0_implies_Suc by blast
  have "0 < (\<Sum>i\<le>k. bd_prob l s K i)"
    using assms by (intro sum_pos bd_prob_pos) auto
  moreover have "(\<Sum>i\<le>k. bd_prob l s K i) + bd_prob l s K K = 1"
    using bd_prob_sum [of l s K] assms k by simp
  ultimately show ?thesis by linarith
qed

text \<open>Every probability vector in detailed balance is this one.\<close>

lemma bd_prob_unique:
  assumes s: "\<And>j. 0 < s j" and bal: "\<And>i. i < K \<Longrightarrow> s i * p (Suc i) = l * p i"
    and one: "(\<Sum>i\<le>K. p i) = 1" and "0 \<le> l" and "i \<le> K"
  shows "p i = bd_prob l s K i"
proof -
  have w: "j \<le> K \<Longrightarrow> p j = p 0 * bd_weight l s j" for j
  proof (induction j)
    case (Suc j)
    have "p (Suc j) = p j * (l / s j)"
      using bal [of j] s [of j] Suc.prems by (simp add: field_simps)
    with Suc show ?case by (simp add: bd_weight_Suc)
  qed simp
  have "(\<Sum>i\<le>K. p i) = (\<Sum>i\<le>K. p 0 * bd_weight l s i)"
  proof (rule sum.cong)
    fix x assume "x \<in> {..K}"
    then show "p x = p 0 * bd_weight l s x" by (intro w) simp
  qed simp
  then have "p 0 * bd_total l s K = 1"
    using one by (simp add: bd_total_def sum_distrib_left)
  then have "p 0 = 1 / bd_total l s K"
    using bd_total_pos [of l s K] s \<open>0 \<le> l\<close> by (simp add: field_simps)
  with w [OF \<open>i \<le> K\<close>] show ?thesis by (simp add: bd_prob_def)
qed

section \<open>The loops compute the distribution\<close>

lemma length_rescale_upto [simp]: "length (rescale_upto sc n p) = length p"
proof -
  have "length (foldl (\<lambda>p i. p[i := p ! i / sc]) p xs) = length p" for xs :: "nat list"
    by (induction xs arbitrary: p) simp_all
  then show ?thesis by (simp add: rescale_upto_def)
qed

lemma rescale_upto_nth:
  assumes "n < length p" and "j < length p"
  shows "rescale_upto sc n p ! j = (if j \<le> n then p ! j / sc else p ! j)"
proof -
  define Inv where "Inv = (\<lambda>k q. length q = length p \<and>
    (\<forall>j<length p. q ! j = (if j < k then p ! j / sc else p ! j)))"
  have "Inv (n + 1) (foldl (\<lambda>p i. p[i := p ! i / sc]) p [0..<n + 1])"
    by (rule foldl_upt_inv [where Inv = Inv])
      (use assms(1) in \<open>auto simp: Inv_def nth_list_update less_Suc_eq\<close>)
  with assms(2) show ?thesis by (auto simp: Inv_def rescale_upto_def less_Suc_eq_le)
qed

lemma next_prob_cases:
  assumes "0 \<le> x" "0 \<le> l" "0 < s"
  shows "next_prob (Fin l) (Fin s) (Fin x) =
    (if x * l \<le> MaxFloat64 \<and> x * l / s \<le> MaxFloat64 then Fin (x * l / s) else PInf)"
  using assms by (auto simp: next_prob_def f64_Fin gofloat_op_defs)

text \<open>The entries up to index \<open>n\<close> are the weights up to a common positive factor, and no
  entry has overflowed.\<close>

definition scaled_weights :: "real \<Rightarrow> (nat \<Rightarrow> real) \<Rightarrow> nat \<Rightarrow> gofloat list \<Rightarrow> real \<Rightarrow> bool" where
  "scaled_weights l s n p c \<longleftrightarrow> 0 < c \<and>
     (\<forall>j\<le>n. p ! j = Fin (c * bd_weight l s j) \<and> c * bd_weight l s j \<le> MaxFloat64)"

lemma scaled_weights_rescale:
  assumes "scaled_weights l s n p c" and "1 < sc" and "n < length p"
    and "0 \<le> l" and "\<And>j. 0 < s j"
  shows "scaled_weights l s n (rescale_upto (Fin sc) n p) (c / sc)"
proof -
  have "c / sc * bd_weight l s j \<le> c * bd_weight l s j" for j
  proof -
    have "c / sc \<le> c" using assms(1,2) by (simp add: scaled_weights_def field_simps)
    then show ?thesis using bd_weight_nonneg [of l s j] assms(4,5) by (intro mult_right_mono) auto
  qed
  then have "c / sc * bd_weight l s j \<le> MaxFloat64" if "j \<le> n" for j
    using assms(1) that unfolding scaled_weights_def by (meson order_trans)
  with assms show ?thesis by (auto simp: scaled_weights_def rescale_upto_nth)
qed

text \<open>One round of the rescaling loop: it stops when the next entry fits, and otherwise divides
  all entries by the scale and goes on.\<close>

lemma rescale_loop_fits:
  assumes "scaled_weights l s n p c"
    and "p ! (n + 1) = next_prob (Fin l) (Fin (s n)) (p ! n)"
    and "c * bd_weight l s n * l \<le> MaxFloat64" and "c * bd_weight l s n * l / s n \<le> MaxFloat64"
    and "0 \<le> l" and "\<And>j. 0 < s j"
  shows "rescale_loop (Fin sc) (Fin l) (Fin (s n)) n p = Some p \<and> scaled_weights l s (Suc n) p c"
proof -
  have "0 \<le> c * bd_weight l s n" "p ! n = Fin (c * bd_weight l s n)"
    using assms bd_weight_nonneg [of l s n] by (auto simp: scaled_weights_def)
  then have v: "p ! (n + 1) = Fin (c * bd_weight l s (Suc n))"
    using assms by (simp add: next_prob_cases bd_weight_Suc)
  have "0 \<le> c * bd_weight l s (Suc n)"
    using assms bd_weight_nonneg [of l s "Suc n"] by (auto simp: scaled_weights_def)
  then have "rescale_loop (Fin sc) (Fin l) (Fin (s n)) n p = Some p"
    by (subst rescale_loop.simps) (use v in simp)
  moreover have "scaled_weights l s (Suc n) p c"
    using assms v by (auto simp: scaled_weights_def le_Suc_eq bd_weight_Suc)
  ultimately show ?thesis by blast
qed

lemma rescale_loop_overflows:
  assumes "p ! (n + 1) = PInf"
  shows "rescale_loop scale lambda sRate n p = rescale_loop scale lambda sRate n
    ((rescale_upto scale n p)[n + 1 := next_prob lambda sRate (rescale_upto scale n p ! n)])"
  using assms by (subst rescale_loop.simps) (simp add: Let_def)

lemma scaled_weights_update:
  "scaled_weights l s n p c \<Longrightarrow> scaled_weights l s n (p[n + 1 := v]) c"
  by (auto simp: scaled_weights_def nth_list_update)

lemma rescale_loop_within:
  assumes "scaled_weights l s n p c" and "n + 1 < length p"
    and "p ! (n + 1) = next_prob (Fin l) (Fin (s n)) (p ! n)"
    and "c * bd_weight l s n * l \<le> MaxFloat64 * sc ^ k"
    and "c * bd_weight l s n * l / s n \<le> MaxFloat64 * sc ^ k"
    and sc: "1 < sc" and l: "0 \<le> l" and s: "\<And>j. 0 < s j"
  shows "\<exists>p' c'. rescale_loop (Fin sc) (Fin l) (Fin (s n)) n p = Some p' \<and>
    length p' = length p \<and> scaled_weights l s (Suc n) p' c'"
  using assms(1-5)
proof (induction k arbitrary: p c)
  case (0 p c)
  then have "c * bd_weight l s n * l \<le> MaxFloat64" "c * bd_weight l s n * l / s n \<le> MaxFloat64"
    by simp_all
  with 0 rescale_loop_fits [of l s n p c] l s show ?case by blast
next
  case (Suc k p c)
  let ?y = "c * bd_weight l s n"
  have y: "0 \<le> ?y" "p ! n = Fin ?y"
    using Suc bd_weight_nonneg [of l s n] l s by (auto simp: scaled_weights_def)
  show ?case
  proof (cases "?y * l \<le> MaxFloat64 \<and> ?y * l / s n \<le> MaxFloat64")
    case True
    with Suc rescale_loop_fits [of l s n p c] l s show ?thesis by blast
  next
    case False
    let ?q = "rescale_upto (Fin sc) n p"
    let ?q' = "?q[n + 1 := next_prob (Fin l) (Fin (s n)) (?q ! n)]"
    have "p ! (n + 1) = PInf" using Suc.prems(3) y False l s by (simp add: next_prob_cases)
    then have "rescale_loop (Fin sc) (Fin l) (Fin (s n)) n p =
        rescale_loop (Fin sc) (Fin l) (Fin (s n)) n ?q'"
      by (rule rescale_loop_overflows)
    moreover have "scaled_weights l s n ?q' (c / sc)"
      using Suc.prems(1,2) sc l s by (intro scaled_weights_update scaled_weights_rescale) auto
    moreover have "c / sc * bd_weight l s n * l \<le> MaxFloat64 * sc ^ k"
      using Suc.prems(4) sc by (simp add: pos_divide_le_eq mult_ac)
    moreover have "c / sc * bd_weight l s n * l / s n \<le> MaxFloat64 * sc ^ k"
    proof -
      have "c / sc * bd_weight l s n * l / s n = c * bd_weight l s n * l / s n / sc" by simp
      then show ?thesis using Suc.prems(5) sc by (simp only: pos_divide_le_eq) (simp add: mult_ac)
    qed
    ultimately show ?thesis
      using Suc.IH [of ?q' "c / sc"] Suc.prems(2) by simp
  qed
qed

lemma rescale_loop_terminates:
  assumes "scaled_weights l s n p c" and "n + 1 < length p"
    and "p ! (n + 1) = next_prob (Fin l) (Fin (s n)) (p ! n)"
    and sc: "1 < sc" and l: "0 \<le> l" and s: "\<And>j. 0 < s j"
  shows "\<exists>p' c'. rescale_loop (Fin sc) (Fin l) (Fin (s n)) n p = Some p' \<and>
    length p' = length p \<and> scaled_weights l s (Suc n) p' c'"
proof -
  let ?x = "c * bd_weight l s n * l"
  obtain k1 where k1: "?x < sc ^ k1" using real_arch_pow [OF sc] by blast
  obtain k2 where k2: "?x / s n < sc ^ k2" using real_arch_pow [OF sc] by blast
  have pw: "sc ^ k1 \<le> sc ^ (k1 + k2)" "sc ^ k2 \<le> sc ^ (k1 + k2)"
    using sc by (simp_all add: power_increasing)
  have "1 * sc ^ (k1 + k2) \<le> MaxFloat64 * sc ^ (k1 + k2)"
    using sc MaxFloat64_gt by (intro mult_right_mono) auto
  with k1 k2 pw have "?x \<le> MaxFloat64 * sc ^ (k1 + k2)" "?x / s n \<le> MaxFloat64 * sc ^ (k1 + k2)"
    by linarith+
  with assms rescale_loop_within [of l s n p c sc "k1 + k2"] show ?thesis by blast
qed

text \<open>Go's \<^verbatim>\<open>int\<close> bounds the number of states far below the overflow threshold.\<close>

lemma MaxFloat64_states:
  assumes "K < 2 ^ 63" shows "real K * real (K + 1) \<le> MaxFloat64" and "real K < MaxFloat64"
proof -
  have "K * (K + 1) \<le> 2 ^ 63 * 2 ^ 63" using assms by (intro mult_mono) auto
  then have "real (K * (K + 1)) \<le> real (2 ^ 63 * 2 ^ 63)" by (simp only: of_nat_le_iff)
  then have "real K * real (K + 1) \<le> 2 ^ 126" by (simp add: algebra_simps)
  also have "(2::real) ^ 126 \<le> 2 ^ 971" by (rule power_increasing) simp_all
  also have "(2::real) ^ 971 \<le> MaxFloat64"
  proof -
    have "(2::real) ^ 1024 = 2 ^ 53 * 2 ^ 971" by (simp flip: power_add)
    then have "MaxFloat64 = (2 ^ 53 - 1) * 2 ^ 971"
      unfolding MaxFloat64_def by (simp only: left_diff_distrib mult_1)
    moreover have "1 * (2::real) ^ 971 \<le> (2 ^ 53 - 1) * 2 ^ 971" by (intro mult_right_mono) simp_all
    ultimately show ?thesis by simp
  qed
  finally show le: "real K * real (K + 1) \<le> MaxFloat64" .
  show "real K < MaxFloat64"
  proof (cases "K = 0")
    case True
    then show ?thesis using MaxFloat64_gt by simp
  next
    case False
    then have "real K * 1 < real K * real (K + 1)" by (intro mult_strict_left_mono) auto
    with le show ?thesis by linarith
  qed
qed

text \<open>The service rate the loop uses in each state.\<close>

definition rate_fun :: "gofloat list \<Rightarrow> nat \<Rightarrow> real" where
  "rate_fun servRate n = real_of (servRate ! min n (length servRate - 1))"

definition rates_ok :: "gofloat list \<Rightarrow> bool" where
  "rates_ok servRate \<longleftrightarrow> servRate \<noteq> [] \<and> (\<forall>x\<in>set servRate. is_fin x \<and> Fin 0 < x)"

lemma rates_ok_mem: "rates_ok sr \<Longrightarrow> sr ! min n (length sr - 1) \<in> set sr"
  by (rule nth_mem) (cases sr, auto simp: rates_ok_def)

lemma rates_ok_pos: "rates_ok sr \<Longrightarrow> 0 < rate_fun sr n"
proof -
  assume ok: "rates_ok sr"
  with rates_ok_mem [OF ok, of n] have "is_fin (sr ! min n (length sr - 1))" "Fin 0 < sr ! min n (length sr - 1)"
    by (auto simp: rates_ok_def)
  then show ?thesis by (cases "sr ! min n (length sr - 1)") (auto simp: rate_fun_def)
qed

lemma sRate_at_rate: "rates_ok sr \<Longrightarrow> sRate_at sr n = Some (Fin (rate_fun sr n))"
proof -
  assume ok: "rates_ok sr"
  then have "is_fin (sr ! min n (length sr - 1))"
    using rates_ok_mem [OF ok, of n] by (auto simp: rates_ok_def)
  moreover have "sRate_at sr n = Some (sr ! min n (length sr - 1))"
    using ok by (cases sr) (auto simp: sRate_at_def rates_ok_def min_def)
  ultimately show ?thesis by (simp add: rate_fun_def)
qed

lemma prob_loop_correct:
  assumes ok: "rates_ok sr" and l: "0 \<le> l" and sc: "1 < sc" and len: "length p = K + 1"
    and p0: "p ! 0 = Fin 1"
  shows "\<exists>p' c. ofoldl (prob_step (Fin sc) (Fin l) sr) p [0..<K] = Some p' \<and>
    length p' = K + 1 \<and> scaled_weights l (rate_fun sr) K p' c"
proof -
  let ?s = "rate_fun sr"
  define Inv where "Inv = (\<lambda>n q. length q = K + 1 \<and> (\<exists>c. scaled_weights l ?s n q c))"
  have "\<exists>p'. ofoldl (prob_step (Fin sc) (Fin l) sr) p [0..<K] = Some p' \<and> Inv K p'"
  proof (rule ofoldl_upt_inv)
    show "Inv 0 p"
      using len p0 MaxFloat64_gt
      by (auto simp: Inv_def scaled_weights_def intro!: exI [of _ 1])
  next
    fix n q assume n: "n < K" and inv: "Inv n q"
    then obtain c where c: "scaled_weights l ?s n q c" and q: "length q = K + 1"
      by (auto simp: Inv_def)
    let ?q = "q[n + 1 := next_prob (Fin l) (Fin (?s n)) (q ! n)]"
    obtain p' c' where "rescale_loop (Fin sc) (Fin l) (Fin (?s n)) n ?q = Some p'"
      "length p' = length ?q" "scaled_weights l ?s (Suc n) p' c'"
      using rescale_loop_terminates [OF scaled_weights_update [OF c], of _ sc] n q sc l
        rates_ok_pos [OF ok] by fastforce
    then show "\<exists>s'. prob_step (Fin sc) (Fin l) sr q n = Some s' \<and> Inv (Suc n) s'"
      using q by (auto simp: prob_step_def sRate_at_rate [OF ok] Inv_def)
  qed
  then show ?thesis by (auto simp: Inv_def)
qed

lemma bd_partial_nonneg: "0 \<le> l \<Longrightarrow> (\<And>j. 0 < s j) \<Longrightarrow> 0 \<le> (\<Sum>i<n. bd_weight l s i)"
  by (intro sum_nonneg bd_weight_nonneg) auto

text \<open>The pass that divides every entry by the scale and recomputes the partial sum.\<close>

lemma resum_correct:
  assumes w: "scaled_weights l s K p c" and len: "length p = K + 1" and sc: "1 < sc"
    and l: "0 \<le> l" and s: "\<And>j. 0 < s j" and n: "n \<le> K"
    and fits: "c / sc * (\<Sum>j<Suc n. bd_weight l s j) \<le> MaxFloat64"
  shows "\<exists>q. foldl (\<lambda>(p, sum) i. let p = p[i := p ! i / Fin sc]
                                 in (p, if i \<le> n then f64 (sum + p ! i) else sum))
      (p, Fin 0) [0..<K + 1] = (q, Fin (c / sc * (\<Sum>j<Suc n. bd_weight l s j))) \<and>
    length q = K + 1 \<and> scaled_weights l s K q (c / sc)"
proof -
  let ?w = "bd_weight l s" and ?c = "c / sc"
  let ?f = "\<lambda>(p, sum) i. let p = p[i := p ! i / Fin sc]
                                 in (p, if i \<le> n then f64 (sum + p ! i) else sum)"
  define Inv where "Inv = (\<lambda>k (q, t). length q = K + 1 \<and>
    t = Fin (?c * (\<Sum>j<min k (Suc n). ?w j)) \<and>
    (\<forall>j\<le>K. q ! j = (if j < k then Fin (?c * ?w j) else Fin (c * ?w j))))"
  have c: "0 < c" "0 < ?c" using w sc by (auto simp: scaled_weights_def)
  have bound: "0 \<le> ?c * (\<Sum>j<k. ?w j) \<and> ?c * (\<Sum>j<k. ?w j) \<le> MaxFloat64" if "k \<le> Suc n" for k
  proof -
    have "(\<Sum>j<k. ?w j) \<le> (\<Sum>j<Suc n. ?w j)"
      using that l s by (intro sum_mono2 bd_weight_nonneg) auto
    then have "?c * (\<Sum>j<k. ?w j) \<le> ?c * (\<Sum>j<Suc n. ?w j)"
      using c by (intro mult_left_mono) auto
    moreover have "0 \<le> ?c * (\<Sum>j<k. ?w j)"
      using c bd_partial_nonneg [of l s k] l s by (intro mult_nonneg_nonneg) auto
    ultimately show ?thesis using fits by (blast intro: order_trans)
  qed
  have "Inv (K + 1) (foldl ?f (p, Fin 0) [0..<K + 1])"
  proof (rule foldl_upt_inv)
    show "Inv 0 (p, Fin 0)" using w len by (simp add: Inv_def scaled_weights_def)
  next
    fix k st assume k: "k < K + 1" and inv: "Inv k st"
    obtain q t where st: "st = (q, t)" by fastforce
    have q: "length q = K + 1" "t = Fin (?c * (\<Sum>j<min k (Suc n). ?w j))"
      "\<And>j. j \<le> K \<Longrightarrow> q ! j = (if j < k then Fin (?c * ?w j) else Fin (c * ?w j))"
      using inv st by (auto simp: Inv_def)
    have e: "q ! k / Fin sc = Fin (?c * ?w k)" using q(3) [of k] k sc by simp
    have "f64 (t + Fin (?c * ?w k)) = Fin (?c * (\<Sum>j<Suc k. ?w j))" if "k \<le> n"
      using that bound [of "Suc k"] q(2) by (auto simp: f64_Fin distrib_left min_def)
    with q e k show "Inv (Suc k) (?f st k)"
      by (auto simp: Inv_def st Let_def nth_list_update min_def le_Suc_eq not_less_eq_eq)
  qed
  moreover obtain q t where "foldl ?f (p, Fin 0) [0..<K + 1] = (q, t)" by fastforce
  ultimately have q: "foldl ?f (p, Fin 0) [0..<K + 1] =
      (q, Fin (?c * (\<Sum>j<Suc n. ?w j)))" "length q = K + 1" "\<And>j. j \<le> K \<Longrightarrow> q ! j = Fin (?c * ?w j)"
    using n by (auto simp: Inv_def min_def less_Suc_eq_le)
  have "?c * ?w j \<le> MaxFloat64" if "j \<le> K" for j
  proof -
    have "?c * ?w j \<le> c * ?w j"
      using c sc bd_weight_nonneg [of l s j] l s by (intro mult_right_mono) (auto simp: field_simps)
    then show ?thesis using w that by (auto simp: scaled_weights_def)
  qed
  with q c have "scaled_weights l s K q ?c" by (auto simp: scaled_weights_def)
  with q show ?thesis by blast
qed

lemma sum_loop_correct:
  assumes w: "scaled_weights l s K p c" and len: "length p = K + 1"
    and K: "0 < K" "K < 2 ^ 63" and l: "0 \<le> l" and s: "\<And>j. 0 < s j"
  shows "\<exists>q c'. foldl (sum_step (Fin (MaxFloat64 / K)) K) (p, Fin 0) [0..<K + 1] =
      (q, Fin (c' * bd_total l s K)) \<and> length q = K + 1 \<and> scaled_weights l s K q c'"
proof -
  let ?w = "bd_weight l s" and ?sc = "MaxFloat64 / real K"
  define Inv where "Inv = (\<lambda>k (q, t). length q = K + 1 \<and>
    (\<exists>c. scaled_weights l s K q c \<and> t = Fin (c * (\<Sum>j<k. ?w j))))"
  have sc: "1 < ?sc" using MaxFloat64_states(2) [OF K(2)] K(1) by (simp add: field_simps)
  have "Inv (K + 1) (foldl (sum_step (Fin ?sc) K) (p, Fin 0) [0..<K + 1])"
  proof (rule foldl_upt_inv)
    show "Inv 0 (p, Fin 0)" using w len by (auto simp: Inv_def)
  next
    fix n st assume n: "n < K + 1" and inv: "Inv n st"
    obtain q t where st: "st = (q, t)" by fastforce
    obtain c where q: "length q = K + 1" "scaled_weights l s K q c" "t = Fin (c * (\<Sum>j<n. ?w j))"
      using inv st by (auto simp: Inv_def)
    let ?t = "c * (\<Sum>j<Suc n. ?w j)"
    have c: "0 < c" "q ! n = Fin (c * ?w n)" using q(2) n by (auto simp: scaled_weights_def)
    have t: "0 \<le> ?t" using c bd_partial_nonneg [of l s "Suc n"] l s by (intro mult_nonneg_nonneg) auto
    have add: "t + q ! n = Fin ?t" using q(3) c by (simp add: distrib_left)
    have fits: "c / ?sc * (\<Sum>j<Suc n. ?w j) \<le> MaxFloat64"
    proof -
      have "c * ?w j \<le> MaxFloat64" if "j < Suc n" for j
        using q(2) that n by (auto simp: scaled_weights_def)
      then have "(\<Sum>j<Suc n. c * ?w j) \<le> real (card {..<Suc n}) * MaxFloat64"
        by (intro sum_bounded_above) auto
      then have "c * (\<Sum>j<Suc n. ?w j) \<le> real (n + 1) * MaxFloat64"
        by (simp add: sum_distrib_left [symmetric] del: sum.lessThan_Suc)
      then have "c * (\<Sum>j<Suc n. ?w j) / ?sc \<le> real (n + 1) * MaxFloat64 / ?sc"
        using sc by (intro divide_right_mono) auto
      then have "c / ?sc * (\<Sum>j<Suc n. ?w j) \<le> real (n + 1) * MaxFloat64 / ?sc"
        by (simp only: times_divide_eq_left)
      also have "\<dots> = real K * real (n + 1)" using K MaxFloat64_gt by (simp add: field_simps)
      also have "\<dots> \<le> real K * real (K + 1)" using n by (intro mult_left_mono) auto
      finally show ?thesis using MaxFloat64_states(1) [OF K(2)] by linarith
    qed
    show "Inv (Suc n) (sum_step (Fin ?sc) K st n)"
    proof (cases "?t \<le> MaxFloat64")
      case True
      then have "sum_step (Fin ?sc) K st n = (q, Fin ?t)"
        using st add t by (simp add: sum_step_def f64_Fin del: sum.lessThan_Suc)
      with q show ?thesis by (auto simp: Inv_def)
    next
      case False
      then have "f64 (t + q ! n) = PInf" using add t by (simp add: f64_Fin)
      with resum_correct [OF q(2,1) sc l s _ fits] n show ?thesis
        by (fastforce simp: Inv_def sum_step_def st)
    qed
  qed
  moreover have "(\<Sum>j<K + 1. ?w j) = bd_total l s K"
    by (simp add: bd_total_def lessThan_Suc_atMost del: sum.lessThan_Suc)
  ultimately show ?thesis by (auto simp: Inv_def simp del: sum.lessThan_Suc)
qed

lemma normalize_loop_correct:
  assumes w: "scaled_weights l s K p c" and len: "length p = K + 1" and T: "0 < T"
  shows "foldl (\<lambda>(p, t) n. let p = p[n := p ! n / Fin T] in (p, t + p ! n)) (p, Fin 0) [0..<K + 1] =
    (map (\<lambda>n. Fin (c * bd_weight l s n / T)) [0..<K + 1],
     Fin (\<Sum>j<K + 1. c * bd_weight l s j / T))"
proof -
  let ?w = "\<lambda>j. c * bd_weight l s j"
  let ?f = "\<lambda>(p, t) n. let p = p[n := p ! n / Fin T] in (p, t + p ! n)"
  define Inv where "Inv = (\<lambda>k (q, t). length q = K + 1 \<and> t = Fin (\<Sum>j<k. ?w j / T) \<and>
    (\<forall>j\<le>K. q ! j = (if j < k then Fin (?w j / T) else Fin (?w j))))"
  have "Inv (K + 1) (foldl ?f (p, Fin 0) [0..<K + 1])"
  proof (rule foldl_upt_inv)
    show "Inv 0 (p, Fin 0)" using w len by (simp add: Inv_def scaled_weights_def)
  next
    fix k st assume k: "k < K + 1" and inv: "Inv k st"
    obtain q t where st: "st = (q, t)" by fastforce
    have q: "length q = K + 1" "t = Fin (\<Sum>j<k. ?w j / T)"
      "\<And>j. j \<le> K \<Longrightarrow> q ! j = (if j < k then Fin (?w j / T) else Fin (?w j))"
      using inv st by (auto simp: Inv_def)
    have "q ! k / Fin T = Fin (?w k / T)" using q(3) [of k] k T by simp
    with q k show "Inv (Suc k) (?f st k)"
      by (auto simp: Inv_def st Let_def nth_list_update)
  qed
  moreover obtain q t where qt: "foldl ?f (p, Fin 0) [0..<K + 1] = (q, t)" by fastforce
  ultimately have "Inv (K + 1) (q, t)" by simp
  then have "q = map (\<lambda>n. Fin (?w n / T)) [0..<K + 1]" "t = Fin (\<Sum>j<K + 1. ?w j / T)"
    unfolding Inv_def by (auto intro!: nth_equalityI simp del: upt_Suc)
  with qt show ?thesis by blast
qed

definition bd_vector :: "real \<Rightarrow> (nat \<Rightarrow> real) \<Rightarrow> nat \<Rightarrow> gofloat list" where
  "bd_vector l s K = map (\<lambda>n. Fin (bd_prob l s K n)) [0..<K + 1]"

lemma length_bd_vector [simp]: "length (bd_vector l s K) = K + 1"
  by (simp add: bd_vector_def)

lemma nth_bd_vector [simp]: "i \<le> K \<Longrightarrow> bd_vector l s K ! i = Fin (bd_prob l s K i)"
  by (simp add: bd_vector_def del: upt_Suc)

lemma sum_lessThan_atMost: "(\<Sum>j<K + 1. f j) = (\<Sum>j\<le>K. f j)" for K :: nat
  by (simp only: Suc_eq_plus1 [symmetric] lessThan_Suc_atMost)

lemma SD_computeProbabilities_exact:
  assumes "q_lambda m = Fin l" and "0 \<le> l" and "rates_ok (q_servRate m)"
    and "0 < q_K m" and "q_K m < 2 ^ 63" and "length (q_p m) = q_K m + 1"
  shows "SD_computeProbabilities m = Some (m
    \<lparr>q_p := bd_vector l (rate_fun (q_servRate m)) (q_K m), q_sumP := Fin 1,
     q_rho := Fin (1 - bd_prob l (rate_fun (q_servRate m)) (q_K m) 0)\<rparr>)"
proof -
  let ?K = "q_K m" and ?s = "rate_fun (q_servRate m)" and ?sr = "q_servRate m"
  let ?sc = "MaxFloat64 / real ?K" and ?T = "bd_total l ?s ?K"
  have s: "\<And>j. 0 < ?s j" using rates_ok_pos [OF assms(3)] .
  have scale: "Fin MaxFloat64 / float_of_int (int ?K) = Fin ?sc"
    using assms(4) by (simp add: float_of_int_def)
  have "1 < ?sc" using MaxFloat64_states(2) [OF assms(5)] assms(4) by (simp add: field_simps)
  then obtain p c where p: "ofoldl (prob_step (Fin ?sc) (Fin l) ?sr) ((q_p m)[0 := Fin 1]) [0..<?K] = Some p"
      "length p = ?K + 1" "scaled_weights l ?s ?K p c"
    using prob_loop_correct [OF assms(3,2), of ?sc "(q_p m)[0 := Fin 1]" ?K] assms(6) by auto
  obtain q c' where q: "foldl (sum_step (Fin ?sc) ?K) (p, Fin 0) [0..<?K + 1] = (q, Fin (c' * ?T))"
      "length q = ?K + 1" "scaled_weights l ?s ?K q c'"
    using sum_loop_correct [OF p(3,2) assms(4,5,2) s] by blast
  have T: "0 < ?T" using bd_total_pos assms(2) s by blast
  have c': "0 < c'" using q(3) by (simp add: scaled_weights_def)
  have e: "c' * bd_weight l ?s n / (c' * ?T) = bd_prob l ?s ?K n" for n
    using c' by (simp add: bd_prob_def)
  have "foldl (\<lambda>(p, t) n. let p = p[n := p ! n / Fin (c' * ?T)] in (p, t + p ! n)) (q, Fin 0)
      [0..<?K + 1] = (bd_vector l ?s ?K, Fin 1)"
    using normalize_loop_correct [OF q(3,2), of "c' * ?T"] T c' bd_prob_sum [of l ?s ?K] assms(2) s
    unfolding e bd_vector_def sum_lessThan_atMost by simp
  then show ?thesis
    using p(1) q(1) by (simp add: SD_computeProbabilities_def assms(1) scale Let_def SD_ComputeRho_def
        del: upt_Suc)
qed

definition inServers_result :: "nat \<Rightarrow> (nat \<Rightarrow> real) \<Rightarrow> nat \<Rightarrow> gofloat \<times> gofloat \<times> gofloat" where
  "inServers_result num x k =
    (if 1 \<le> num \<and> num \<le> k
     then Fin ((\<Sum>i\<le>num. real i * x i) + (1 - (\<Sum>i\<le>num. x i)) * real num) else Fin 0,
     Fin (\<Sum>i\<le>k. real i * x i), Fin (\<Sum>i\<le>k. x i))"

lemma inServers_loop:
  assumes "\<And>i. i \<le> K \<Longrightarrow> p ! i = Fin (x i)" and "k \<le> K"
  shows "foldl (inServers_step num p) (Fin 0, Fin 0, p ! 0) [1..<k + 1] = inServers_result num x k"
  using assms(2)
proof (induction k)
  case 0
  then show ?case using assms(1) [of 0] by (simp add: inServers_result_def)
next
  case (Suc k)
  have "inServers_step num p (inServers_result num x k) (Suc k) = inServers_result num x (Suc k)"
    using assms(1) [OF Suc.prems]
    by (auto simp: inServers_step_def inServers_result_def Let_def float_of_int_def)
  moreover have "[1..<Suc k + 1] = [1..<k + 1] @ [Suc k]" by simp
  ultimately show ?case using Suc by simp
qed

text \<open>With the whole distribution summing to one, the value set when the index reaches the number
  of rates is the mean number of busy servers.\<close>

lemma mean_busy:
  assumes "num \<le> K" and "(\<Sum>i\<le>K. x i) = (1::real)"
  shows "(\<Sum>i\<le>num. real i * x i) + (1 - (\<Sum>i\<le>num. x i)) * real num = (\<Sum>i\<le>K. real (min i num) * x i)"
proof -
  have split: "(\<Sum>i\<le>K. f i) = (\<Sum>i\<le>num. f i) + (\<Sum>i\<in>{num<..K}. f i)" for f :: "nat \<Rightarrow> real"
    using assms(1) by (subst sum.union_disjoint [symmetric]) (auto intro: sum.cong)
  have "(\<Sum>i\<in>{num<..K}. real (min i num) * x i) = real num * (\<Sum>i\<in>{num<..K}. x i)"
    by (auto simp: sum_distrib_left intro!: sum.cong)
  moreover have "(\<Sum>i\<in>{num<..K}. x i) = 1 - (\<Sum>i\<le>num. x i)" using split [of x] assms(2) by linarith
  moreover have "(\<Sum>i\<le>num. real (min i num) * x i) = (\<Sum>i\<le>num. real i * x i)"
    by (auto intro!: sum.cong)
  ultimately show ?thesis using split [of "\<lambda>i. real (min i num) * x i"] by simp
qed

text \<open>Mean number in system, in service, and throughput of the distribution.\<close>

definition bd_mean :: "real \<Rightarrow> (nat \<Rightarrow> real) \<Rightarrow> nat \<Rightarrow> real" where
  "bd_mean l s K = (\<Sum>i\<le>K. real i * bd_prob l s K i)"

definition bd_busy :: "real \<Rightarrow> (nat \<Rightarrow> real) \<Rightarrow> nat \<Rightarrow> nat \<Rightarrow> real" where
  "bd_busy l s K num = (\<Sum>i\<le>K. real (min i num) * bd_prob l s K i)"

definition bd_throughput :: "real \<Rightarrow> (nat \<Rightarrow> real) \<Rightarrow> nat \<Rightarrow> real" where
  "bd_throughput l s K = l * (1 - bd_prob l s K K)"

lemma bd_busy_le_mean: "0 \<le> l \<Longrightarrow> (\<And>j. 0 < s j) \<Longrightarrow> bd_busy l s K num \<le> bd_mean l s K"
  unfolding bd_busy_def bd_mean_def by (intro sum_mono mult_right_mono bd_prob_nonneg) auto

lemma bd_throughput_pos: "0 < l \<Longrightarrow> (\<And>j. 0 < s j) \<Longrightarrow> 0 < K \<Longrightarrow> 0 < bd_throughput l s K"
  using bd_prob_last_less [of l s K] by (simp add: bd_throughput_def)

text \<open>The throughput is the mean service rate: what is accepted is served.\<close>

lemma bd_flow:
  assumes "\<And>j. 0 < s j" and "0 \<le> l"
  shows "bd_throughput l s K = (\<Sum>i<K. s i * bd_prob l s K (Suc i))"
proof -
  have "(\<Sum>i<K. s i * bd_prob l s K (Suc i)) = (\<Sum>i<K. l * bd_prob l s K i)"
    using assms(1) by (intro sum.cong bd_balance) (auto simp: less_le)
  also have "\<dots> = l * ((\<Sum>i<K + 1. bd_prob l s K i) - bd_prob l s K K)"
    by (simp add: sum_distrib_left)
  finally show ?thesis
    using bd_prob_sum [of l s K] assms unfolding sum_lessThan_atMost by (simp add: bd_throughput_def)
qed

section \<open>Exact solutions\<close>

text \<open>A model on which \<^verbatim>\<open>Solve\<close> may be called: the probability slice has its length, and its
  first entry is a probability (zero before the first solve).\<close>

definition sd_wf :: "'a MM1ModelStateDependent_scheme \<Rightarrow> bool" where
  "sd_wf m \<longleftrightarrow> rates_ok (q_servRate m) \<and> length (q_servRate m) \<le> q_K m \<and> q_K m < 2 ^ 63 \<and>
     length (q_p m) = q_K m + 1 \<and> (\<exists>x. q_p m ! 0 = Fin x \<and> 0 \<le> x \<and> x \<le> 1)"

text \<open>The model after a solve: every field as a function of the arrival rate, whatever the fields
  were before.\<close>

definition sd_solved :: "'a MM1ModelStateDependent_scheme \<Rightarrow> real \<Rightarrow> gofloat \<Rightarrow>
    'a MM1ModelStateDependent_scheme" where
  "sd_solved m l mu =
     (let s = rate_fun (q_servRate m); K = q_K m; num = length (q_servRate m);
          N = bd_mean l s K; B = bd_busy l s K num; X = bd_throughput l s K
      in m\<lparr>q_lambda := Fin l, q_mu := mu, q_rho := Fin (1 - bd_prob l s K 0), q_isValid := True,
           q_p := bd_vector l s K, q_sumP := Fin 1, q_avgNumInServers := Fin B,
           q_avgNumInSystem := Fin N, q_throughput := Fin X, q_avgRespTime := Fin (N / X),
           q_avgServTime := Fin (B / X), q_avgWaitTime := Fin ((N - B) / X),
           q_avgQueueLength := Fin (N - B)\<rparr>)"

lemma SD_Solve_exact:
  assumes wf: "sd_wf m" and K: "2 \<le> q_K m" and l: "0 < l" and mu: "0 < mu"
  shows "SD_Solve m (Fin l) (Fin mu) = Some (sd_solved m l (Fin mu))"
proof -
  let ?K = "q_K m" and ?sr = "q_servRate m"
  let ?s = "rate_fun ?sr" and ?num = "length ?sr"
  obtain x where x: "q_p m ! 0 = Fin x" "0 \<le> x" "x \<le> 1" using wf by (auto simp: sd_wf_def)
  have ok: "rates_ok ?sr" and len: "length (q_p m) = ?K + 1" and K63: "?K < 2 ^ 63"
    and num: "1 \<le> ?num" "?num \<le> ?K"
    using wf by (auto simp: sd_wf_def rates_ok_def Suc_le_eq)
  note s = rates_ok_pos [OF ok]
  define m1 where "m1 = m\<lparr>q_lambda := Fin l, q_mu := Fin mu, q_rho := Fin (1 - x), q_isValid := True\<rparr>"
  have "SD_Solve m (Fin l) (Fin mu) = SD_computeStatistics m1"
    using x K l mu
    by (simp add: SD_Solve_def QueueModel_Solve_def Let_def SD_ComputeRho_def GetRhoMax_def
        float_of_int_def m1_def)
  moreover have "SD_computeProbabilities m1 = Some (m1
    \<lparr>q_p := bd_vector l ?s ?K, q_sumP := Fin 1, q_rho := Fin (1 - bd_prob l ?s ?K 0)\<rparr>)"
    using SD_computeProbabilities_exact [of m1 l] ok len K K63 l by (simp add: m1_def)
  moreover have "foldl (inServers_step ?num (bd_vector l ?s ?K))
      (Fin 0, Fin 0, Fin (bd_prob l ?s ?K 0)) [1..<?K + 1] =
    (Fin (bd_busy l ?s ?K ?num), Fin (bd_mean l ?s ?K), Fin 1)"
    using inServers_loop [of ?K "bd_vector l ?s ?K" "bd_prob l ?s ?K" ?K ?num] num
      bd_prob_sum [of l ?s ?K] s l
    by (simp add: inServers_result_def mean_busy bd_busy_def bd_mean_def del: upt_Suc)
  moreover have X: "0 < bd_throughput l ?s ?K" using bd_throughput_pos s l K by simp
  moreover have "0 \<le> (bd_mean l ?s ?K - bd_busy l ?s ?K ?num) / bd_throughput l ?s ?K"
    using bd_busy_le_mean [of l ?s ?K ?num] s l X by simp
  moreover have "bd_throughput l ?s ?K * (bd_mean l ?s ?K / bd_throughput l ?s ?K -
      bd_busy l ?s ?K ?num / bd_throughput l ?s ?K) = bd_mean l ?s ?K - bd_busy l ?s ?K ?num"
    using X by (simp add: right_diff_distrib)
  ultimately show ?thesis
    by (simp add: SD_computeStatistics_def Let_def m1_def sd_solved_def diff_divide_distrib
        bd_throughput_def [symmetric] del: upt_Suc)
qed

lemma sd_solved_wf: "sd_wf m \<Longrightarrow> 0 < l \<Longrightarrow> sd_wf (sd_solved m l mu)"
  using bd_prob_nonneg [of l "rate_fun (q_servRate m)" "q_K m" 0]
    bd_prob_le_1 [of l "rate_fun (q_servRate m)" 0 "q_K m"] rates_ok_pos [of "q_servRate m"]
  by (simp add: sd_wf_def sd_solved_def Let_def)

lemma sd_solved_fields [simp]:
  "q_servRate (sd_solved m l mu) = q_servRate m" "q_K (sd_solved m l mu) = q_K m"
  by (simp_all add: sd_solved_def Let_def)

lemma sd_solved_again: "sd_solved (sd_solved m l mu) l' mu' = sd_solved m l' mu'"
  by (simp add: sd_solved_def Let_def)

lemma new_sd_wf:
  "rates_ok sr \<Longrightarrow> length sr \<le> K \<Longrightarrow> K < 2 ^ 63 \<Longrightarrow> sd_wf (NewMM1ModelStateDependent K sr)"
  by (simp add: sd_wf_def NewMM1ModelStateDependent_def NewMM1KModel_def MM1KModel.defs
      MM1ModelStateDependent.defs)

lemma new_sd_fields [simp]:
  "q_servRate (NewMM1ModelStateDependent K sr) = sr" "q_K (NewMM1ModelStateDependent K sr) = K"
  "q_p (NewMM1ModelStateDependent K sr) = replicate (K + 1) (Fin 0)"
  by (simp_all add: NewMM1ModelStateDependent_def NewMM1KModel_def MM1KModel.defs
      MM1ModelStateDependent.defs)

subsection \<open>M/M/1/K\<close>

text \<open>The closed form with powers of the utilization is the birth-death distribution with a
  constant service rate.\<close>

lemma bd_weight_const: "bd_weight l (\<lambda>_. mu) n = (l / mu) ^ n"
  by (simp add: bd_weight_def)

lemma bd_total_const:
  "bd_total l (\<lambda>_. mu) K =
    (if l = mu \<and> mu \<noteq> 0 then real (K + 1) else (1 - (l / mu) ^ (K + 1)) / (1 - l / mu))"
  if "mu \<noteq> 0"
proof (cases "l = mu")
  case True
  with that show ?thesis by (simp add: bd_total_def bd_weight_const)
next
  case False
  with that have "l / mu \<noteq> 1" by simp
  then have "(\<Sum>i<Suc K. (l / mu) ^ i) = (1 - (l / mu) ^ Suc K) / (1 - l / mu)"
    by (simp only: sum_gp_strict if_False)
  with False show ?thesis by (simp add: bd_total_def bd_weight_const lessThan_Suc_atMost)
qed

lemma MM1K_prob_loop:
  assumes "length p = K + 1" and "p ! 0 = Fin x"
  shows "foldl (\<lambda>(p, s) i. let p = p[i := p ! 0 * fpow (Fin r) i] in (p, s + p ! i)) (p, Fin 0) [0..<K + 1] =
    (map (\<lambda>i. Fin (x * r ^ i)) [0..<K + 1], Fin (\<Sum>i<K + 1. x * r ^ i))"
proof -
  let ?f = "\<lambda>(p, s) i. let p = p[i := p ! 0 * fpow (Fin r) i] in (p, s + p ! i)"
  define Inv where "Inv = (\<lambda>k (q, t). length q = K + 1 \<and> q ! 0 = Fin x \<and>
    t = Fin (\<Sum>i<k. x * r ^ i) \<and> (\<forall>j<k. q ! j = Fin (x * r ^ j)))"
  have "Inv (K + 1) (foldl ?f (p, Fin 0) [0..<K + 1])"
  proof (rule foldl_upt_inv)
    show "Inv 0 (p, Fin 0)" using assms by (simp add: Inv_def)
  next
    fix k st assume "k < K + 1" and "Inv k st"
    then show "Inv (Suc k) (?f st k)"
      by (cases st) (auto simp: Inv_def Let_def nth_list_update less_Suc_eq)
  qed
  moreover obtain q t where qt: "foldl ?f (p, Fin 0) [0..<K + 1] = (q, t)" by fastforce
  ultimately have "Inv (K + 1) (q, t)" by simp
  then have "q = map (\<lambda>i. Fin (x * r ^ i)) [0..<K + 1]" "t = Fin (\<Sum>i<K + 1. x * r ^ i)"
    unfolding Inv_def by (auto intro!: nth_equalityI simp del: upt_Suc)
  with qt show ?thesis by blast
qed

definition mm1k_wf :: "MM1KModel \<Rightarrow> bool" where
  "mm1k_wf m \<longleftrightarrow> 0 < q_K m"

definition mm1k_solved :: "MM1KModel \<Rightarrow> real \<Rightarrow> real \<Rightarrow> MM1KModel" where
  "mm1k_solved m l mu =
     (let s = (\<lambda>_. mu); K = q_K m; N = bd_mean l s K; B = bd_busy l s K 1; X = bd_throughput l s K
      in m\<lparr>q_lambda := Fin l, q_mu := Fin mu, q_rho := Fin (l / mu), q_isValid := True,
           q_p := bd_vector l s K, q_sumP := Fin 1, q_avgNumInSystem := Fin N,
           q_throughput := Fin X, q_avgRespTime := Fin (N / X), q_avgServTime := Fin (B / X),
           q_avgWaitTime := Fin ((N - B) / X), q_avgQueueLength := Fin (N - B)\<rparr>)"

lemma MM1K_computeProbabilities_exact:
  assumes "q_rho m = Fin (l / mu)" and "0 < l" and "0 < mu"
  shows "MM1K_computeProbabilities m = m\<lparr>q_p := bd_vector l (\<lambda>_. mu) (q_K m), q_sumP := Fin 1\<rparr>"
proof -
  let ?K = "q_K m" and ?r = "l / mu" and ?T = "bd_total l (\<lambda>_. mu) (q_K m)"
  let ?p = "(if \<not> q_isValid m then (replicate (?K + 1) (Fin 0))[0 := Fin 1]
             else replicate (?K + 1) (Fin 0))[0 := Fin (1 / ?T)]"
  have T: "0 < ?T" using bd_total_pos [of l "\<lambda>_. mu"] assms by simp
  have p0: "(if feq (Fin ?r) (Fin 1) then Fin 1 / float_of_int (int ?K + 1)
      else (Fin 1 - Fin ?r) / (Fin 1 - fpow (Fin ?r) (?K + 1))) = Fin (1 / ?T)"
  proof (cases "l = mu")
    case True
    with assms show ?thesis by (simp add: bd_total_const float_of_int_def)
  next
    case False
    with assms have "?T = (1 - ?r ^ (?K + 1)) / (1 - ?r)" "?r \<noteq> 1" by (auto simp: bd_total_const)
    with T show ?thesis by auto
  qed
  have prob: "1 / ?T * ?r ^ i = bd_prob l (\<lambda>_. mu) ?K i" for i
    by (simp add: bd_prob_def bd_weight_const)
  have "length ?p = ?K + 1" "?p ! 0 = Fin (1 / ?T)" by simp_all
  from MM1K_prob_loop [OF this, of ?r]
  have "foldl (\<lambda>(p, s) i. let p = p[i := p ! 0 * fpow (Fin ?r) i] in (p, s + p ! i)) (?p, Fin 0)
      [0..<?K + 1] = (bd_vector l (\<lambda>_. mu) ?K, Fin 1)"
    unfolding prob sum_lessThan_atMost bd_vector_def
    using bd_prob_sum [of l "\<lambda>_. mu" ?K] assms by simp
  then show ?thesis
    unfolding MM1K_computeProbabilities_def Let_def assms(1) p0 by simp
qed

lemma bd_busy_one:
  assumes "0 < l" and "0 < mu"
  shows "mu * bd_busy l (\<lambda>_. mu) K 1 = bd_throughput l (\<lambda>_. mu) K"
proof -
  have "bd_busy l (\<lambda>_. mu) K 1 = (\<Sum>i<K. bd_prob l (\<lambda>_. mu) K (Suc i))"
  proof -
    have "(\<Sum>i\<le>K. real (min i 1) * x i) = (\<Sum>i<K. x (Suc i))" for x :: "nat \<Rightarrow> real"
      by (induction K) simp_all
    then show ?thesis by (simp add: bd_busy_def)
  qed
  then show ?thesis using bd_flow [of "\<lambda>_. mu" l K] assms by (simp add: sum_distrib_left)
qed

lemma mean_loop:
  assumes "\<And>i. i \<le> K \<Longrightarrow> p ! i = Fin (x i)"
  shows "foldl (\<lambda>t i. t + float_of_int (int i) * p ! i) (Fin 0) [0..<K + 1] =
    Fin (\<Sum>i\<le>K. real i * x i)"
proof -
  have "foldl (\<lambda>t i. t + float_of_int (int i) * p ! i) (Fin 0) [0..<k] = Fin (\<Sum>i<k. real i * x i)"
    if "k \<le> K + 1" for k
    using that assms by (induction k) (simp_all add: float_of_int_def)
  from this [of "K + 1"] show ?thesis unfolding sum_lessThan_atMost by simp
qed

lemma MM1K_Solve_exact:
  assumes K: "l / mu < real (q_K m)" and l: "0 < l" and mu: "0 < mu"
  shows "MM1K_Solve m (Fin l) (Fin mu) = Some (mm1k_solved m l mu)"
proof -
  let ?K = "q_K m" and ?s = "\<lambda>_::nat. mu"
  have K0: "0 < ?K" using K l mu by (metis divide_pos_pos of_nat_0_less_iff order_less_trans)
  define m1 where "m1 = m\<lparr>q_lambda := Fin l, q_mu := Fin mu, q_rho := Fin (l / mu), q_isValid := True\<rparr>"
  have rho: "MM1K_ComputeRho (m\<lparr>q_lambda := Fin l, q_mu := Fin mu\<rparr>) = Fin (l / mu)"
    using mu by (simp add: MM1K_ComputeRho_def)
  have "\<not> l / mu < 0" "\<not> real ?K \<le> l / mu" using l mu K by (simp_all add: not_less not_le)
  with l mu have "MM1K_Solve m (Fin l) (Fin mu) = Some (MM1K_computeStatistics m1)"
    by (simp add: MM1K_Solve_def QueueModel_Solve_def Let_def rho GetRhoMax_def
        float_of_int_def m1_def del: divide_less_0_iff)
  moreover have "MM1K_computeProbabilities m1 = m1\<lparr>q_p := bd_vector l ?s ?K, q_sumP := Fin 1\<rparr>"
    using MM1K_computeProbabilities_exact [of m1 l mu] l mu by (simp add: m1_def)
  moreover have "foldl (\<lambda>t i. t + float_of_int (int i) * bd_vector l ?s ?K ! i) (Fin 0) [0..<?K + 1] =
      Fin (bd_mean l ?s ?K)"
    using mean_loop [of ?K "bd_vector l ?s ?K" "bd_prob l ?s ?K"] by (simp add: bd_mean_def)
  moreover have X: "0 < bd_throughput l ?s ?K" using bd_throughput_pos [of l ?s] l mu K0 by simp
  moreover have B: "1 / mu = bd_busy l ?s ?K 1 / bd_throughput l ?s ?K"
    using bd_busy_one [OF l mu, of ?K] X mu by (auto simp: field_simps)
  moreover have "0 \<le> (bd_mean l ?s ?K - bd_busy l ?s ?K 1) / bd_throughput l ?s ?K"
    using bd_busy_le_mean [of l ?s ?K 1] l mu X by simp
  moreover have "bd_throughput l ?s ?K * (bd_mean l ?s ?K / bd_throughput l ?s ?K -
      bd_busy l ?s ?K 1 / bd_throughput l ?s ?K) = bd_mean l ?s ?K - bd_busy l ?s ?K 1"
    using X by (simp add: right_diff_distrib)
  ultimately show ?thesis
    using mu by (simp add: MM1K_computeStatistics_def Let_def m1_def mm1k_solved_def diff_divide_distrib
        bd_throughput_def [symmetric] del: upt_Suc)
qed

section \<open>The contract of a queue solver\<close>

text \<open>What the queue analyzer relies on, whichever model it solves: a solve returns, and the
  statistics it leaves are those of the birth-death distribution.\<close>

locale queue_solver =
  fixes solve :: "'m \<Rightarrow> real \<Rightarrow> 'm option"
    and ok :: "'m \<Rightarrow> real \<Rightarrow> bool"
    and rate :: "'m \<Rightarrow> nat \<Rightarrow> real"
    and cap servers :: "'m \<Rightarrow> nat"
    and probs :: "'m \<Rightarrow> gofloat list"
    and numInSystem respTime servTime waitTime queueLength throughput :: "'m \<Rightarrow> gofloat"
  assumes ok_inputs: "ok m l \<Longrightarrow> 0 < l \<and> 0 < cap m \<and> 0 < rate m j"
    and solved: "ok m l \<Longrightarrow> \<exists>m'. solve m l = Some m' \<and> probs m' = bd_vector l (rate m) (cap m) \<and>
      numInSystem m' = Fin (bd_mean l (rate m) (cap m)) \<and>
      throughput m' = Fin (bd_throughput l (rate m) (cap m)) \<and>
      respTime m' = numInSystem m' / throughput m' \<and>
      servTime m' = Fin (bd_busy l (rate m) (cap m) (servers m)) / throughput m' \<and>
      waitTime m' = respTime m' - servTime m' \<and> queueLength m' = throughput m' * waitTime m'"
begin

text \<open>The probabilities sum to one and balance the flows between neighbouring states.\<close>

lemma distribution:
  assumes "ok m l"
  shows "\<exists>m' p. solve m l = Some m' \<and> probs m' = map Fin p \<and> length p = cap m + 1 \<and>
    sum_list p = 1 \<and> (\<forall>x\<in>set p. 0 < x) \<and> (\<forall>i<cap m. rate m i * p ! Suc i = l * p ! i)"
proof -
  let ?p = "map (bd_prob l (rate m) (cap m)) [0..<cap m + 1]"
  have inp: "0 \<le> l" "0 < l" "0 < cap m" "\<And>j. 0 < rate m j"
    using ok_inputs [OF assms] by (simp_all add: less_imp_le)
  have "sum_list ?p = (\<Sum>i<cap m + 1. bd_prob l (rate m) (cap m) i)"
    by (simp only: sum_list_distinct_conv_sum_set distinct_upt set_upt atLeast0LessThan)
  then have "sum_list ?p = 1"
    unfolding sum_lessThan_atMost using bd_prob_sum [OF inp(1,4)] by simp
  moreover have "\<forall>x\<in>set ?p. 0 < x" using bd_prob_pos [of l "rate m"] inp by auto
  moreover have "\<forall>i<cap m. rate m i * ?p ! Suc i = l * ?p ! i"
  proof (intro allI impI)
    fix i assume "i < cap m"
    moreover have "rate m i \<noteq> 0" using inp(4) [of i] by simp
    ultimately show "rate m i * ?p ! Suc i = l * ?p ! i"
      using bd_balance [of "rate m" i l "cap m"] by (simp del: upt_Suc)
  qed
  moreover obtain m' where "solve m l = Some m'" "probs m' = map Fin ?p"
    using solved [OF assms] by (auto simp: bd_vector_def comp_def simp del: upt_Suc)
  moreover have "length ?p = cap m + 1" by simp
  ultimately show ?thesis by blast
qed

text \<open>Little's law for the system and for the queue, and the flow through the servers.\<close>

lemma little:
  assumes "ok m l"
  shows "\<exists>m' N X T S W. solve m l = Some m' \<and> numInSystem m' = Fin N \<and> throughput m' = Fin X \<and>
    respTime m' = Fin T \<and> servTime m' = Fin S \<and> waitTime m' = Fin W \<and>
    0 < X \<and> X \<le> l \<and> N = X * T \<and> queueLength m' = Fin (X * W) \<and> T = W + S \<and> 0 \<le> W \<and>
    X * S = bd_busy l (rate m) (cap m) (servers m) \<and>
    X = (\<Sum>i<cap m. rate m i * bd_prob l (rate m) (cap m) (Suc i))"
proof -
  let ?N = "bd_mean l (rate m) (cap m)" and ?B = "bd_busy l (rate m) (cap m) (servers m)"
    and ?X = "bd_throughput l (rate m) (cap m)"
  have inp: "0 \<le> l" "0 < l" "0 < cap m" "\<And>j. 0 < rate m j"
    using ok_inputs [OF assms] by (simp_all add: less_imp_le)
  have X: "0 < ?X" using bd_throughput_pos [of l "rate m"] inp by blast
  have "?X \<le> l"
    using bd_prob_nonneg [of l "rate m" "cap m" "cap m"] inp by (simp add: bd_throughput_def)
  moreover have "0 \<le> ?N / ?X - ?B / ?X"
    using X bd_busy_le_mean [of l "rate m" "cap m" "servers m"] inp by (simp flip: diff_divide_distrib)
  moreover have "?X = (\<Sum>i<cap m. rate m i * bd_prob l (rate m) (cap m) (Suc i))"
    using bd_flow [of "rate m" l] inp by simp
  moreover obtain m' where "solve m l = Some m'" "numInSystem m' = Fin ?N" "throughput m' = Fin ?X"
    "respTime m' = Fin (?N / ?X)" "servTime m' = Fin (?B / ?X)"
    "waitTime m' = Fin (?N / ?X - ?B / ?X)" "queueLength m' = Fin (?X * (?N / ?X - ?B / ?X))"
    using solved [OF assms] X by auto
  ultimately show ?thesis using X by auto
qed

end

interpretation mm1k: queue_solver "\<lambda>(m, mu) l. map_option (\<lambda>m'. (m', mu)) (MM1K_Solve m (Fin l) (Fin mu))"
  "\<lambda>(m, mu) l. 0 < l \<and> 0 < mu \<and> l / mu < real (q_K m)" "\<lambda>(m, mu) _. mu" "\<lambda>(m, _). q_K m" "\<lambda>_. 1"
  "\<lambda>(m, _). q_p m" "\<lambda>(m, _). q_avgNumInSystem m" "\<lambda>(m, _). q_avgRespTime m"
  "\<lambda>(m, _). q_avgServTime m" "\<lambda>(m, _). q_avgWaitTime m" "\<lambda>(m, _). q_avgQueueLength m"
  "\<lambda>(m, _). q_throughput m"
proof (unfold_locales, goal_cases)
  case (1 mm l j)
  then show ?case by (cases mm) (auto simp: field_simps split: if_splits intro!: Suc_leI gr0I)
next
  case (2 mm l)
  obtain m mu where mm: "mm = (m, mu)" by fastforce
  with 2 have a: "0 < l" "0 < mu" "l / mu < real (q_K m)" by auto
  then have K: "0 < q_K m" by (metis divide_pos_pos of_nat_0_less_iff order_less_trans)
  have X: "0 < bd_throughput l (\<lambda>_. mu) (q_K m)" using bd_throughput_pos [of l "\<lambda>_. mu"] a K by simp
  then show ?case
    using MM1K_Solve_exact [of l mu m] a mm
    by (simp add: mm1k_solved_def Let_def diff_divide_distrib right_diff_distrib)
qed

interpretation sd: queue_solver "\<lambda>m l. SD_Solve m (Fin l) (Fin 1)"
  "\<lambda>m l. sd_wf m \<and> 2 \<le> q_K m \<and> 0 < l" "\<lambda>m. rate_fun (q_servRate m)" q_K
  "\<lambda>m. length (q_servRate m)" q_p q_avgNumInSystem q_avgRespTime q_avgServTime q_avgWaitTime
  q_avgQueueLength q_throughput
proof (unfold_locales, goal_cases)
  case (1 m l j)
  then show ?case by (auto simp: sd_wf_def rates_ok_pos)
next
  case (2 m l)
  then have "0 < bd_throughput l (rate_fun (q_servRate m)) (q_K m)"
    using bd_throughput_pos [of l "rate_fun (q_servRate m)" "q_K m"] by (auto simp: sd_wf_def rates_ok_pos)
  with 2 show ?case
    using SD_Solve_exact [of m l 1]
    by (simp add: sd_solved_def Let_def diff_divide_distrib right_diff_distrib)
qed

section \<open>Properties\<close>

text \<open>C8: solving the state-dependent model returns, from any earlier state of the model, and its
  state probabilities are the stationary distribution of the queue: they are positive, sum to one
  and balance the flow between each two neighbouring states, although the computation rescales
  the vector whenever an entry or the sum overflows. Solving twice is solving once with the last
  arrival rate.\<close>

theorem sd_solve_distribution:
  assumes "sd_wf m" and "2 \<le> q_K m" and "0 < l" and "0 < l'"
  shows "\<exists>m' p. SD_Solve m (Fin l) (Fin 1) = Some m' \<and> q_isValid m' \<and> q_p m' = map Fin p \<and>
    length p = q_K m + 1 \<and> sum_list p = 1 \<and> (\<forall>x\<in>set p. 0 < x) \<and>
    (\<forall>i<q_K m. rate_fun (q_servRate m) i * p ! Suc i = l * p ! i) \<and>
    SD_Solve m' (Fin l') (Fin 1) = SD_Solve m (Fin l') (Fin 1)"
proof -
  have "SD_Solve m (Fin l) (Fin 1) = Some (sd_solved m l (Fin 1))" "q_isValid (sd_solved m l (Fin 1))"
    using SD_Solve_exact assms by (simp_all add: sd_solved_def Let_def)
  moreover have "SD_Solve (sd_solved m l (Fin 1)) (Fin l') (Fin 1) = SD_Solve m (Fin l') (Fin 1)"
    using assms by (simp add: SD_Solve_exact sd_solved_wf sd_solved_again)
  ultimately show ?thesis using sd.distribution [of m l] assms by auto
qed

definition sample_model :: "MM1ModelStateDependent" where
  "sample_model = NewMM1ModelStateDependent 3 [Fin 1, Fin (3 / 2)]"

lemma sample_model_wf: "sd_wf sample_model"
  unfolding sample_model_def by (rule new_sd_wf) (simp_all add: rates_ok_def)

theorem sd_solve_distribution_witness:
  "\<exists>m' p. SD_Solve sample_model (Fin (1 / 2)) (Fin 1) = Some m' \<and> q_isValid m' \<and>
    q_p m' = map Fin p \<and> length p = 4 \<and> sum_list p = 1 \<and>
    SD_Solve m' (Fin 1) (Fin 1) = SD_Solve sample_model (Fin 1) (Fin 1)"
proof -
  have "q_K sample_model = 3" by (simp add: sample_model_def)
  with sd_solve_distribution [of sample_model "1 / 2" 1] sample_model_wf show ?thesis by auto
qed

text \<open>The statistics of the state-dependent model obey Little's law. The mean number in the
  system is throughput times response time, the queue length is throughput times waiting time,
  the response time is waiting plus service time, the throughput is the mean service rate (and at
  most the arrival rate), and the mean number in service is the mean of the number of requests
  cut at the batch size. The clamp of the waiting time at zero never acts.\<close>

lemma sd_solve_little:
  assumes "sd_wf m" and "2 \<le> q_K m" and "0 < l"
  shows "\<exists>m' N X T S W. SD_Solve m (Fin l) (Fin 1) = Some m' \<and>
    q_avgNumInSystem m' = Fin N \<and> q_throughput m' = Fin X \<and> q_avgRespTime m' = Fin T \<and>
    q_avgServTime m' = Fin S \<and> q_avgWaitTime m' = Fin W \<and> 0 < X \<and> X \<le> l \<and> N = X * T \<and>
    q_avgQueueLength m' = Fin (X * W) \<and> T = W + S \<and> 0 \<le> W \<and>
    q_avgNumInServers m' = Fin (X * S) \<and>
    X * S = (\<Sum>i\<le>q_K m. real (min i (length (q_servRate m))) * real_of (q_p m' ! i)) \<and>
    X = (\<Sum>i<q_K m. rate_fun (q_servRate m) i * real_of (q_p m' ! Suc i))"
proof -
  let ?m = "sd_solved m l (Fin 1)" and ?s = "rate_fun (q_servRate m)"
  have ex: "SD_Solve m (Fin l) (Fin 1) = Some ?m" using SD_Solve_exact assms by simp
  have p: "i \<le> q_K m \<Longrightarrow> real_of (q_p ?m ! i) = bd_prob l ?s (q_K m) i" for i
    by (simp add: sd_solved_def Let_def)
  have B: "q_avgNumInServers ?m = Fin (bd_busy l ?s (q_K m) (length (q_servRate m)))"
    by (simp add: sd_solved_def Let_def)
  have "bd_busy l ?s (q_K m) (length (q_servRate m)) =
      (\<Sum>i\<le>q_K m. real (min i (length (q_servRate m))) * real_of (q_p ?m ! i))"
    unfolding bd_busy_def by (intro sum.cong) (simp_all add: p)
  moreover have "(\<Sum>i<q_K m. ?s i * bd_prob l ?s (q_K m) (Suc i)) =
      (\<Sum>i<q_K m. ?s i * real_of (q_p ?m ! Suc i))"
    by (intro sum.cong) (simp_all add: p)
  ultimately show ?thesis using sd.little [of m l] assms ex B by auto
qed

lemma sd_solve_little_witness:
  "\<exists>m' N X T. SD_Solve sample_model (Fin (1 / 2)) (Fin 1) = Some m' \<and>
    q_avgNumInSystem m' = Fin N \<and> q_throughput m' = Fin X \<and> q_avgRespTime m' = Fin T \<and> N = X * T"
proof -
  have "q_K sample_model = 3" by (simp add: sample_model_def)
  with sd_solve_little [of sample_model "1 / 2"] sample_model_wf show ?thesis by auto
qed



text \<open>A state-dependent model with room for a single request is never valid. Its utilization
  is computed from the probabilities of the previous solve, which are still zero, so the first
  solve sees utilization one, the limit of the model, refuses, and leaves the probabilities as
  they were; no later arrival rate is accepted either.\<close>

lemma sd_single_slot_never_valid:
  "\<exists>m. ofoldl (\<lambda>m (l, mu). SD_Solve m l mu) (NewMM1ModelStateDependent 1 sr) inputs = Some m \<and>
    \<not> q_isValid m"
proof -
  define Inv where "Inv = (\<lambda>m :: MM1ModelStateDependent.
    q_K m = 1 \<and> q_p m = [Fin 0, Fin 0] \<and> \<not> q_isValid m)"
  have step: "Inv m \<Longrightarrow> \<exists>m'. SD_Solve m l mu = Some m' \<and> Inv m'" for m l mu
    by (auto simp: Inv_def SD_Solve_def QueueModel_Solve_def Let_def SD_ComputeRho_def GetRhoMax_def
        float_of_int_def)
  have "Inv m \<Longrightarrow> \<exists>m'. ofoldl (\<lambda>m (l, mu). SD_Solve m l mu) m inputs = Some m' \<and> Inv m'" for m
  proof (induction inputs arbitrary: m)
    case (Cons x xs)
    obtain m' where "SD_Solve m (fst x) (snd x) = Some m'" "Inv m'" using step Cons.prems by blast
    with Cons.IH [of m'] show ?case by (auto simp: case_prod_beta)
  qed simp
  moreover have "Inv (NewMM1ModelStateDependent 1 sr)"
    by (simp add: Inv_def)
      (simp add: NewMM1ModelStateDependent_def NewMM1KModel_def MM1KModel.defs
        MM1ModelStateDependent.defs numeral_2_eq_2)
  ultimately obtain m where
    "ofoldl (\<lambda>m (l, mu). SD_Solve m l mu) (NewMM1ModelStateDependent 1 sr) inputs = Some m" "Inv m"
    by blast
  then show ?thesis unfolding Inv_def by blast
qed

end
