(* ===== verification/Queue_Analyzer.thy ===== *)
theory Queue_Analyzer
  imports Queue_Model
begin

text \<open>
  The queue analyzer of \<^verbatim>\<open>pkg/analyzer\<close> (\<^verbatim>\<open>queueanalyzer.go\<close> and \<^verbatim>\<open>utils.go\<close>): it builds the
  state-dependent queueing model of an inference server from the prefill and decode parameters,
  evaluates it at a request rate (\<open>Analyze\<close>) and searches the largest rate that meets the
  latency targets (\<open>Size\<close>).

  The package keeps the model it evaluates in global variables; here the model is threaded
  through the calls. A result \<open>None\<close> is a call that does not return; a returned value is an
  error (\<open>Inl\<close>) or a result (\<open>Inr\<close>), beside the updated model. Pointers that may be nil are
  options; \<open>check\<close> rejects nil parameters before they are dereferenced.
\<close>

section \<open>Data\<close>

definition Epsilon :: gofloat where "Epsilon = Fin (1 / 1000)"

definition StabilitySafetyFraction :: gofloat where "StabilitySafetyFraction = Fin (1 / 10)"

definition epsilon :: gofloat where "epsilon = Fin (1 / 1000000)"

definition maxIterations :: nat where "maxIterations = 100"

record PrefillParms =
  Gamma :: gofloat
  Delta :: gofloat

record DecodeParms =
  Alpha :: gofloat
  Beta :: gofloat

record ServiceParms =
  sp_Prefill :: "PrefillParms option"
  sp_Decode :: "DecodeParms option"

record Configuration =
  qc_MaxBatchSize :: int
  qc_MaxQueueSize :: int
  qc_ServiceParms :: "ServiceParms option"

record RequestSize =
  AvgInputTokens :: int
  AvgOutputTokens :: int

record RateRange =
  rr_Min :: gofloat
  rr_Max :: gofloat

record AnalysisMetrics =
  am_Throughput :: gofloat
  am_AvgRespTime :: gofloat
  am_AvgWaitTime :: gofloat
  am_AvgNumInServ :: gofloat
  am_AvgPrefillTime :: gofloat
  am_AvgTokenTime :: gofloat
  am_MaxRate :: gofloat
  am_Rho :: gofloat

record TargetPerf =
  TargetTTFT :: gofloat
  TargetITL :: gofloat
  TargetTPS :: gofloat

record TargetRate =
  RateTargetTTFT :: gofloat
  RateTargetITL :: gofloat
  RateTargetTPS :: gofloat

record QueueAnalyzer =
  qa_MaxBatchSize :: int
  qa_MaxQueueSize :: int
  qa_ServiceParms :: ServiceParms
  qa_RequestSize :: RequestSize
  qa_Model :: MM1ModelStateDependent
  qa_RateRange :: RateRange

type_synonym 'a fallible = "message + 'a"

section \<open>Formatted values\<close>

definition PrefillParms_String :: "PrefillParms option \<Rightarrow> message" where
  "PrefillParms_String p = (case p of
     None \<Rightarrow> sprintf ''<nil>'' []
   | Some p \<Rightarrow> sprintf ''{gamma=%.3f, delta=%.5f}'' [FFloat (Gamma p), FFloat (Delta p)])"

definition DecodeParms_String :: "DecodeParms option \<Rightarrow> message" where
  "DecodeParms_String p = (case p of
     None \<Rightarrow> sprintf ''<nil>'' []
   | Some p \<Rightarrow> sprintf ''{alpha=%.3f, beta=%.5f}'' [FFloat (Alpha p), FFloat (Beta p)])"

definition ServiceParms_String :: "ServiceParms option \<Rightarrow> message" where
  "ServiceParms_String sp = (case sp of
     None \<Rightarrow> sprintf ''<nil>'' []
   | Some sp \<Rightarrow> sprintf ''{prefillParms=%s, decodeParms=%s}''
       [FMsg (PrefillParms_String (sp_Prefill sp)), FMsg (DecodeParms_String (sp_Decode sp))])"

definition Configuration_String :: "Configuration \<Rightarrow> message" where
  "Configuration_String c = sprintf ''{maxBatch=%d, maxQueue=%d, servParms:%s}''
     [FInt (qc_MaxBatchSize c), FInt (qc_MaxQueueSize c),
      FMsg (ServiceParms_String (qc_ServiceParms c))]"

definition RequestSize_String :: "RequestSize \<Rightarrow> message" where
  "RequestSize_String rq = sprintf ''{inTokens=%d, outTokens=%d}''
     [FInt (AvgInputTokens rq), FInt (AvgOutputTokens rq)]"

definition RateRange_String :: "RateRange \<Rightarrow> message" where
  "RateRange_String rr = sprintf ''[%.3f, %.3f]'' [FFloat (rr_Min rr), FFloat (rr_Max rr)]"

definition TargetPerf_String :: "TargetPerf \<Rightarrow> message" where
  "TargetPerf_String tp = sprintf ''{TTFT=%.3f, ITL=%.3f, TPS=%.3f}''
     [FFloat (TargetTTFT tp), FFloat (TargetITL tp), FFloat (TargetTPS tp)]"

definition QueueModel_String :: "'a QueueModel_scheme \<Rightarrow> message" where
  "QueueModel_String m =
     sprintf (''isValid=%v; lambda=%v; mu=%v; rho=%v; '' @
        (if q_isValid m then ''T=%v; W=%v; X=%v; N=%v; Q=%v; '' else ''''))
       ([FBool (q_isValid m), FFloat (q_lambda m), FFloat (q_mu m), FFloat (q_rho m)] @
        (if q_isValid m
         then [FFloat (q_avgRespTime m), FFloat (q_avgWaitTime m), FFloat (q_avgServTime m),
               FFloat (q_avgNumInSystem m), FFloat (q_avgQueueLength m)] else []))"

definition MM1K_String :: "'a MM1KModel_scheme \<Rightarrow> message" where
  "MM1K_String m = sprintf ''MM1KModel: %stput=%v; K=%d; sumP=%v; ''
     [FMsg (QueueModel_String m), FFloat (q_throughput m), FInt (int (q_K m)), FFloat (q_sumP m)]"

definition SD_String :: "'a MM1ModelStateDependent_scheme \<Rightarrow> message" where
  "SD_String m = sprintf ''MM1ModelStateDependent: %s'' [FMsg (MM1K_String m)]"

section \<open>Building the model\<close>

definition Configuration_check :: "Configuration \<Rightarrow> message option" where
  "Configuration_check c =
     (if qc_MaxBatchSize c \<le> 0 \<or> qc_MaxQueueSize c < 0 \<or> qc_ServiceParms c = None \<or>
         sp_Prefill (the (qc_ServiceParms c)) = None \<or> sp_Decode (the (qc_ServiceParms c)) = None
      then Some (sprintf ''invalid configuration %s'' [FMsg (Configuration_String c)])
      else None)"

definition RequestSize_check :: "RequestSize \<Rightarrow> message option" where
  "RequestSize_check rq =
     (if AvgInputTokens rq < 0 \<or> AvgOutputTokens rq < 1
      then Some (sprintf ''invalid request size %s'' [FMsg (RequestSize_String rq)]) else None)"

definition TargetPerf_check :: "TargetPerf \<Rightarrow> message option" where
  "TargetPerf_check tp =
     (if TargetITL tp < Fin 0 \<or> TargetTTFT tp < Fin 0 \<or> TargetTPS tp < Fin 0
      then Some (sprintf ''invalid target data values %s'' [FMsg (TargetPerf_String tp)]) else None)"

definition PrefillTime :: "PrefillParms \<Rightarrow> int \<Rightarrow> gofloat \<Rightarrow> gofloat" where
  "PrefillTime p avgInputTokens batchSize =
     (if avgInputTokens = 0 then Fin 0
      else Gamma p + Delta p * float_of_int avgInputTokens * batchSize)"

definition DecodeTime :: "DecodeParms \<Rightarrow> gofloat \<Rightarrow> gofloat" where
  "DecodeTime p batchSize = Alpha p + Beta p * batchSize"

definition servRate_at :: "ServiceParms \<Rightarrow> RequestSize \<Rightarrow> int \<Rightarrow> gofloat" where
  "servRate_at parms requestSize n =
     (let prefillTime = PrefillTime (the (sp_Prefill parms)) (AvgInputTokens requestSize) (float_of_int n);
          numDecode = AvgOutputTokens requestSize - 1;
          numDecode = (if AvgInputTokens requestSize = 0 \<and> AvgOutputTokens requestSize = 1
                       then 1 else numDecode);
          decodeTime = float_of_int numDecode * DecodeTime (the (sp_Decode parms)) (float_of_int n)
      in float_of_int n / (prefillTime + decodeTime))"

definition BuildModel :: "Configuration \<Rightarrow> RequestSize \<Rightarrow> QueueAnalyzer" where
  "BuildModel qConfig requestSize =
     (let parms = the (qc_ServiceParms qConfig);
          N = qc_MaxBatchSize qConfig;
          servRate = map (servRate_at parms requestSize) [1..N];
          lambdaMin = servRate ! 0 * Epsilon;
          lambdaMax = servRate ! nat (N - 1) * (Fin 1 - Epsilon);
          occupancyUpperBound = qc_MaxQueueSize qConfig + N
      in \<lparr>qa_MaxBatchSize = N, qa_MaxQueueSize = qc_MaxQueueSize qConfig, qa_ServiceParms = parms,
          qa_RequestSize = requestSize,
          qa_Model = NewMM1ModelStateDependent (nat occupancyUpperBound) servRate,
          qa_RateRange = \<lparr>rr_Min = lambdaMin * Fin 1000, rr_Max = lambdaMax * Fin 1000\<rparr>\<rparr>)"

definition NewQueueAnalyzer :: "Configuration \<Rightarrow> RequestSize \<Rightarrow> QueueAnalyzer fallible" where
  "NewQueueAnalyzer qConfig requestSize =
     (case Configuration_check qConfig of
        Some err \<Rightarrow> Inl err
      | None \<Rightarrow> (case RequestSize_check requestSize of
          Some err \<Rightarrow> Inl err
        | None \<Rightarrow> Inr (BuildModel qConfig requestSize)))"

section \<open>Evaluating the model\<close>

definition EffectiveConcurrency :: "gofloat \<Rightarrow> ServiceParms \<Rightarrow> RequestSize \<Rightarrow> int \<Rightarrow> gofloat" where
  "EffectiveConcurrency avgServiceTime serviceParms requestSize maxBatchSize =
     (let prefill = the (sp_Prefill serviceParms); decode = the (sp_Decode serviceParms);
          tokens = float_of_int (AvgOutputTokens requestSize - 1);
          numerator = avgServiceTime - (Gamma prefill + Alpha decode * tokens);
          denominator = Delta prefill * float_of_int (AvgInputTokens requestSize) + Beta decode * tokens;
          n = numerator / denominator
      in fmin (fmax n (Fin 0)) (float_of_int maxBatchSize))"

definition Analyze :: "QueueAnalyzer \<Rightarrow> gofloat \<Rightarrow> (QueueAnalyzer \<times> AnalysisMetrics fallible) option" where
  "Analyze qa requestRate =
     (if requestRate \<le> Fin 0 then
        Some (qa, Inl (sprintf ''invalid request rate %v'' [FFloat requestRate]))
      else if rr_Max (qa_RateRange qa) < requestRate then
        Some (qa, Inl (sprintf ''rate=%v, max allowed rate=%v''
                        [FFloat requestRate, FFloat (rr_Max (qa_RateRange qa))]))
      else Option.bind (SD_Solve (qa_Model qa) (requestRate / Fin 1000) (Fin 1)) (\<lambda>model.
        let qa = qa\<lparr>qa_Model := model\<rparr>
        in if \<not> q_isValid model then
             Some (qa, Inl (sprintf ''invalid model %s'' [FMsg (SD_String model)]))
           else
             let avgNumInServ = q_avgNumInServers model;
                 effConc = EffectiveConcurrency (q_avgServTime model) (qa_ServiceParms qa)
                             (qa_RequestSize qa) (qa_MaxBatchSize qa);
                 prefillTime = PrefillTime (the (sp_Prefill (qa_ServiceParms qa)))
                                 (AvgInputTokens (qa_RequestSize qa)) effConc;
                 tokenTime = DecodeTime (the (sp_Decode (qa_ServiceParms qa))) effConc;
                 rho = avgNumInServ / float_of_int (qa_MaxBatchSize qa);
                 rho = fmin (fmax rho (Fin 0)) (Fin 1)
             in Some (qa, Inr
                  \<lparr>am_Throughput = q_throughput model * Fin 1000, am_AvgRespTime = q_avgRespTime model,
                   am_AvgWaitTime = q_avgWaitTime model, am_AvgNumInServ = avgNumInServ,
                   am_AvgPrefillTime = prefillTime, am_AvgTokenTime = tokenTime,
                   am_MaxRate = rr_Max (qa_RateRange qa), am_Rho = rho\<rparr>)))"

text \<open>The functions the binary search evaluates. They solve the shared model and read a
  statistic of it.\<close>

type_synonym eval_fun =
  "MM1ModelStateDependent \<Rightarrow> gofloat \<Rightarrow> (MM1ModelStateDependent \<times> gofloat fallible) option"

definition eval_model ::
  "(MM1ModelStateDependent \<Rightarrow> gofloat) \<Rightarrow> eval_fun" where
  "eval_model stat Model x =
     Option.bind (SD_Solve Model x (Fin 1)) (\<lambda>Model.
       if \<not> q_isValid Model then Some (Model, Inl (sprintf ''invalid model %s'' [FMsg (SD_String Model)]))
       else Some (Model, Inr (stat Model)))"

definition EvalTTFT :: "ServiceParms \<Rightarrow> RequestSize \<Rightarrow> int \<Rightarrow> eval_fun" where
  "EvalTTFT evalServiceParms evalRequestSize evalMaxBatchSize =
     eval_model (\<lambda>Model.
       let avgWaitTime = q_avgWaitTime Model;
           effConc = EffectiveConcurrency (q_avgServTime Model) evalServiceParms evalRequestSize evalMaxBatchSize
       in avgWaitTime + PrefillTime (the (sp_Prefill evalServiceParms)) (AvgInputTokens evalRequestSize) effConc)"

definition EvalITL :: "ServiceParms \<Rightarrow> RequestSize \<Rightarrow> int \<Rightarrow> eval_fun" where
  "EvalITL evalServiceParms evalRequestSize evalMaxBatchSize =
     eval_model (\<lambda>Model.
       let effConc = EffectiveConcurrency (q_avgServTime Model) evalServiceParms evalRequestSize evalMaxBatchSize
       in DecodeTime (the (sp_Decode evalServiceParms)) effConc)"

definition EvalServTime :: eval_fun where
  "EvalServTime = eval_model q_avgServTime"

definition EvalWaitingTime :: eval_fun where
  "EvalWaitingTime = eval_model q_avgWaitTime"

section \<open>Binary search\<close>

definition WithinTolerance :: "gofloat \<Rightarrow> gofloat \<Rightarrow> gofloat \<Rightarrow> bool" where
  "WithinTolerance x value tolerance =
     (if feq x value then True
      else if feq value (Fin 0) \<or> tolerance < Fin 0 then False
      else fabs ((x - value) / value) \<le> tolerance)"

definition eval_error :: "message \<Rightarrow> message" where
  "eval_error err = sprintf ''invalid function evaluation: %v'' [FMsg err]"

fun search_loop ::
  "('m \<Rightarrow> gofloat \<Rightarrow> ('m \<times> gofloat fallible) option) \<Rightarrow> gofloat \<Rightarrow> bool \<Rightarrow> nat \<Rightarrow> 'm \<Rightarrow>
   gofloat \<Rightarrow> gofloat \<Rightarrow> gofloat \<Rightarrow> ('m \<times> (gofloat \<times> int) fallible) option" where
  "search_loop eval yTarget increasing 0 m xMin xMax xStar = Some (m, Inr (xStar, 0))"
| "search_loop eval yTarget increasing (Suc k) m xMin xMax _ =
     (let xStar = Fin (1 / 2) * (xMin + xMax)
      in case eval m xStar of
           None \<Rightarrow> None
         | Some (m, Inl err) \<Rightarrow> Some (m, Inl (eval_error err))
         | Some (m, Inr yStar) \<Rightarrow>
             if WithinTolerance yStar yTarget epsilon then Some (m, Inr (xStar, 0))
             else if increasing \<and> yTarget < yStar \<or> \<not> increasing \<and> yStar < yTarget
             then search_loop eval yTarget increasing k m xMin xStar xStar
             else search_loop eval yTarget increasing k m xStar xMax xStar)"

definition BinarySearch ::
  "('m \<Rightarrow> gofloat \<Rightarrow> ('m \<times> gofloat fallible) option) \<Rightarrow> 'm \<Rightarrow> gofloat \<Rightarrow> gofloat \<Rightarrow> gofloat \<Rightarrow>
   ('m \<times> (gofloat \<times> int) fallible) option" where
  "BinarySearch eval m xMin xMax yTarget =
     (if xMax < xMin then
        Some (m, Inl (sprintf ''invalid range [%v, %v]'' [FFloat xMin, FFloat xMax]))
      else case eval m xMin of
        None \<Rightarrow> None
      | Some (m, Inl err) \<Rightarrow> Some (m, Inl (eval_error err))
      | Some (m, Inr y0) \<Rightarrow>
          if WithinTolerance y0 yTarget epsilon then Some (m, Inr (xMin, 0))
          else case eval m xMax of
            None \<Rightarrow> None
          | Some (m, Inl err) \<Rightarrow> Some (m, Inl (eval_error err))
          | Some (m, Inr y1) \<Rightarrow>
              if WithinTolerance y1 yTarget epsilon then Some (m, Inr (xMax, 0))
              else
                let increasing = y0 < y1
                in if increasing \<and> yTarget < y0 \<or> \<not> increasing \<and> y0 < yTarget
                   then Some (m, Inr (xMin, -1))
                   else if increasing \<and> y1 < yTarget \<or> \<not> increasing \<and> yTarget < y1
                   then Some (m, Inr (xMax, 1))
                   else search_loop eval yTarget increasing maxIterations m xMin xMax (Fin 0))"

section \<open>Sizing\<close>

text \<open>One of the two searches of \<^verbatim>\<open>Size\<close>: the range end if there is no target, an error if the
  search fails or the target is below the region.\<close>

definition size_search ::
  "string \<Rightarrow> eval_fun \<Rightarrow> QueueAnalyzer \<Rightarrow> gofloat \<Rightarrow> gofloat \<Rightarrow> gofloat \<Rightarrow>
   (QueueAnalyzer \<times> gofloat fallible) option" where
  "size_search fmt eval qa lambdaMin lambdaMax target =
     (if Fin 0 < target then
        case BinarySearch eval (qa_Model qa) lambdaMin lambdaMax target of
          None \<Rightarrow> None
        | Some (model, Inl err) \<Rightarrow>
            Some (qa\<lparr>qa_Model := model\<rparr>, Inl (sprintf fmt
              [FFloat target, FMsg (RateRange_String (qa_RateRange qa)), FInt 0, FMsg err]))
        | Some (model, Inr (lambdaStar, ind)) \<Rightarrow>
            if ind < 0 then
              Some (qa\<lparr>qa_Model := model\<rparr>, Inl (sprintf fmt
                [FFloat target, FMsg (RateRange_String (qa_RateRange qa)), FInt ind,
                 FMsg (sprintf ''target is below the bounded region'' [])]))
            else Some (qa\<lparr>qa_Model := model\<rparr>, Inr lambdaStar)
      else Some (qa, Inr lambdaMax))"

definition Size ::
  "QueueAnalyzer \<Rightarrow> TargetPerf \<Rightarrow>
   (QueueAnalyzer \<times> (TargetRate \<times> AnalysisMetrics \<times> TargetPerf) fallible) option" where
  "Size qa targetPerf =
     (case TargetPerf_check targetPerf of
        Some err \<Rightarrow> Some (qa, Inl err)
      | None \<Rightarrow>
          let lambdaMin = rr_Min (qa_RateRange qa) / Fin 1000;
              lambdaMax = rr_Max (qa_RateRange qa) / Fin 1000;
              ttft = EvalTTFT (qa_ServiceParms qa) (qa_RequestSize qa) (qa_MaxBatchSize qa);
              itl = EvalITL (qa_ServiceParms qa) (qa_RequestSize qa) (qa_MaxBatchSize qa)
          in case size_search
                ''failed to calculate lambdaStarTTFT, targetTTFT=%v, range=%s, ind=%d, err=%v''
                ttft qa lambdaMin lambdaMax (TargetTTFT targetPerf) of
               None \<Rightarrow> None
             | Some (qa, Inl err) \<Rightarrow> Some (qa, Inl err)
             | Some (qa, Inr lambdaStarTTFT) \<Rightarrow>
                 case size_search
                   ''failed to calculate lambdaStarITL, targetITL=%v, range=%s, ind=%d, err=%v''
                   itl qa lambdaMin lambdaMax (TargetITL targetPerf) of
                   None \<Rightarrow> None
                 | Some (qa, Inl err) \<Rightarrow> Some (qa, Inl err)
                 | Some (qa, Inr lambdaStarITL) \<Rightarrow>
                     let lambdaStarTPS = (if Fin 0 < TargetTPS targetPerf
                           then lambdaMax * (Fin 1 - StabilitySafetyFraction) else lambdaMax);
                         lambda = fmin (fmin lambdaStarTTFT lambdaStarITL) lambdaStarTPS;
                         requestRate = lambda * Fin 1000
                     in case Analyze qa requestRate of
                          None \<Rightarrow> None
                        | Some (qa, Inl err) \<Rightarrow> Some (qa, Inl err)
                        | Some (qa, Inr metrics) \<Rightarrow>
                            Some (qa, Inr
                              (\<lparr>RateTargetTTFT = lambdaStarTTFT * Fin 1000,
                                RateTargetITL = lambdaStarITL * Fin 1000,
                                RateTargetTPS = lambdaStarTPS * Fin 1000\<rparr>,
                               metrics,
                               \<lparr>TargetTTFT = am_AvgWaitTime metrics + am_AvgPrefillTime metrics,
                                TargetITL = am_AvgTokenTime metrics,
                                TargetTPS = am_Throughput metrics *
                                  float_of_int (AvgOutputTokens (qa_RequestSize qa))\<rparr>)))"

section \<open>The search over an evaluator\<close>

text \<open>A bracket of the target: the values at its ends are on either side of it.\<close>

definition bracket :: "bool \<Rightarrow> (real \<Rightarrow> real) \<Rightarrow> real \<Rightarrow> real \<Rightarrow> real \<Rightarrow> bool" where
  "bracket increasing g t lo hi \<longleftrightarrow>
     (if increasing then g lo \<le> t \<and> t \<le> g hi else g hi \<le> t \<and> t \<le> g lo)"

text \<open>What the search promises of a rate: its value is within tolerance of the target, or it is
  inside a bracket that is narrower than the range by the factor of the iterations.\<close>

definition found :: "bool \<Rightarrow> (real \<Rightarrow> real) \<Rightarrow> real \<Rightarrow> real \<Rightarrow> real \<Rightarrow> bool" where
  "found increasing g t w x \<longleftrightarrow> WithinTolerance (Fin (g x)) (Fin t) epsilon \<or>
     (\<exists>lo hi. lo \<le> x \<and> x \<le> hi \<and> hi - lo = w \<and> bracket increasing g t lo hi)"

text \<open>The contract of a whole search over \<open>[a, b]\<close>, with the indicator the code returns.\<close>

definition search_result :: "(real \<Rightarrow> real) \<Rightarrow> real \<Rightarrow> real \<Rightarrow> real \<Rightarrow> real \<Rightarrow> int \<Rightarrow> bool" where
  "search_result g a b t x ind \<longleftrightarrow> a \<le> x \<and> x \<le> b \<and>
     (let inc = g a < g b in
       (ind = 0 \<and> found inc g t ((b - a) / 2 ^ maxIterations) x) \<or>
       (ind = -1 \<and> x = a \<and> (if inc then t < g a else g a < t)) \<or>
       (ind = 1 \<and> x = b \<and> (if inc then g b < t else t < g b)))"

text \<open>An evaluator: a state that it may change, and a function of the rate that stays the same.\<close>

locale evaluator =
  fixes eval :: "'m \<Rightarrow> gofloat \<Rightarrow> ('m \<times> gofloat fallible) option"
    and ok :: "'m \<Rightarrow> bool"
    and f :: "'m \<Rightarrow> real \<Rightarrow> real"
  assumes eval_ok: "ok m \<Longrightarrow> 0 < x \<Longrightarrow>
    \<exists>m'. eval m (Fin x) = Some (m', Inr (Fin (f m x))) \<and> ok m' \<and> f m' = f m"
begin

lemma search_loop_found:
  assumes "ok m" and "0 < a" and "a \<le> b" and "bracket inc (f m) t a b"
    and "0 < k \<or> (\<exists>x. x0 = Fin x \<and> a \<le> x \<and> x \<le> b)"
  shows "\<exists>m' x. search_loop eval (Fin t) inc k m (Fin a) (Fin b) x0 = Some (m', Inr (Fin x, 0)) \<and>
    ok m' \<and> f m' = f m \<and> a \<le> x \<and> x \<le> b \<and> found inc (f m) t ((b - a) / 2 ^ k) x"
  using assms
proof (induction k arbitrary: m a b x0)
  case 0
  then show ?case by (auto simp: found_def)
next
  case (Suc k)
  let ?x = "(a + b) / 2"
  obtain m' where m': "eval m (Fin ?x) = Some (m', Inr (Fin (f m ?x)))" "ok m'" "f m' = f m"
    using eval_ok [OF Suc.prems(1), of ?x] Suc.prems by auto
  have x: "Fin (1 / 2) * (Fin a + Fin b) = Fin ?x" "a \<le> ?x" "?x \<le> b"
    using Suc.prems(3) by (simp_all add: field_simps)
  consider (tol) "WithinTolerance (Fin (f m ?x)) (Fin t) epsilon"
    | (left) "\<not> WithinTolerance (Fin (f m ?x)) (Fin t) epsilon"
        "inc \<and> t < f m ?x \<or> \<not> inc \<and> f m ?x < t"
    | (right) "\<not> WithinTolerance (Fin (f m ?x)) (Fin t) epsilon"
        "\<not> (inc \<and> t < f m ?x \<or> \<not> inc \<and> f m ?x < t)" by blast
  then show ?case
  proof cases
    case tol
    then have "search_loop eval (Fin t) inc (Suc k) m (Fin a) (Fin b) x0 = Some (m', Inr (Fin ?x, 0))"
      unfolding search_loop.simps Let_def x(1) m'(1) by simp
    with m' x tol show ?thesis unfolding found_def by blast
  next
    case left
    then have "search_loop eval (Fin t) inc (Suc k) m (Fin a) (Fin b) x0 =
        search_loop eval (Fin t) inc k m' (Fin a) (Fin ?x) (Fin ?x)"
      unfolding search_loop.simps Let_def x(1) m'(1) by auto
    moreover have "bracket inc (f m') t a ?x"
      using left(2) Suc.prems(4) m'(3) by (auto simp: bracket_def split: if_splits)
    moreover have w: "(?x - a) / 2 ^ k = (b - a) / 2 ^ Suc k" by (simp add: field_simps)
    ultimately show ?thesis
      using Suc.IH [of m' a ?x "Fin ?x"] Suc.prems(2) m' x unfolding w by fastforce
  next
    case right
    then have "search_loop eval (Fin t) inc (Suc k) m (Fin a) (Fin b) x0 =
        search_loop eval (Fin t) inc k m' (Fin ?x) (Fin b) (Fin ?x)"
      unfolding search_loop.simps Let_def x(1) m'(1) by auto
    moreover have "bracket inc (f m') t ?x b"
      using right(2) Suc.prems(4) m'(3) by (auto simp: bracket_def split: if_splits)
    moreover have w: "(b - ?x) / 2 ^ k = (b - a) / 2 ^ Suc k" by (simp add: field_simps)
    ultimately show ?thesis
      using Suc.IH [of m' ?x b "Fin ?x"] Suc.prems(2) m' x unfolding w by fastforce
  qed
qed

lemma BinarySearch_result:
  assumes "ok m" and "0 < a" and "a \<le> b"
  shows "\<exists>m' x ind. BinarySearch eval m (Fin a) (Fin b) (Fin t) = Some (m', Inr (Fin x, ind)) \<and>
    ok m' \<and> f m' = f m \<and> search_result (f m) a b t x ind"
proof -
  obtain m1 where m1: "eval m (Fin a) = Some (m1, Inr (Fin (f m a)))" "ok m1" "f m1 = f m"
    using eval_ok assms by blast
  obtain m2 where m2: "eval m1 (Fin b) = Some (m2, Inr (Fin (f m b)))" "ok m2" "f m2 = f m"
    using eval_ok [of m1 b] m1 assms by fastforce
  let ?inc = "f m a < f m b"
  have r: "\<not> Fin b < Fin a" using assms(3) by simp
  show ?thesis
  proof (cases "WithinTolerance (Fin (f m a)) (Fin t) epsilon \<or> WithinTolerance (Fin (f m b)) (Fin t) epsilon")
    case True
    then show ?thesis
      using m1 m2 r assms(3) unfolding BinarySearch_def
      by (auto simp: search_result_def found_def Let_def)
  next
    case False
    then have e: "BinarySearch eval m (Fin a) (Fin b) (Fin t) =
        (if ?inc \<and> t < f m a \<or> \<not> ?inc \<and> f m a < t then Some (m2, Inr (Fin a, -1))
         else if ?inc \<and> f m b < t \<or> \<not> ?inc \<and> t < f m b then Some (m2, Inr (Fin b, 1))
         else search_loop eval (Fin t) ?inc maxIterations m2 (Fin a) (Fin b) (Fin 0))"
      using m1(1) m2(1) r by (simp add: BinarySearch_def Let_def)
    show ?thesis
    proof (cases "bracket ?inc (f m) t a b")
      case True
      then obtain m' x where "search_loop eval (Fin t) ?inc maxIterations m2 (Fin a) (Fin b) (Fin 0) =
          Some (m', Inr (Fin x, 0))" "ok m'" "f m' = f m" "a \<le> x" "x \<le> b"
          "found ?inc (f m) t ((b - a) / 2 ^ maxIterations) x"
        using search_loop_found [of m2 a b ?inc t maxIterations "Fin 0"] m2 assms(2,3)
        by (auto simp: maxIterations_def)
      with True show ?thesis unfolding e
        by (auto simp: bracket_def search_result_def Let_def split: if_splits)
    next
      case False
      then show ?thesis unfolding e using m2 assms(3)
        by (auto simp: bracket_def search_result_def Let_def split: if_splits)
    qed
  qed
qed

end

section \<open>Usable parameters\<close>

text \<open>Non-negative finite coefficients, a valid request size, and a service time that grows with
  the batch.\<close>

definition parms_ok :: "ServiceParms \<Rightarrow> RequestSize \<Rightarrow> bool" where
  "parms_ok sp rs \<longleftrightarrow> (\<exists>g d a b. sp = \<lparr>sp_Prefill = Some \<lparr>Gamma = Fin g, Delta = Fin d\<rparr>,
      sp_Decode = Some \<lparr>Alpha = Fin a, Beta = Fin b\<rparr>\<rparr> \<and>
      0 \<le> g \<and> 0 \<le> d \<and> 0 \<le> a \<and> 0 \<le> b \<and> 0 \<le> AvgInputTokens rs \<and> 1 \<le> AvgOutputTokens rs \<and>
      0 < d * real_of_int (AvgInputTokens rs) + b * real_of_int (AvgOutputTokens rs - 1))"

text \<open>The effective concurrency as a real number.\<close>

definition eff_real :: "ServiceParms \<Rightarrow> RequestSize \<Rightarrow> int \<Rightarrow> real \<Rightarrow> real" where
  "eff_real sp rs N S =
     (let p = the (sp_Prefill sp); q = the (sp_Decode sp);
          tok = real_of_int (AvgOutputTokens rs - 1); inp = real_of_int (AvgInputTokens rs);
          n = (S - (real_of (Gamma p) + real_of (Alpha q) * tok)) /
              (real_of (Delta p) * inp + real_of (Beta q) * tok)
      in min (max n 0) (real_of_int N))"

lemma parms_okE:
  assumes "parms_ok sp rs"
  obtains g d a b where "sp_Prefill sp = Some \<lparr>Gamma = Fin g, Delta = Fin d\<rparr>"
    "sp_Decode sp = Some \<lparr>Alpha = Fin a, Beta = Fin b\<rparr>" "0 \<le> g" "0 \<le> d" "0 \<le> a" "0 \<le> b"
    "0 \<le> AvgInputTokens rs" "1 \<le> AvgOutputTokens rs"
    "0 < d * real_of_int (AvgInputTokens rs) + b * real_of_int (AvgOutputTokens rs - 1)"
  using assms unfolding parms_ok_def by fastforce

lemma EffectiveConcurrency_Fin:
  assumes "parms_ok sp rs"
  shows "EffectiveConcurrency (Fin S) sp rs N = Fin (eff_real sp rs N S)"
  using assms
  by (elim parms_okE) (simp add: EffectiveConcurrency_def eff_real_def float_of_int_def Let_def)

lemma eff_real_bounds: "0 \<le> N \<Longrightarrow> 0 \<le> eff_real sp rs N S \<and> eff_real sp rs N S \<le> real_of_int N"
  by (simp add: eff_real_def Let_def)

definition prefill_real :: "ServiceParms \<Rightarrow> RequestSize \<Rightarrow> real \<Rightarrow> real" where
  "prefill_real sp rs n = real_of (PrefillTime (the (sp_Prefill sp)) (AvgInputTokens rs) (Fin n))"

definition decode_real :: "ServiceParms \<Rightarrow> real \<Rightarrow> real" where
  "decode_real sp n = real_of (DecodeTime (the (sp_Decode sp)) (Fin n))"

lemma PrefillTime_Fin:
  "parms_ok sp rs \<Longrightarrow>
    PrefillTime (the (sp_Prefill sp)) (AvgInputTokens rs) (Fin n) = Fin (prefill_real sp rs n)"
  by (elim parms_okE) (simp add: prefill_real_def PrefillTime_def float_of_int_def)

lemma DecodeTime_Fin: "parms_ok sp rs \<Longrightarrow> DecodeTime (the (sp_Decode sp)) (Fin n) = Fin (decode_real sp n)"
  by (elim parms_okE) (simp add: decode_real_def DecodeTime_def)

lemma prefill_mono: "parms_ok sp rs \<Longrightarrow> 0 \<le> m \<Longrightarrow> m \<le> n \<Longrightarrow>
    0 \<le> prefill_real sp rs m \<and> prefill_real sp rs m \<le> prefill_real sp rs n"
  by (elim parms_okE) (auto simp: prefill_real_def PrefillTime_def float_of_int_def intro!: mult_left_mono)

lemma decode_mono: "parms_ok sp rs \<Longrightarrow> 0 \<le> m \<Longrightarrow> m \<le> n \<Longrightarrow>
    0 \<le> decode_real sp m \<and> decode_real sp m \<le> decode_real sp n"
  by (elim parms_okE) (auto simp: decode_real_def DecodeTime_def intro!: mult_left_mono)

text \<open>The time a batch of \<open>n\<close> requests is served, and the rate the model is built with.\<close>

definition serv_time :: "ServiceParms \<Rightarrow> RequestSize \<Rightarrow> real \<Rightarrow> real" where
  "serv_time sp rs n = prefill_real sp rs n + real_of_int (AvgOutputTokens rs - 1) * decode_real sp n"

lemma serv_time_pos:
  assumes "parms_ok sp rs" and "1 \<le> n" shows "0 < serv_time sp rs n"
proof -
  from assms(1) obtain g d a b where p: "sp_Prefill sp = Some \<lparr>Gamma = Fin g, Delta = Fin d\<rparr>"
    "sp_Decode sp = Some \<lparr>Alpha = Fin a, Beta = Fin b\<rparr>" "0 \<le> g" "0 \<le> d" "0 \<le> a" "0 \<le> b"
    "0 \<le> AvgInputTokens rs" "1 \<le> AvgOutputTokens rs"
    "0 < d * real_of_int (AvgInputTokens rs) + b * real_of_int (AvgOutputTokens rs - 1)"
    by (rule parms_okE)
  let ?i = "real_of_int (AvgInputTokens rs)" and ?o = "real_of_int (AvgOutputTokens rs - 1)"
  have o: "0 \<le> ?o" using p(8) by simp
  have "0 < (d * ?i + b * ?o) * n" using p(9) assms(2) by simp
  also have "\<dots> = d * ?i * n + ?o * (b * n)" by (simp add: algebra_simps)
  also have "\<dots> \<le> prefill_real sp rs n + ?o * (b * n)"
    using p by (simp add: prefill_real_def PrefillTime_def float_of_int_def)
  also have "\<dots> \<le> serv_time sp rs n"
    using p(1,2,5) o assms(2)
    by (simp add: serv_time_def decode_real_def DecodeTime_def mult_left_mono del: of_int_diff)
  finally show ?thesis .
qed

lemma servRate_at_Fin:
  assumes "parms_ok sp rs" and "1 \<le> n"
  shows "servRate_at sp rs n = Fin (real_of_int n / serv_time sp rs (real_of_int n))"
proof -
  have "\<not> (AvgInputTokens rs = 0 \<and> AvgOutputTokens rs = 1)"
    using assms(1) by (elim parms_okE) auto
  then have "servRate_at sp rs n = Fin (real_of_int n) / Fin (serv_time sp rs (real_of_int n))"
    using assms
    by (auto simp: servRate_at_def Let_def float_of_int_def PrefillTime_Fin DecodeTime_Fin serv_time_def
        simp del: fin_ops(5) of_int_diff)
  then show ?thesis using serv_time_pos [OF assms(1), of "real_of_int n"] assms(2) by simp
qed

lemma model_rates_ok:
  assumes "parms_ok sp rs" and "1 \<le> N"
  shows "rates_ok (map (servRate_at sp rs) [1..N])"
  using assms serv_time_pos [OF assms(1)]
  by (auto simp: rates_ok_def servRate_at_Fin)

section \<open>The evaluated statistics\<close>

definition model_ok :: "MM1ModelStateDependent \<Rightarrow> bool" where
  "model_ok m \<longleftrightarrow> sd_wf m \<and> 2 \<le> q_K m"

definition model_throughput :: "MM1ModelStateDependent \<Rightarrow> real \<Rightarrow> real" where
  "model_throughput m l = bd_throughput l (rate_fun (q_servRate m)) (q_K m)"

definition model_busy :: "MM1ModelStateDependent \<Rightarrow> real \<Rightarrow> real" where
  "model_busy m l = bd_busy l (rate_fun (q_servRate m)) (q_K m) (length (q_servRate m))"

definition model_serv :: "MM1ModelStateDependent \<Rightarrow> real \<Rightarrow> real" where
  "model_serv m l = model_busy m l / model_throughput m l"

definition model_wait :: "MM1ModelStateDependent \<Rightarrow> real \<Rightarrow> real" where
  "model_wait m l = (bd_mean l (rate_fun (q_servRate m)) (q_K m) - model_busy m l) / model_throughput m l"

lemmas model_stat_defs = model_serv_def model_wait_def model_busy_def model_throughput_def

lemma model_solve:
  assumes "model_ok m" and "0 < l"
  shows "SD_Solve m (Fin l) (Fin 1) = Some (sd_solved m l (Fin 1)) \<and> model_ok (sd_solved m l (Fin 1)) \<and>
    q_isValid (sd_solved m l (Fin 1)) \<and> q_servRate (sd_solved m l (Fin 1)) = q_servRate m \<and>
    q_K (sd_solved m l (Fin 1)) = q_K m \<and> q_avgServTime (sd_solved m l (Fin 1)) = Fin (model_serv m l) \<and>
    q_avgWaitTime (sd_solved m l (Fin 1)) = Fin (model_wait m l) \<and>
    q_throughput (sd_solved m l (Fin 1)) = Fin (model_throughput m l) \<and>
    q_avgNumInServers (sd_solved m l (Fin 1)) = Fin (model_busy m l) \<and>
    q_avgRespTime (sd_solved m l (Fin 1)) = Fin (model_wait m l + model_serv m l)"
proof -
  have "q_isValid (sd_solved m l (Fin 1)) \<and> q_avgServTime (sd_solved m l (Fin 1)) = Fin (model_serv m l) \<and>
    q_avgWaitTime (sd_solved m l (Fin 1)) = Fin (model_wait m l) \<and>
    q_throughput (sd_solved m l (Fin 1)) = Fin (model_throughput m l) \<and>
    q_avgNumInServers (sd_solved m l (Fin 1)) = Fin (model_busy m l) \<and>
    q_avgRespTime (sd_solved m l (Fin 1)) = Fin (model_wait m l + model_serv m l)"
    by (simp add: sd_solved_def Let_def model_stat_defs flip: add_divide_distrib)
  then show ?thesis using assms SD_Solve_exact [of m l 1] sd_solved_wf [of m l] by (simp add: model_ok_def)
qed

lemma model_stat_cong:
  "q_servRate m' = q_servRate m \<Longrightarrow> q_K m' = q_K m \<Longrightarrow>
    model_serv m' = model_serv m \<and> model_wait m' = model_wait m"
  by (simp add: model_stat_defs fun_eq_iff)

lemma eval_model_ok:
  assumes "model_ok m" and "0 < x"
  shows "eval_model stat m (Fin x) = Some (sd_solved m x (Fin 1), Inr (stat (sd_solved m x (Fin 1))))"
  using model_solve [OF assms] by (simp add: eval_model_def)

text \<open>The four evaluation functions are evaluators in the sense of the search.\<close>

interpretation servtime: evaluator EvalServTime model_ok model_serv
  by unfold_locales (metis EvalServTime_def eval_model_ok model_solve model_stat_cong)

interpretation waiting: evaluator EvalWaitingTime model_ok model_wait
  by unfold_locales (metis EvalWaitingTime_def eval_model_ok model_solve model_stat_cong)

definition itl_real :: "ServiceParms \<Rightarrow> RequestSize \<Rightarrow> int \<Rightarrow> MM1ModelStateDependent \<Rightarrow> real \<Rightarrow> real" where
  "itl_real sp rs N m x = decode_real sp (eff_real sp rs N (model_serv m x))"

definition ttft_real :: "ServiceParms \<Rightarrow> RequestSize \<Rightarrow> int \<Rightarrow> MM1ModelStateDependent \<Rightarrow> real \<Rightarrow> real" where
  "ttft_real sp rs N m x = model_wait m x + prefill_real sp rs (eff_real sp rs N (model_serv m x))"

lemma EvalITL_ok:
  assumes "parms_ok sp rs" and "model_ok m" and "0 < x"
  shows "EvalITL sp rs N m (Fin x) = Some (sd_solved m x (Fin 1), Inr (Fin (itl_real sp rs N m x)))"
  using assms model_solve [OF assms(2,3)]
  by (simp add: EvalITL_def eval_model_ok Let_def EffectiveConcurrency_Fin DecodeTime_Fin itl_real_def)

lemma EvalTTFT_ok:
  assumes "parms_ok sp rs" and "model_ok m" and "0 < x"
  shows "EvalTTFT sp rs N m (Fin x) = Some (sd_solved m x (Fin 1), Inr (Fin (ttft_real sp rs N m x)))"
  using assms model_solve [OF assms(2,3)]
  by (simp add: EvalTTFT_def eval_model_ok Let_def EffectiveConcurrency_Fin PrefillTime_Fin ttft_real_def)

interpretation itl: evaluator "EvalITL sp rs N" "\<lambda>m. parms_ok sp rs \<and> model_ok m \<and>
    q_servRate m = sr \<and> q_K m = K" "itl_real sp rs N" for sp rs N sr K
proof (unfold_locales, goal_cases)
  case (1 m x)
  then show ?case
    using EvalITL_ok [of sp rs m x N] model_solve [of m x] model_stat_cong [of "sd_solved m x (Fin 1)" m]
    by (auto simp: itl_real_def)
qed

interpretation ttft: evaluator "EvalTTFT sp rs N" "\<lambda>m. parms_ok sp rs \<and> model_ok m \<and>
    q_servRate m = sr \<and> q_K m = K" "ttft_real sp rs N" for sp rs N sr K
proof (unfold_locales, goal_cases)
  case (1 m x)
  then show ?case
    using EvalTTFT_ok [of sp rs m x N] model_solve [of m x] model_stat_cong [of "sd_solved m x (Fin 1)" m]
    by (auto simp: ttft_real_def)
qed

section \<open>Well-formed analyzers\<close>

definition max_rate :: "ServiceParms \<Rightarrow> RequestSize \<Rightarrow> int \<Rightarrow> real" where
  "max_rate sp rs N = real_of_int N / serv_time sp rs (real_of_int N) * (1 - 1 / 1000)"

definition min_rate :: "ServiceParms \<Rightarrow> RequestSize \<Rightarrow> real" where
  "min_rate sp rs = 1 / serv_time sp rs 1 * (1 / 1000)"

text \<open>The invariant of an analyzer: usable parameters and the model and rate range built from
  them (rates of the model in requests per millisecond, of the range in requests per second).\<close>

definition qa_wf :: "QueueAnalyzer \<Rightarrow> bool" where
  "qa_wf qa \<longleftrightarrow>
     (let sp = qa_ServiceParms qa; rs = qa_RequestSize qa; N = qa_MaxBatchSize qa; m = qa_Model qa
      in parms_ok sp rs \<and> 1 \<le> N \<and> model_ok m \<and> q_servRate m = map (servRate_at sp rs) [1..N] \<and>
         q_K m = nat (qa_MaxQueueSize qa + N) \<and>
         qa_RateRange qa = \<lparr>rr_Min = Fin (min_rate sp rs * 1000), rr_Max = Fin (max_rate sp rs N * 1000)\<rparr>)"

lemma serv_time_subadditive:
  assumes "parms_ok sp rs" and "1 \<le> n" shows "serv_time sp rs n \<le> n * serv_time sp rs 1"
proof -
  from assms(1) obtain g d a b where p: "sp_Prefill sp = Some \<lparr>Gamma = Fin g, Delta = Fin d\<rparr>"
    "sp_Decode sp = Some \<lparr>Alpha = Fin a, Beta = Fin b\<rparr>" "0 \<le> g" "0 \<le> d" "0 \<le> a" "0 \<le> b"
    "0 \<le> AvgInputTokens rs" "1 \<le> AvgOutputTokens rs"
    "0 < d * real_of_int (AvgInputTokens rs) + b * real_of_int (AvgOutputTokens rs - 1)"
    by (rule parms_okE)
  let ?o = "real_of_int (AvgOutputTokens rs - 1)"
  have "1 * x \<le> n * x" if "0 \<le> x" for x :: real using that assms(2) by (intro mult_right_mono) auto
  from this [of g] this [of "?o * a"]
  have "g \<le> n * g" "?o * a \<le> n * (?o * a)" using p(3,5,8) by simp_all
  then show ?thesis
    using p(1,2) by (auto simp: serv_time_def prefill_real_def PrefillTime_def decode_real_def DecodeTime_def
        float_of_int_def algebra_simps)
qed

lemma rate_range_pos:
  assumes "parms_ok sp rs" and "1 \<le> N" shows "0 < min_rate sp rs" and "min_rate sp rs \<le> max_rate sp rs N"
proof -
  let ?n = "real_of_int N"
  have pos: "0 < serv_time sp rs 1" "0 < serv_time sp rs ?n" using serv_time_pos assms by auto
  then show "0 < min_rate sp rs" by (simp add: min_rate_def)
  have "1 / serv_time sp rs 1 \<le> ?n / serv_time sp rs ?n"
    using serv_time_subadditive [OF assms(1), of ?n] assms(2) pos by (simp add: field_simps)
  moreover have "0 < 1 / serv_time sp rs 1" using pos by simp
  ultimately have "1 / serv_time sp rs 1 * (1 / 1000) \<le> ?n / serv_time sp rs ?n * (1 - 1 / 1000)"
    using pos assms(2) by (intro mult_mono) auto
  then show "min_rate sp rs \<le> max_rate sp rs N" by (simp add: min_rate_def max_rate_def)
qed

lemma BuildModel_wf:
  assumes "Configuration_check c = None" and "RequestSize_check rs = None"
    and "parms_ok (the (qc_ServiceParms c)) rs"
    and "2 \<le> qc_MaxQueueSize c + qc_MaxBatchSize c" and "qc_MaxQueueSize c + qc_MaxBatchSize c < 2 ^ 63"
  shows "qa_wf (BuildModel c rs)"
proof -
  let ?N = "qc_MaxBatchSize c" and ?sp = "the (qc_ServiceParms c)"
  let ?K = "nat (qc_MaxQueueSize c + ?N)" and ?sr = "map (servRate_at ?sp rs) [1..?N]"
  have N: "1 \<le> ?N" "0 \<le> qc_MaxQueueSize c"
    using assms(1) by (auto simp: Configuration_check_def split: if_splits)
  have K: "length ?sr \<le> ?K" "2 \<le> ?K" using N assms(4) by (simp_all add: nat_mono le_nat_iff)
  have "?K < 2 ^ 63" using assms(4,5) by (simp add: nat_less_iff)
  then have "model_ok (NewMM1ModelStateDependent ?K ?sr)"
    using new_sd_wf [OF model_rates_ok [OF assms(3) N(1)]] K by (simp add: model_ok_def)
  moreover have "?sr ! 0 = servRate_at ?sp rs 1" "?sr ! nat (?N - 1) = servRate_at ?sp rs ?N"
    using N(1) by (simp_all add: nth_upto)
  ultimately show ?thesis
    using N assms(3)
    by (simp add: BuildModel_def qa_wf_def Let_def servRate_at_Fin Epsilon_def min_rate_def max_rate_def
        float_of_int_def)
qed

lemma Analyze_exact:
  assumes "qa_wf qa" and "0 < r" and "Fin r \<le> rr_Max (qa_RateRange qa)"
  shows "let m = qa_Model qa; l = r / 1000; sp = qa_ServiceParms qa; rs = qa_RequestSize qa;
      N = qa_MaxBatchSize qa; e = eff_real sp rs N (model_serv m l)
    in Analyze qa (Fin r) = Some (qa\<lparr>qa_Model := sd_solved m l (Fin 1)\<rparr>, Inr
      \<lparr>am_Throughput = Fin (model_throughput m l * 1000),
       am_AvgRespTime = Fin (model_wait m l + model_serv m l), am_AvgWaitTime = Fin (model_wait m l),
       am_AvgNumInServ = Fin (model_busy m l), am_AvgPrefillTime = Fin (prefill_real sp rs e),
       am_AvgTokenTime = Fin (decode_real sp e), am_MaxRate = rr_Max (qa_RateRange qa),
       am_Rho = Fin (min (max (model_busy m l / real_of_int N) 0) 1)\<rparr>)"
proof -
  have ok: "parms_ok (qa_ServiceParms qa) (qa_RequestSize qa)" "1 \<le> qa_MaxBatchSize qa" "model_ok (qa_Model qa)"
    using assms(1) by (auto simp: qa_wf_def Let_def)
  have "\<not> rr_Max (qa_RateRange qa) < Fin r"
    using assms(3) by (cases "rr_Max (qa_RateRange qa)") simp_all
  with model_solve [OF ok(3), of "r / 1000"] ok assms(2) show ?thesis
    by (simp add: Analyze_def Let_def EffectiveConcurrency_Fin PrefillTime_Fin DecodeTime_Fin float_of_int_def)
qed

lemma Analyze_returns:
  assumes "qa_wf qa" shows "\<exists>an. Analyze qa (Fin r) = Some an"
proof (cases "0 < r \<and> Fin r \<le> rr_Max (qa_RateRange qa)")
  case True
  then show ?thesis using Analyze_exact [OF assms] by (simp add: Let_def)
next
  case False
  moreover have "is_fin (rr_Max (qa_RateRange qa))" using assms by (auto simp: qa_wf_def Let_def)
  ultimately show ?thesis by (cases "rr_Max (qa_RateRange qa)") (auto simp: Analyze_def)
qed

lemma qa_wf_solved: "qa_wf qa \<Longrightarrow> 0 < l \<Longrightarrow> qa_wf (qa\<lparr>qa_Model := sd_solved (qa_Model qa) l (Fin 1)\<rparr>)"
  using model_solve [of "qa_Model qa" l] by (auto simp: qa_wf_def Let_def)

lemma qa_wf_model:
  "qa_wf qa \<Longrightarrow> model_ok m \<Longrightarrow> q_servRate m = q_servRate (qa_Model qa) \<Longrightarrow> q_K m = q_K (qa_Model qa) \<Longrightarrow>
    qa_wf (qa\<lparr>qa_Model := m\<rparr>)"
  by (auto simp: qa_wf_def Let_def)

lemma model_busy_bounds:
  assumes "model_ok m" and "0 < l"
  shows "0 \<le> model_busy m l \<and> model_busy m l \<le> real (length (q_servRate m)) \<and>
    0 < model_throughput m l \<and> model_throughput m l \<le> l \<and> 0 \<le> model_wait m l"
proof -
  let ?s = "rate_fun (q_servRate m)" and ?K = "q_K m" and ?n = "length (q_servRate m)"
  have s: "\<And>j. 0 < ?s j" and K: "0 < ?K" using assms(1) by (auto simp: model_ok_def sd_wf_def rates_ok_pos)
  have l: "0 \<le> l" using assms(2) by simp
  have "model_busy m l \<le> (\<Sum>i\<le>?K. real ?n * bd_prob l ?s ?K i)"
    unfolding model_busy_def bd_busy_def using s l by (intro sum_mono mult_right_mono bd_prob_nonneg) auto
  also have "\<dots> = real ?n" using bd_prob_sum [of l ?s ?K] s l by (simp flip: sum_distrib_left)
  finally have "model_busy m l \<le> real ?n" .
  moreover have "0 \<le> model_busy m l"
    unfolding model_busy_def bd_busy_def using s l by (intro sum_nonneg mult_nonneg_nonneg bd_prob_nonneg) auto
  moreover have X: "0 < model_throughput m l"
    unfolding model_throughput_def using bd_throughput_pos [of l ?s ?K] s assms(2) K by blast
  moreover have "model_throughput m l \<le> l"
    using bd_prob_nonneg [of l ?s ?K ?K] s assms(2) by (simp add: model_throughput_def bd_throughput_def)
  moreover have "0 \<le> model_wait m l"
    using bd_busy_le_mean [of l ?s ?K ?n] s l X by (simp add: model_wait_def model_busy_def)
  ultimately show ?thesis by blast
qed

text \<open>A sizing search over a well-formed analyzer returns a rate of its range, or the target is
  out of reach already at the lowest rate.\<close>

definition out_of_reach :: "(real \<Rightarrow> real) \<Rightarrow> real \<Rightarrow> real \<Rightarrow> real \<Rightarrow> bool" where
  "out_of_reach g a b t \<longleftrightarrow> 0 < t \<and> (if g a < g b then t < g a else g a < t)"

definition search_ok :: "(real \<Rightarrow> real) \<Rightarrow> real \<Rightarrow> real \<Rightarrow> real \<Rightarrow> real \<Rightarrow> bool" where
  "search_ok g a b t x \<longleftrightarrow> a \<le> x \<and> x \<le> b \<and>
     (if 0 < t then search_result g a b t x 0 \<or> search_result g a b t x 1 else x = b)"

lemma size_search_ok:
  assumes ev: "\<And>m t. ok m \<Longrightarrow> \<exists>m' x ind. BinarySearch ev m (Fin a) (Fin b) (Fin t) = Some (m', Inr (Fin x, ind)) \<and>
      ok m' \<and> g m' = g m \<and> search_result (g m) a b t x ind"
    and "ok (qa_Model qa)" and ab: "a \<le> b"
  shows "\<exists>m' r. size_search fmt ev qa (Fin a) (Fin b) (Fin t) = Some (qa\<lparr>qa_Model := m'\<rparr>, r) \<and> ok m' \<and>
    g m' = g (qa_Model qa) \<and>
    (case r of Inl _ \<Rightarrow> out_of_reach (g (qa_Model qa)) a b t
     | Inr y \<Rightarrow> \<exists>x. y = Fin x \<and> search_ok (g (qa_Model qa)) a b t x)"
proof (cases "0 < t")
  case False
  have "qa\<lparr>qa_Model := qa_Model qa\<rparr> = qa" by simp
  moreover have "size_search fmt ev qa (Fin a) (Fin b) (Fin t) = Some (qa, Inr (Fin b))"
    using False by (simp add: size_search_def)
  ultimately show ?thesis
    using assms(2) ab False by (intro exI [of _ "qa_Model qa"] exI [of _ "Inr (Fin b)"]) (simp add: search_ok_def)
next
  case True
  obtain m' x ind where s: "BinarySearch ev (qa_Model qa) (Fin a) (Fin b) (Fin t) = Some (m', Inr (Fin x, ind))"
      "ok m'" "g m' = g (qa_Model qa)" "search_result (g (qa_Model qa)) a b t x ind"
    using ev [OF assms(2)] by blast
  show ?thesis
  proof (cases "ind < 0")
    case neg: True
    then have "out_of_reach (g (qa_Model qa)) a b t"
      using s(4) True by (auto simp: search_result_def out_of_reach_def Let_def)
    with s True neg show ?thesis by (auto simp: size_search_def)
  next
    case False
    then have "search_ok (g (qa_Model qa)) a b t x"
      using s(4) True by (auto simp: search_result_def search_ok_def Let_def)
    with s True False show ?thesis by (auto simp: size_search_def)
  qed
qed

section \<open>Properties\<close>

text \<open>C22: an analysis within the rate range always succeeds and keeps the analyzer well formed. The
  throughput is positive and at most the request rate, the response time is waiting plus service
  time, the number of requests in service follows from Little's law, the utilization is that
  number over the batch size and lies between 0 and 1 without being clamped, and the prefill and
  token times are those of a concurrency between zero and the batch size. Outside the range the
  analysis is an error that changes nothing.\<close>

theorem analyze_sound:
  assumes "qa_wf qa" and "rr_Max (qa_RateRange qa) = Fin mx" and "0 < r" and "r \<le> mx"
  shows "(\<exists>qa' am X W S e. Analyze qa (Fin r) = Some (qa', Inr am) \<and> qa_wf qa' \<and>
     am_Throughput am = Fin X \<and> 0 < X \<and> X \<le> r \<and> am_AvgWaitTime am = Fin W \<and> 0 \<le> W \<and>
     am_AvgRespTime am = Fin (W + S) \<and> am_AvgNumInServ am = Fin (X / 1000 * S) \<and>
     am_Rho am = Fin (X / 1000 * S / real_of_int (qa_MaxBatchSize qa)) \<and>
     0 \<le> X / 1000 * S \<and> X / 1000 * S \<le> real_of_int (qa_MaxBatchSize qa) \<and>
     0 \<le> e \<and> e \<le> real_of_int (qa_MaxBatchSize qa) \<and>
     am_AvgPrefillTime am =
       PrefillTime (the (sp_Prefill (qa_ServiceParms qa))) (AvgInputTokens (qa_RequestSize qa)) (Fin e) \<and>
     am_AvgTokenTime am = DecodeTime (the (sp_Decode (qa_ServiceParms qa))) (Fin e)) \<and>
    (r' \<le> 0 \<or> mx < r' \<longrightarrow> (\<exists>err. Analyze qa (Fin r') = Some (qa, Inl err)))"
proof
  let ?m = "qa_Model qa" and ?l = "r / 1000" and ?N = "qa_MaxBatchSize qa"
  let ?sp = "qa_ServiceParms qa" and ?rs = "qa_RequestSize qa"
  let ?X = "model_throughput ?m ?l" and ?e = "eff_real ?sp ?rs ?N (model_serv ?m ?l)"
  have ok: "parms_ok ?sp ?rs" "1 \<le> ?N" "model_ok ?m" "length (q_servRate ?m) = nat ?N"
    using assms(1) by (auto simp: qa_wf_def Let_def)
  have l: "0 < ?l" using assms(3) by simp
  note b = model_busy_bounds [OF ok(3) l]
  have "?X * 1000 / 1000 * model_serv ?m ?l = model_busy ?m ?l" using b by (simp add: model_serv_def)
  moreover have "min (max (model_busy ?m ?l / real_of_int ?N) 0) 1 = model_busy ?m ?l / real_of_int ?N"
    using b ok(2,4) by (auto simp: min_def max_def divide_le_eq zero_le_divide_iff)
  moreover note eff_real_bounds [of ?N ?sp ?rs "model_serv ?m ?l"]
  moreover obtain am where am: "Analyze qa (Fin r) = Some (qa\<lparr>qa_Model := sd_solved ?m ?l (Fin 1)\<rparr>, Inr am)"
      "am_Throughput am = Fin (?X * 1000)" "am_AvgRespTime am = Fin (model_wait ?m ?l + model_serv ?m ?l)"
      "am_AvgWaitTime am = Fin (model_wait ?m ?l)" "am_AvgNumInServ am = Fin (model_busy ?m ?l)"
      "am_AvgPrefillTime am = Fin (prefill_real ?sp ?rs ?e)" "am_AvgTokenTime am = Fin (decode_real ?sp ?e)"
      "am_Rho am = Fin (min (max (model_busy ?m ?l / real_of_int ?N) 0) 1)"
    using Analyze_exact [OF assms(1,3)] assms(2,4) by (simp add: Let_def)
  ultimately show "\<exists>qa' am X W S e. Analyze qa (Fin r) = Some (qa', Inr am) \<and> qa_wf qa' \<and>
     am_Throughput am = Fin X \<and> 0 < X \<and> X \<le> r \<and> am_AvgWaitTime am = Fin W \<and> 0 \<le> W \<and>
     am_AvgRespTime am = Fin (W + S) \<and> am_AvgNumInServ am = Fin (X / 1000 * S) \<and>
     am_Rho am = Fin (X / 1000 * S / real_of_int ?N) \<and> 0 \<le> X / 1000 * S \<and> X / 1000 * S \<le> real_of_int ?N \<and>
     0 \<le> e \<and> e \<le> real_of_int ?N \<and>
     am_AvgPrefillTime am = PrefillTime (the (sp_Prefill ?sp)) (AvgInputTokens ?rs) (Fin e) \<and>
     am_AvgTokenTime am = DecodeTime (the (sp_Decode ?sp)) (Fin e)"
    using b ok qa_wf_solved [OF assms(1) l]
    by (intro exI [of _ "qa\<lparr>qa_Model := sd_solved ?m ?l (Fin 1)\<rparr>"] exI [of _ am] exI [of _ "?X * 1000"]
        exI [of _ "model_wait ?m ?l"] exI [of _ "model_serv ?m ?l"] exI [of _ ?e])
      (simp add: PrefillTime_Fin DecodeTime_Fin)
next
  show "r' \<le> 0 \<or> mx < r' \<longrightarrow> (\<exists>err. Analyze qa (Fin r') = Some (qa, Inl err))"
    using assms(2) by (auto simp: Analyze_def)
qed

definition sample_parms :: ServiceParms where
  "sample_parms = \<lparr>sp_Prefill = Some \<lparr>Gamma = Fin 1, Delta = Fin 0\<rparr>,
     sp_Decode = Some \<lparr>Alpha = Fin 1, Beta = Fin 1\<rparr>\<rparr>"

definition sample_size :: RequestSize where
  "sample_size = \<lparr>AvgInputTokens = 1, AvgOutputTokens = 2\<rparr>"

definition sample_qa :: QueueAnalyzer where
  "sample_qa = BuildModel \<lparr>qc_MaxBatchSize = 1, qc_MaxQueueSize = 1,
     qc_ServiceParms = Some sample_parms\<rparr> sample_size"

lemma sample_parms_ok: "parms_ok sample_parms sample_size"
  by (simp add: parms_ok_def sample_parms_def sample_size_def)

lemma sample_qa_wf: "qa_wf sample_qa" and sample_qa_max: "rr_Max (qa_RateRange sample_qa) = Fin 333"
proof -
  show "qa_wf sample_qa"
    unfolding sample_qa_def using sample_parms_ok
    by (intro BuildModel_wf) (simp_all add: Configuration_check_def RequestSize_check_def sample_size_def
        sample_parms_def)
  show "rr_Max (qa_RateRange sample_qa) = Fin 333"
    by (simp add: sample_qa_def BuildModel_def Let_def servRate_at_def sample_parms_def sample_size_def
        PrefillTime_def DecodeTime_def float_of_int_def Epsilon_def)
qed

theorem analyze_sound_witness:
  "(\<exists>qa' am X. Analyze sample_qa (Fin 100) = Some (qa', Inr am) \<and> qa_wf qa' \<and>
     am_Throughput am = Fin X \<and> 0 < X \<and> X \<le> 100) \<and>
   (\<exists>err. Analyze sample_qa (Fin 400) = Some (sample_qa, Inl err))"
  using analyze_sound [OF sample_qa_wf sample_qa_max, of 100 400] by auto

lemma analyze_cong:
  assumes "qa_wf qa" and "qa_wf (qa\<lparr>qa_Model := m\<rparr>)" and "q_servRate m = q_servRate (qa_Model qa)"
    and "q_K m = q_K (qa_Model qa)" and "0 < r" and "Fin r \<le> rr_Max (qa_RateRange qa)"
    and "Analyze (qa\<lparr>qa_Model := m\<rparr>) (Fin r) = Some (qa', Inr am)"
  shows "\<exists>q. Analyze qa (Fin r) = Some (q, Inr am)"
proof -
  have "model_throughput m = model_throughput (qa_Model qa)" "model_busy m = model_busy (qa_Model qa)"
    "model_serv m = model_serv (qa_Model qa)" "model_wait m = model_wait (qa_Model qa)"
    using assms(3,4) by (simp_all add: model_stat_defs fun_eq_iff)
  with Analyze_exact [OF assms(1,5,6)] Analyze_exact [OF assms(2,5)] assms(6,7) show ?thesis
    by (auto simp: Let_def)
qed

text \<open>The rate range of a well-formed analyzer, per millisecond, and its two searches.\<close>

definition lo_rate :: "QueueAnalyzer \<Rightarrow> real" where
  "lo_rate qa = min_rate (qa_ServiceParms qa) (qa_RequestSize qa)"

definition hi_rate :: "QueueAnalyzer \<Rightarrow> real" where
  "hi_rate qa = max_rate (qa_ServiceParms qa) (qa_RequestSize qa) (qa_MaxBatchSize qa)"

definition qa_ttft :: "QueueAnalyzer \<Rightarrow> real \<Rightarrow> real" where
  "qa_ttft qa = ttft_real (qa_ServiceParms qa) (qa_RequestSize qa) (qa_MaxBatchSize qa) (qa_Model qa)"

definition qa_itl :: "QueueAnalyzer \<Rightarrow> real \<Rightarrow> real" where
  "qa_itl qa = itl_real (qa_ServiceParms qa) (qa_RequestSize qa) (qa_MaxBatchSize qa) (qa_Model qa)"

definition same_queue :: "MM1ModelStateDependent \<Rightarrow> MM1ModelStateDependent \<Rightarrow> bool" where
  "same_queue m m' \<longleftrightarrow> q_servRate m' = q_servRate m \<and> q_K m' = q_K m"

lemma qa_wf_range:
  assumes "qa_wf qa"
  shows "0 < lo_rate qa" "lo_rate qa \<le> hi_rate qa" "rr_Min (qa_RateRange qa) / Fin 1000 = Fin (lo_rate qa)"
    "rr_Max (qa_RateRange qa) / Fin 1000 = Fin (hi_rate qa)" "rr_Max (qa_RateRange qa) = Fin (hi_rate qa * 1000)"
  using assms rate_range_pos [of "qa_ServiceParms qa" "qa_RequestSize qa" "qa_MaxBatchSize qa"]
  by (auto simp: qa_wf_def Let_def lo_rate_def hi_rate_def)

definition searched :: "(real \<Rightarrow> real) \<Rightarrow> QueueAnalyzer \<Rightarrow> real \<Rightarrow> gofloat fallible \<Rightarrow> bool" where
  "searched g qa t r = (case r of Inl _ \<Rightarrow> out_of_reach g (lo_rate qa) (hi_rate qa) t
     | Inr y \<Rightarrow> \<exists>x. y = Fin x \<and> search_ok g (lo_rate qa) (hi_rate qa) t x)"

lemma size_search_ttft:
  assumes "qa_wf qa"
  shows "\<exists>m r. size_search fmt (EvalTTFT (qa_ServiceParms qa) (qa_RequestSize qa) (qa_MaxBatchSize qa)) qa
      (Fin (lo_rate qa)) (Fin (hi_rate qa)) (Fin t) = Some (qa\<lparr>qa_Model := m\<rparr>, r) \<and>
    qa_wf (qa\<lparr>qa_Model := m\<rparr>) \<and> same_queue (qa_Model qa) m \<and> searched (qa_ttft qa) qa t r"
proof -
  let ?sp = "qa_ServiceParms qa" and ?rs = "qa_RequestSize qa" and ?N = "qa_MaxBatchSize qa" and ?m = "qa_Model qa"
  let ?ok = "\<lambda>m. parms_ok ?sp ?rs \<and> model_ok m \<and> q_servRate m = q_servRate ?m \<and> q_K m = q_K ?m"
  note rg = qa_wf_range [OF assms]
  have okm: "?ok ?m" using assms by (simp add: qa_wf_def Let_def)
  obtain m r where s: "size_search fmt (EvalTTFT ?sp ?rs ?N) qa (Fin (lo_rate qa)) (Fin (hi_rate qa)) (Fin t) =
      Some (qa\<lparr>qa_Model := m\<rparr>, r)" and m: "?ok m"
    and r: "case r of Inl _ \<Rightarrow> out_of_reach (ttft_real ?sp ?rs ?N ?m) (lo_rate qa) (hi_rate qa) t
      | Inr y \<Rightarrow> \<exists>x. y = Fin x \<and> search_ok (ttft_real ?sp ?rs ?N ?m) (lo_rate qa) (hi_rate qa) t x"
    using size_search_ok [where ok = ?ok and g = "ttft_real ?sp ?rs ?N" and qa = qa and fmt = fmt and t = t,
      OF ttft.BinarySearch_result [OF _ rg(1,2)] okm rg(2)] by blast
  have "qa_wf (qa\<lparr>qa_Model := m\<rparr>)" using qa_wf_model [OF assms] m by blast
  with s m r show ?thesis by (auto simp: searched_def qa_ttft_def same_queue_def)
qed

lemma size_search_itl:
  assumes "qa_wf qa"
  shows "\<exists>m r. size_search fmt (EvalITL (qa_ServiceParms qa) (qa_RequestSize qa) (qa_MaxBatchSize qa)) qa
      (Fin (lo_rate qa)) (Fin (hi_rate qa)) (Fin t) = Some (qa\<lparr>qa_Model := m\<rparr>, r) \<and>
    qa_wf (qa\<lparr>qa_Model := m\<rparr>) \<and> same_queue (qa_Model qa) m \<and> searched (qa_itl qa) qa t r"
proof -
  let ?sp = "qa_ServiceParms qa" and ?rs = "qa_RequestSize qa" and ?N = "qa_MaxBatchSize qa" and ?m = "qa_Model qa"
  let ?ok = "\<lambda>m. parms_ok ?sp ?rs \<and> model_ok m \<and> q_servRate m = q_servRate ?m \<and> q_K m = q_K ?m"
  note rg = qa_wf_range [OF assms]
  have okm: "?ok ?m" using assms by (simp add: qa_wf_def Let_def)
  obtain m r where s: "size_search fmt (EvalITL ?sp ?rs ?N) qa (Fin (lo_rate qa)) (Fin (hi_rate qa)) (Fin t) =
      Some (qa\<lparr>qa_Model := m\<rparr>, r)" and m: "?ok m"
    and r: "case r of Inl _ \<Rightarrow> out_of_reach (itl_real ?sp ?rs ?N ?m) (lo_rate qa) (hi_rate qa) t
      | Inr y \<Rightarrow> \<exists>x. y = Fin x \<and> search_ok (itl_real ?sp ?rs ?N ?m) (lo_rate qa) (hi_rate qa) t x"
    using size_search_ok [where ok = ?ok and g = "itl_real ?sp ?rs ?N" and qa = qa and fmt = fmt and t = t,
      OF itl.BinarySearch_result [OF _ rg(1,2)] okm rg(2)] by blast
  have "qa_wf (qa\<lparr>qa_Model := m\<rparr>)" using qa_wf_model [OF assms] m by blast
  with s m r show ?thesis by (auto simp: searched_def qa_itl_def same_queue_def)
qed

lemma qa_model_update [simp]:
  "lo_rate (qa\<lparr>qa_Model := m\<rparr>) = lo_rate qa" "hi_rate (qa\<lparr>qa_Model := m\<rparr>) = hi_rate qa"
  by (simp_all add: lo_rate_def hi_rate_def)

lemma qa_itl_same: "same_queue (qa_Model qa) m \<Longrightarrow> qa_itl (qa\<lparr>qa_Model := m\<rparr>) = qa_itl qa"
  using model_stat_cong [of m "qa_Model qa"] by (simp add: qa_itl_def itl_real_def same_queue_def fun_eq_iff)

text \<open>The last step of sizing: the analysis at the smallest of the three rates.\<close>

lemma size_finish:
  assumes "qa_wf qa" and wf: "qa_wf (qa\<lparr>qa_Model := m\<rparr>)" and sq: "same_queue (qa_Model qa) m"
    and "search_ok g1 (lo_rate qa) (hi_rate qa) t1 x1" and "search_ok g2 (lo_rate qa) (hi_rate qa) t2 x2"
  shows "\<exists>q am X. Analyze (qa\<lparr>qa_Model := m\<rparr>)
      (Fin (min (min x1 x2) (if 0 < t3 then hi_rate qa * (1 - 1 / 10) else hi_rate qa) * 1000)) = Some (q, Inr am) \<and>
    (\<exists>q. Analyze qa (Fin (min (min x1 x2) (if 0 < t3 then hi_rate qa * (1 - 1 / 10) else hi_rate qa) * 1000)) =
      Some (q, Inr am)) \<and> qa_wf q \<and> (\<exists>m'. q = qa\<lparr>qa_Model := m'\<rparr>) \<and> am_Throughput am = Fin X \<and>
    0 < X \<and> X \<le> min (min x1 x2) (if 0 < t3 then hi_rate qa * (1 - 1 / 10) else hi_rate qa) * 1000"
proof -
  define r where "r = min (min x1 x2) (if 0 < t3 then hi_rate qa * (1 - 1 / 10) else hi_rate qa) * 1000"
  note rg = qa_wf_range [OF assms(1)]
  have "0 < x1" "0 < x2" "x1 \<le> hi_rate qa" using assms(4,5) rg(1) by (auto simp: search_ok_def)
  then have r: "0 < r" "r \<le> hi_rate qa * 1000" using rg(1,2) by (auto simp: r_def min_def)
  let ?q = "qa\<lparr>qa_Model := m\<rparr>" and ?X = "model_throughput m (r / 1000)"
  have mx: "Fin r \<le> rr_Max (qa_RateRange qa)" "Fin r \<le> rr_Max (qa_RateRange ?q)" using r rg(5) by simp_all
  obtain am where am: "Analyze ?q (Fin r) = Some (?q\<lparr>qa_Model := sd_solved m (r / 1000) (Fin 1)\<rparr>, Inr am)"
      "am_Throughput am = Fin (?X * 1000)"
    using Analyze_exact [OF wf r(1) mx(2)] by (simp add: Let_def)
  have "model_ok m" using wf by (simp add: qa_wf_def Let_def)
  then have "?X * 1000 \<le> r" "0 < ?X" using model_busy_bounds [of m "r / 1000"] r(1) by simp_all
  moreover have "qa_wf (?q\<lparr>qa_Model := sd_solved m (r / 1000) (Fin 1)\<rparr>)"
    using qa_wf_solved [OF wf, of "r / 1000"] r(1) by simp
  moreover have "\<exists>q. Analyze qa (Fin r) = Some (q, Inr am)"
    using analyze_cong [OF assms(1) wf _ _ r(1) mx(1) am(1)] sq by (simp add: same_queue_def)
  ultimately show ?thesis unfolding r_def [symmetric] using am by auto
qed

lemma Size_exact:
  assumes "qa_wf qa"
    and "tp = \<lparr>TargetTTFT = Fin t1, TargetITL = Fin t2, TargetTPS = Fin t3\<rparr>"
    and "0 \<le> t1" and "0 \<le> t2" and "0 \<le> t3"
  shows "let a = lo_rate qa; b = hi_rate qa;
      x3 = (if 0 < t3 then b * (1 - 1 / 10) else b)
    in \<exists>qa' res. Size qa tp = Some (qa', res) \<and> qa_wf qa' \<and> (\<exists>m. qa' = qa\<lparr>qa_Model := m\<rparr>) \<and>
      (case res of
         Inl _ \<Rightarrow> out_of_reach (qa_ttft qa) a b t1 \<or> out_of_reach (qa_itl qa) a b t2
       | Inr (tr, am, achieved) \<Rightarrow> \<exists>x1 x2 X. search_ok (qa_ttft qa) a b t1 x1 \<and>
           search_ok (qa_itl qa) a b t2 x2 \<and>
           tr = \<lparr>RateTargetTTFT = Fin (x1 * 1000), RateTargetITL = Fin (x2 * 1000),
                 RateTargetTPS = Fin (x3 * 1000)\<rparr> \<and>
           (\<exists>q. Analyze qa (Fin (min (min x1 x2) x3 * 1000)) = Some (q, Inr am)) \<and>
           am_Throughput am = Fin X \<and> 0 < X \<and> X \<le> min (min x1 x2) x3 * 1000 \<and>
           TargetITL achieved = am_AvgTokenTime am \<and>
           TargetTTFT achieved = am_AvgWaitTime am + am_AvgPrefillTime am \<and>
           TargetTPS achieved = Fin (X * real_of_int (AvgOutputTokens (qa_RequestSize qa))))"
proof -
  let ?a = "lo_rate qa" and ?b = "hi_rate qa"
  define x3 where "x3 = (if 0 < t3 then hi_rate qa * (1 - 1 / 10) else hi_rate qa)"
  have x3: "(if 0 < t3 then Fin ?b * (Fin 1 - StabilitySafetyFraction) else Fin ?b) = Fin x3"
    by (simp add: x3_def StabilitySafetyFraction_def)
  note rg = qa_wf_range [OF assms(1)]
  have chk: "TargetPerf_check tp = None" using assms by (simp add: TargetPerf_check_def)
  obtain m1 r1 where s1: "size_search
      ''failed to calculate lambdaStarTTFT, targetTTFT=%v, range=%s, ind=%d, err=%v''
      (EvalTTFT (qa_ServiceParms qa) (qa_RequestSize qa) (qa_MaxBatchSize qa)) qa (Fin ?a) (Fin ?b) (Fin t1) =
      Some (qa\<lparr>qa_Model := m1\<rparr>, r1)" "qa_wf (qa\<lparr>qa_Model := m1\<rparr>)" "same_queue (qa_Model qa) m1"
      "searched (qa_ttft qa) qa t1 r1"
    using size_search_ttft [OF assms(1)] by blast
  let ?q1 = "qa\<lparr>qa_Model := m1\<rparr>"
  obtain m2 r2 where s2: "size_search
      ''failed to calculate lambdaStarITL, targetITL=%v, range=%s, ind=%d, err=%v''
      (EvalITL (qa_ServiceParms qa) (qa_RequestSize qa) (qa_MaxBatchSize qa)) ?q1 (Fin ?a) (Fin ?b) (Fin t2) =
      Some (qa\<lparr>qa_Model := m2\<rparr>, r2)" "qa_wf (qa\<lparr>qa_Model := m2\<rparr>)" "same_queue m1 m2"
      "searched (qa_itl ?q1) ?q1 t2 r2"
    using size_search_itl [OF s1(2)] by fastforce
  show ?thesis
  proof (cases r1)
    case (Inl e)
    then have "Size qa tp = Some (?q1, Inl e)"
      using chk s1(1) assms(2) by (simp add: Size_def rg(3,4) Let_def)
    with s1(2,4) Inl show ?thesis by (auto simp: Let_def searched_def)
  next
    case (Inr y1)
    then obtain x1 where x1: "r1 = Inr (Fin x1)" "search_ok (qa_ttft qa) ?a ?b t1 x1"
      using s1(4) by (auto simp: searched_def)
    show ?thesis
    proof (cases r2)
      case (Inl e)
      then have "Size qa tp = Some (qa\<lparr>qa_Model := m2\<rparr>, Inl e)"
        using chk s1(1) s2(1) x1(1) assms(2) by (simp add: Size_def rg(3,4) Let_def)
      with s2(2,4) Inl show ?thesis by (auto simp: Let_def searched_def qa_itl_same [OF s1(3)])
    next
      case (Inr y2)
      then obtain x2 where x2: "r2 = Inr (Fin x2)" "search_ok (qa_itl qa) ?a ?b t2 x2"
        using s2(4) by (auto simp: searched_def qa_itl_same [OF s1(3)])
      note fin = size_finish [OF assms(1) s2(2) _ x1(2) x2(2), of t3, folded x3_def]
      have "same_queue (qa_Model qa) m2" using s1(3) s2(3) by (simp add: same_queue_def)
      from fin [OF this] obtain q am X where an:
        "Analyze (qa\<lparr>qa_Model := m2\<rparr>) (Fin (min (min x1 x2) x3 * 1000)) = Some (q, Inr am)"
        "\<exists>q. Analyze qa (Fin (min (min x1 x2) x3 * 1000)) = Some (q, Inr am)" "qa_wf q"
        "\<exists>m. q = qa\<lparr>qa_Model := m\<rparr>"
        "am_Throughput am = Fin X" "0 < X" "X \<le> min (min x1 x2) x3 * 1000" by blast
      then have rq: "qa_RequestSize q = qa_RequestSize qa" by auto
      have "Size qa tp = Some (q, Inr (\<lparr>RateTargetTTFT = Fin (x1 * 1000), RateTargetITL = Fin (x2 * 1000),
          RateTargetTPS = Fin (x3 * 1000)\<rparr>, am, \<lparr>TargetTTFT = am_AvgWaitTime am + am_AvgPrefillTime am,
          TargetITL = am_AvgTokenTime am, TargetTPS = Fin (X * real_of_int (AvgOutputTokens (qa_RequestSize qa)))\<rparr>))"
        using chk s1(1) s2(1) x1(1) x2(1) an(1,5) rq assms(2)
        by (simp add: Size_def rg(3,4) Let_def x3 float_of_int_def)
      then show ?thesis
        using an(2-7) x1(2) x2(2) unfolding x3_def [symmetric] Let_def by fastforce
    qed
  qed
qed

text \<open>C7: sizing always returns and keeps the analyzer well formed. It fails only when a latency
  target is out of reach already at the lowest rate of the range. Otherwise the rate found for
  each target lies in the range and either meets the target within tolerance, or is bracketed to
  one part in 2 to the power 100 of the range, or is the end of the range because even that meets the
  target; the metrics are those of the smallest of the three rates, so their throughput is at
  most each of them.\<close>

theorem size_sound:
  assumes "qa_wf qa"
    and "tp = \<lparr>TargetTTFT = Fin t1, TargetITL = Fin t2, TargetTPS = Fin t3\<rparr>"
    and "0 \<le> t1" and "0 \<le> t2" and "0 \<le> t3"
  shows "let a = lo_rate qa; b = hi_rate qa;
      x3 = (if 0 < t3 then b * (1 - 1 / 10) else b)
    in \<exists>qa' res. Size qa tp = Some (qa', res) \<and> qa_wf qa' \<and> (\<exists>m. qa' = qa\<lparr>qa_Model := m\<rparr>) \<and>
      (case res of
         Inl _ \<Rightarrow> out_of_reach (qa_ttft qa) a b t1 \<or> out_of_reach (qa_itl qa) a b t2
       | Inr (tr, am, achieved) \<Rightarrow> \<exists>x1 x2 X. search_ok (qa_ttft qa) a b t1 x1 \<and>
           search_ok (qa_itl qa) a b t2 x2 \<and>
           tr = \<lparr>RateTargetTTFT = Fin (x1 * 1000), RateTargetITL = Fin (x2 * 1000),
                 RateTargetTPS = Fin (x3 * 1000)\<rparr> \<and>
           (\<exists>q. Analyze qa (Fin (min (min x1 x2) x3 * 1000)) = Some (q, Inr am)) \<and>
           am_Throughput am = Fin X \<and> 0 < X \<and> X \<le> min (min x1 x2) x3 * 1000 \<and>
           TargetITL achieved = am_AvgTokenTime am \<and>
           TargetTTFT achieved = am_AvgWaitTime am + am_AvgPrefillTime am \<and>
           TargetTPS achieved = Fin (X * real_of_int (AvgOutputTokens (qa_RequestSize qa))))"
  by (rule Size_exact [OF assms])

theorem size_sound_witness:
  "\<exists>qa' res. Size sample_qa \<lparr>TargetTTFT = Fin 10, TargetITL = Fin 3, TargetTPS = Fin 0\<rparr> = Some (qa', res) \<and>
    qa_wf qa'"
  using size_sound [OF sample_qa_wf refl, of 10 3 0] by (auto simp: Let_def)

text \<open>C28: the effective concurrency inverts the service time. For requests with input tokens, the
  concurrency computed from the time to prefill and decode a batch of n is n. For
  decode-only requests it is too small: the prefill base time is subtracted although no prefill
  took place, so a batch of n is reported as n less the base time over the decode slope.\<close>

theorem effective_concurrency_inverts:
  assumes "parms_ok sp rs" and "0 \<le> n" and "n \<le> real_of_int N"
    and "sp_Prefill sp = Some p" and "sp_Decode sp = Some q"
  shows "EffectiveConcurrency (PrefillTime p (AvgInputTokens rs) (Fin n) +
      float_of_int (AvgOutputTokens rs - 1) * DecodeTime q (Fin n)) sp rs N =
    (if AvgInputTokens rs = 0
     then Fin (max 0 (n - real_of (Gamma p) / (real_of (Beta q) * real_of_int (AvgOutputTokens rs - 1))))
     else Fin n)"
proof -
  from assms(1) obtain g d a b where p: "sp_Prefill sp = Some \<lparr>Gamma = Fin g, Delta = Fin d\<rparr>"
    "sp_Decode sp = Some \<lparr>Alpha = Fin a, Beta = Fin b\<rparr>" "0 \<le> g" "0 \<le> d" "0 \<le> a" "0 \<le> b"
    "0 \<le> AvgInputTokens rs" "1 \<le> AvgOutputTokens rs"
    "0 < d * real_of_int (AvgInputTokens rs) + b * real_of_int (AvgOutputTokens rs - 1)"
    by (rule parms_okE)
  let ?i = "real_of_int (AvgInputTokens rs)" and ?o = "real_of_int (AvgOutputTokens rs - 1)"
  let ?D = "d * ?i + b * ?o"
  have pq: "p = \<lparr>Gamma = Fin g, Delta = Fin d\<rparr>" "q = \<lparr>Alpha = Fin a, Beta = Fin b\<rparr>"
    using assms(4,5) p(1,2) by simp_all
  let ?T = "(if AvgInputTokens rs = 0 then 0 else g + d * ?i * n) + ?o * (a + b * n)"
  have T: "PrefillTime p (AvgInputTokens rs) (Fin n) +
      float_of_int (AvgOutputTokens rs - 1) * DecodeTime q (Fin n) = Fin ?T"
    by (simp add: pq PrefillTime_def DecodeTime_def float_of_int_def)
  have e: "eff_real sp rs N ?T = min (max ((?T - (g + a * ?o)) / ?D) 0) (real_of_int N)"
    using p(1,2) by (simp add: eff_real_def Let_def)
  show ?thesis
  proof (cases "AvgInputTokens rs = 0")
    case True
    then have D: "0 < b * ?o" "?D = b * ?o" and T': "?T - (g + a * ?o) = b * ?o * n - g"
      using p(9) by (simp_all add: algebra_simps)
    have "(x * n - g) / x = n - g / x" if "0 < x" for x using that by (simp add: diff_divide_distrib)
    from this [OF D(1)] have "(?T - (g + a * ?o)) / ?D = n - g / (b * ?o)" unfolding T' D(2) .
    moreover have "0 \<le> g / (b * ?o)" using p(3) D(1) by (rule divide_nonneg_pos)
    ultimately have "eff_real sp rs N ?T = max 0 (n - g / (b * ?o))"
      using e assms(2,3) by (simp only: min_def max_def) auto
    with True show ?thesis unfolding T EffectiveConcurrency_Fin [OF assms(1)] by (simp add: pq)
  next
    case False
    then have "?T - (g + a * ?o) = ?D * n" by (simp add: algebra_simps)
    then have "(?T - (g + a * ?o)) / ?D = n" using p(9) by simp
    then have "eff_real sp rs N ?T = n" using e assms(2,3) by (simp only: max_def min_def) auto
    with False show ?thesis unfolding T EffectiveConcurrency_Fin [OF assms(1)] by simp
  qed
qed

theorem effective_concurrency_inverts_witness:
  "EffectiveConcurrency (PrefillTime \<lparr>Gamma = Fin 1, Delta = Fin 0\<rparr> 1 (Fin 3) +
     float_of_int 1 * DecodeTime \<lparr>Alpha = Fin 1, Beta = Fin 1\<rparr> (Fin 3)) sample_parms sample_size 4 = Fin 3"
  using effective_concurrency_inverts [OF sample_parms_ok, of 3 4]
  by (simp add: sample_parms_def sample_size_def)

end
