(* ===== verification/Inferno_Core.thy ===== *)
theory Inferno_Core
  imports Inferno_Config Queue_Analyzer
begin

text \<open>
  The objects of the optimizer (\<^verbatim>\<open>pkg/core\<close>): accelerators, models, service classes, servers,
  allocations and the system that holds them. The package reads a global \<^verbatim>\<open>TheSystem\<close>, which
  \<^verbatim>\<open>NewManager\<close> sets to the system it manages; here that system is an argument. Maps of pointers are
  maps of values, a pointer that may be nil is an option, and an operation that updates an object
  returns it. An operation that solves a queueing model may not return: its result is then an
  option of its own, with \<open>None\<close> for a call that does not return.
\<close>

section \<open>Accelerators\<close>

record Accelerator =
  ag_name :: string
  ag_spec :: AcceleratorSpec
  ag_slopeLow :: gofloat
  ag_slopeHigh :: gofloat

definition NewAcceleratorFromSpec :: "AcceleratorSpec \<Rightarrow> Accelerator" where
  "NewAcceleratorFromSpec spec =
     \<lparr>ag_name = as_Name spec, ag_spec = spec, ag_slopeLow = Fin 0, ag_slopeHigh = Fin 0\<rparr>"

definition Accelerator_Calculate :: "Accelerator \<Rightarrow> Accelerator" where
  "Accelerator_Calculate g =
     (let pw = as_Power (ag_spec g)
      in g\<lparr>ag_slopeLow := float_of_int (pw_MidPower pw - pw_Idle pw) / pw_MidUtil pw,
           ag_slopeHigh := float_of_int (pw_Full pw - pw_MidPower pw) / (Fin 1 - pw_MidUtil pw)\<rparr>)"

definition Power :: "Accelerator \<Rightarrow> gofloat \<Rightarrow> gofloat" where
  "Power g util =
     (let pw = as_Power (ag_spec g)
      in if util \<le> pw_MidUtil pw then float_of_int (pw_Idle pw) + ag_slopeLow g * util
         else float_of_int (pw_MidPower pw) + ag_slopeHigh g * (util - pw_MidUtil pw))"

section \<open>Models\<close>

record Model =
  md_name :: string
  md_perfData :: "(string, ModelAcceleratorPerfData) gomap"
  md_numInstances :: "(string, int) gomap"

definition NewModel :: "string \<Rightarrow> Model" where
  "NewModel name = \<lparr>md_name = name, md_perfData = [], md_numInstances = []\<rparr>"

definition NumInstances :: "Model \<Rightarrow> string \<Rightarrow> int" where
  "NumInstances m acceleratorName = mget0 0 (md_numInstances m) acceleratorName"

definition PerfData :: "Model \<Rightarrow> string \<Rightarrow> ModelAcceleratorPerfData option" where
  "PerfData m acceleratorName = mget (md_perfData m) acceleratorName"

definition AddPerfDataFromSpec :: "Model \<Rightarrow> ModelAcceleratorPerfData \<Rightarrow> Model" where
  "AddPerfDataFromSpec m spec =
     (if pd_Name spec = md_name m then
        m\<lparr>md_perfData := mput (pd_Acc spec) spec (md_perfData m),
          md_numInstances := mput (pd_Acc spec) (if pd_AccCount spec \<le> 0 then 1 else pd_AccCount spec)
                               (md_numInstances m)\<rparr>
      else m)"

definition RemovePerfData :: "Model \<Rightarrow> string \<Rightarrow> Model" where
  "RemovePerfData m accName = m\<lparr>md_perfData := mdel accName (md_perfData m)\<rparr>"

definition Model_Spec :: "Model \<Rightarrow> ModelAcceleratorPerfData list" where
  "Model_Spec m = map snd (md_perfData m)"

section \<open>Service classes\<close>

record Target =
  tg_ITL :: gofloat
  tg_TTFT :: gofloat
  tg_TPS :: gofloat

record ServiceClass =
  sv_cname :: string
  sv_priority :: int
  sv_targets :: "(string, Target) gomap"

definition NewServiceClass :: "string \<Rightarrow> int \<Rightarrow> ServiceClass" where
  "NewServiceClass name priority =
     (let priority = (if priority < DefaultHighPriority \<or> priority > DefaultLowPriority
                      then DefaultServiceClassPriority else priority)
      in \<lparr>sv_cname = name, sv_priority = priority, sv_targets = []\<rparr>)"

definition AddModelTarget :: "ServiceClass \<Rightarrow> ModelTarget \<Rightarrow> ServiceClass" where
  "AddModelTarget c spec =
     c\<lparr>sv_targets := mput (mt_Model spec)
         \<lparr>tg_ITL = mt_SLO_ITL spec, tg_TTFT = mt_SLO_TTFT spec, tg_TPS = mt_SLO_TPS spec\<rparr> (sv_targets c)\<rparr>"

definition NewServiceClassFromSpec :: "ServiceClassSpec \<Rightarrow> ServiceClass" where
  "NewServiceClassFromSpec spec =
     foldl AddModelTarget (NewServiceClass (sc_Name spec) (sc_Priority spec)) (sc_ModelTargets spec)"

definition ModelTarget_of :: "ServiceClass \<Rightarrow> string \<Rightarrow> Target option" where
  "ModelTarget_of c modelName = mget (sv_targets c) modelName"

definition UpdateModelTargets :: "ServiceClass \<Rightarrow> ServiceClassSpec \<Rightarrow> ServiceClass \<times> bool" where
  "UpdateModelTargets c spec =
     (if sc_Name spec \<noteq> sv_cname c \<or> sc_Priority spec \<noteq> sv_priority c then (c, False)
      else (foldl AddModelTarget c (sc_ModelTargets spec), True))"

definition RemoveModelTarget :: "ServiceClass \<Rightarrow> string \<Rightarrow> ServiceClass" where
  "RemoveModelTarget c modelName = c\<lparr>sv_targets := mdel modelName (sv_targets c)\<rparr>"

definition ServiceClass_Spec :: "ServiceClass \<Rightarrow> ServiceClassSpec" where
  "ServiceClass_Spec c =
     \<lparr>sc_Name = sv_cname c, sc_Priority = sv_priority c,
      sc_ModelTargets = map (\<lambda>(modelName, t). \<lparr>mt_Model = modelName, mt_SLO_ITL = tg_ITL t,
        mt_SLO_TTFT = tg_TTFT t, mt_SLO_TPS = tg_TPS t\<rparr>) (sv_targets c)\<rparr>"

section \<open>Allocations\<close>

record Allocation =
  al_accelerator :: string
  al_numReplicas :: int
  al_batchSize :: int
  al_cost :: gofloat
  al_value :: gofloat
  al_itl :: gofloat
  al_ttft :: gofloat
  al_rho :: gofloat
  al_maxArrvRatePerReplica :: gofloat

text \<open>A clone is a new struct with the same fields.\<close>

definition Clone :: "Allocation \<Rightarrow> Allocation" where
  "Clone a = \<lparr>al_accelerator = al_accelerator a, al_numReplicas = al_numReplicas a, al_batchSize = al_batchSize a,
     al_cost = al_cost a, al_value = al_value a, al_itl = al_itl a, al_ttft = al_ttft a, al_rho = al_rho a,
     al_maxArrvRatePerReplica = al_maxArrvRatePerReplica a\<rparr>"

lemma Clone_same [simp]: "Clone a = a"
  by (simp add: Clone_def)

definition SetNumReplicas :: "Allocation \<Rightarrow> int \<Rightarrow> Allocation" where
  "SetNumReplicas a n = a\<lparr>al_numReplicas := n\<rparr>"

definition SetMaxBatchSize :: "Allocation \<Rightarrow> int \<Rightarrow> Allocation" where
  "SetMaxBatchSize a batchSize = a\<lparr>al_batchSize := batchSize\<rparr>"

definition SetCost :: "Allocation \<Rightarrow> gofloat \<Rightarrow> Allocation" where
  "SetCost a cost = a\<lparr>al_cost := cost\<rparr>"

definition SetValue :: "Allocation \<Rightarrow> gofloat \<Rightarrow> Allocation" where
  "SetValue a value = a\<lparr>al_value := value\<rparr>"

definition MaxRPM :: "Allocation \<Rightarrow> gofloat" where
  "MaxRPM a = al_maxArrvRatePerReplica a * Fin 1000 * Fin 60"

definition Saturated :: "Allocation \<Rightarrow> gofloat \<Rightarrow> bool" where
  "Saturated a totalRate \<longleftrightarrow> float_of_int (al_numReplicas a) * MaxRPM a < totalRate"

definition TransitionPenalty :: "Allocation \<Rightarrow> Allocation \<Rightarrow> gofloat" where
  "TransitionPenalty a b =
     (if al_accelerator a = al_accelerator b then
        if al_numReplicas a = al_numReplicas b then Fin 0 else al_cost b - al_cost a
      else AccelPenaltyFactor * (al_cost a + al_cost b) + (al_cost b - al_cost a))"

definition AllocationData_of :: "Allocation \<Rightarrow> AllocationData" where
  "AllocationData_of a =
     \<lparr>ad_Accelerator = al_accelerator a, ad_NumReplicas = al_numReplicas a, ad_MaxBatch = al_batchSize a,
      ad_Cost = al_cost a, ad_ITLAverage = al_itl a, ad_TTFTAverage = al_ttft a,
      ad_Load = zero_ServerLoadSpec\<rparr>"

definition AllocationFromData :: "AllocationData \<Rightarrow> Allocation" where
  "AllocationFromData data =
     \<lparr>al_accelerator = ad_Accelerator data, al_numReplicas = ad_NumReplicas data,
      al_batchSize = ad_MaxBatch data, al_cost = ad_Cost data, al_value = Fin 0,
      al_itl = ad_ITLAverage data, al_ttft = ad_TTFTAverage data, al_rho = Fin 0,
      al_maxArrvRatePerReplica = Fin 0\<rparr>"

record AllocationDiff =
  df_oldAccelerator :: string
  df_newAccelerator :: string
  df_oldNumReplicas :: int
  df_newNumReplicas :: int
  df_costDiff :: gofloat

definition CreateAllocationDiff :: "Allocation option \<Rightarrow> Allocation option \<Rightarrow> AllocationDiff option" where
  "CreateAllocationDiff a b =
     (if a = None \<and> b = None then None
      else Some
        \<lparr>df_oldAccelerator = (case a of None \<Rightarrow> ''none'' | Some x \<Rightarrow> al_accelerator x),
         df_newAccelerator = (case b of None \<Rightarrow> ''none'' | Some x \<Rightarrow> al_accelerator x),
         df_oldNumReplicas = (case a of None \<Rightarrow> 0 | Some x \<Rightarrow> al_numReplicas x),
         df_newNumReplicas = (case b of None \<Rightarrow> 0 | Some x \<Rightarrow> al_numReplicas x),
         df_costDiff = (case b of None \<Rightarrow> Fin 0 | Some x \<Rightarrow> al_cost x) -
                       (case a of None \<Rightarrow> Fin 0 | Some x \<Rightarrow> al_cost x)\<rparr>)"

section \<open>Servers\<close>

record Server =
  sr_name :: string
  sr_serviceClassName :: string
  sr_modelName :: string
  sr_keepAccelerator :: bool
  sr_minNumReplicas :: int
  sr_maxBatchSize :: int
  sr_load :: "ServerLoadSpec option"
  sr_allAllocations :: "(string, Allocation) gomap"
  sr_allocation :: "Allocation option"
  sr_curAllocation :: "Allocation option"
  sr_spec :: ServerSpec

definition NewServerFromSpec :: "ServerSpec \<Rightarrow> Server" where
  "NewServerFromSpec spec =
     (let svcName = (if ss_Class spec = '''' then DefaultServiceClassName else ss_Class spec)
      in \<lparr>sr_name = ss_Name spec, sr_serviceClassName = svcName, sr_modelName = ss_Model spec,
          sr_keepAccelerator = ss_KeepAccelerator spec, sr_minNumReplicas = ss_MinNumReplicas spec,
          sr_maxBatchSize = ss_MaxBatchSize spec, sr_load = Some (ad_Load (ss_CurrentAlloc spec)),
          sr_allAllocations = [], sr_allocation = None,
          sr_curAllocation = Some (AllocationFromData (ss_CurrentAlloc spec)), sr_spec = spec\<rparr>)"

definition GetCandidateAccelerators ::
  "Server \<Rightarrow> (string, Accelerator) gomap \<Rightarrow> (string, Accelerator) gomap" where
  "GetCandidateAccelerators s accelerators =
     (case sr_curAllocation s of
        Some cur \<Rightarrow>
          if sr_keepAccelerator s \<and> al_accelerator cur \<noteq> '''' then
            (case mget accelerators (al_accelerator cur) of
               Some curAcc \<Rightarrow> [(al_accelerator cur, curAcc)]
             | None \<Rightarrow> [])
          else accelerators
      | None \<Rightarrow> accelerators)"

text \<open>\<^verbatim>\<open>UpdateDesiredAlloc\<close> dereferences the load, which every constructed server has.\<close>

definition UpdateDesiredAlloc :: "Server \<Rightarrow> Server" where
  "UpdateDesiredAlloc s =
     (case sr_allocation s of
        Some a \<Rightarrow> s\<lparr>sr_spec := (sr_spec s)\<lparr>ss_DesiredAlloc := (AllocationData_of a)\<lparr>ad_Load := the (sr_load s)\<rparr>\<rparr>\<rparr>
      | None \<Rightarrow> s\<lparr>sr_spec := (sr_spec s)\<lparr>ss_DesiredAlloc := zero_AllocationData\<rparr>\<rparr>)"

definition SetAllocation :: "Server \<Rightarrow> Allocation \<Rightarrow> Server" where
  "SetAllocation s alloc = UpdateDesiredAlloc (s\<lparr>sr_allocation := Some alloc\<rparr>)"

definition SetLoad :: "Server \<Rightarrow> ServerLoadSpec option \<Rightarrow> Server" where
  "SetLoad s load = s\<lparr>sr_load := load\<rparr>"

definition SetCurAllocation :: "Server \<Rightarrow> Allocation option \<Rightarrow> Server" where
  "SetCurAllocation s curAllocation = s\<lparr>sr_curAllocation := curAllocation\<rparr>"

definition RemoveAllocation :: "Server \<Rightarrow> Server" where
  "RemoveAllocation s = s\<lparr>sr_allocation := None\<rparr>"

definition ApplyDesiredAlloc :: "Server \<Rightarrow> Server" where
  "ApplyDesiredAlloc s =
     (let s = s\<lparr>sr_spec := (sr_spec s)\<lparr>ss_CurrentAlloc := ss_DesiredAlloc (sr_spec s)\<rparr>\<rparr>
      in s\<lparr>sr_curAllocation := Some (AllocationFromData (ss_CurrentAlloc (sr_spec s))),
           sr_load := Some (ad_Load (ss_CurrentAlloc (sr_spec s)))\<rparr>)"

definition Server_Saturated :: "Server \<Rightarrow> bool" where
  "Server_Saturated s =
     (case (sr_allocation s, sr_load s) of
        (Some a, Some ld) \<Rightarrow> Saturated a (ld_ArrivalRate ld)
      | _ \<Rightarrow> False)"

end
