(* ===== verification/Inferno_System.thy ===== *)
theory Inferno_System
  imports Inferno_Core
begin

text \<open>
  The system of accelerators, models, service classes and servers (\<^verbatim>\<open>pkg/core/system.go\<close>), and
  the operations that read it: creating an allocation of an accelerator to a server
  (\<^verbatim>\<open>allocation.go\<close>) and computing the candidate allocations of a server (\<^verbatim>\<open>server.go\<close>).
\<close>

section \<open>The system\<close>

record AllocationByType =
  bt_name :: string
  bt_count :: int
  bt_limit :: int
  bt_cost :: gofloat

record System =
  accelerators :: "(string, Accelerator) gomap"
  models :: "(string, Model) gomap"
  serviceClasses :: "(string, ServiceClass) gomap"
  servers :: "(string, Server) gomap"
  capacity :: "(string, int) gomap"
  allocationByType :: "(string, AllocationByType) gomap"
  allocationSolution :: "AllocationSolution option"

definition NewSystem :: System where
  "NewSystem = \<lparr>accelerators = [], models = [], serviceClasses = [], servers = [], capacity = [],
     allocationByType = [], allocationSolution = None\<rparr>"

definition GetAccelerator :: "System \<Rightarrow> string \<Rightarrow> Accelerator option" where
  "GetAccelerator s name = mget (accelerators s) name"

definition GetModel :: "System \<Rightarrow> string \<Rightarrow> Model option" where
  "GetModel s name = mget (models s) name"

definition GetServiceClass :: "System \<Rightarrow> string \<Rightarrow> ServiceClass option" where
  "GetServiceClass s name = mget (serviceClasses s) name"

definition GetServer :: "System \<Rightarrow> string \<Rightarrow> Server option" where
  "GetServer s name = mget (servers s) name"

definition AddAcceleratorFromSpec :: "System \<Rightarrow> AcceleratorSpec \<Rightarrow> System" where
  "AddAcceleratorFromSpec s spec =
     s\<lparr>accelerators := mput (as_Name spec) (NewAcceleratorFromSpec spec) (accelerators s)\<rparr>"

definition SetAcceleratorsFromSpec :: "System \<Rightarrow> AcceleratorSpec list \<Rightarrow> System" where
  "SetAcceleratorsFromSpec s d = foldl AddAcceleratorFromSpec s d"

definition RemoveAccelerator :: "System \<Rightarrow> string \<Rightarrow> System fallible" where
  "RemoveAccelerator s name =
     (if mget (accelerators s) name = None then Inl (sprintf ''accelerator %s not found'' [FStr name])
      else Inr (s\<lparr>accelerators := mdel name (accelerators s)\<rparr>))"

definition SetCountFromSpec :: "System \<Rightarrow> AcceleratorCount \<Rightarrow> System" where
  "SetCountFromSpec s spec = s\<lparr>capacity := mput (ac_Type spec) (ac_Count spec) (capacity s)\<rparr>"

definition SetCapacityFromSpec :: "System \<Rightarrow> AcceleratorCount list \<Rightarrow> System" where
  "SetCapacityFromSpec s d = foldl SetCountFromSpec s d"

definition AddModel :: "System \<Rightarrow> string \<Rightarrow> System" where
  "AddModel s name = s\<lparr>models := mput name (NewModel name) (models s)\<rparr>"

definition SetModel_step :: "System \<Rightarrow> ModelAcceleratorPerfData \<Rightarrow> System" where
  "SetModel_step s pd =
     (let modelName = pd_Name pd;
          model = (case mget (models s) modelName of None \<Rightarrow> NewModel modelName | Some m \<Rightarrow> m)
      in s\<lparr>models := mput modelName (AddPerfDataFromSpec model pd) (models s)\<rparr>)"

definition SetModelsFromSpec :: "System \<Rightarrow> ModelAcceleratorPerfData list \<Rightarrow> System" where
  "SetModelsFromSpec s d = foldl SetModel_step s d"

definition RemoveModel :: "System \<Rightarrow> string \<Rightarrow> System fallible" where
  "RemoveModel s name =
     (if mget (models s) name = None then Inl (sprintf ''model %s not found'' [FStr name])
      else Inr (s\<lparr>models := mdel name (models s)\<rparr>))"

definition AddServerFromSpec :: "System \<Rightarrow> ServerSpec \<Rightarrow> System" where
  "AddServerFromSpec s spec = s\<lparr>servers := mput (ss_Name spec) (NewServerFromSpec spec) (servers s)\<rparr>"

definition SetServersFromSpec :: "System \<Rightarrow> ServerSpec list \<Rightarrow> System" where
  "SetServersFromSpec s d =
     foldl (\<lambda>s v. s\<lparr>servers := mput (ss_Name v) (NewServerFromSpec v) (servers s)\<rparr>) s d"

definition RemoveServer :: "System \<Rightarrow> string \<Rightarrow> System fallible" where
  "RemoveServer s name =
     (if mget (servers s) name = None then Inl (sprintf ''server %s not found'' [FStr name])
      else Inr (s\<lparr>servers := mdel name (servers s)\<rparr>))"

definition SetServiceClassesFromSpec :: "System \<Rightarrow> ServiceClassSpec list \<Rightarrow> System" where
  "SetServiceClassesFromSpec s d =
     foldl (\<lambda>s c. s\<lparr>serviceClasses := mput (sc_Name c) (NewServiceClassFromSpec c) (serviceClasses s)\<rparr>) s d"

definition AddServiceClass :: "System \<Rightarrow> string \<Rightarrow> int \<Rightarrow> System" where
  "AddServiceClass s name priority =
     s\<lparr>serviceClasses := mput name (NewServiceClass name priority) (serviceClasses s)\<rparr>"

definition RemoveServiceClass :: "System \<Rightarrow> string \<Rightarrow> System fallible" where
  "RemoveServiceClass s name =
     (if mget (serviceClasses s) name = None then Inl (sprintf ''service class %s not found'' [FStr name])
      else Inr (s\<lparr>serviceClasses := mdel name (serviceClasses s)\<rparr>))"

definition SetFromSpec :: "System \<Rightarrow> SystemSpec \<Rightarrow> System \<times> OptimizerSpec" where
  "SetFromSpec s d =
     (let s = SetAcceleratorsFromSpec s (sy_Accelerators d);
          s = SetModelsFromSpec s (sy_Models d);
          s = SetServiceClassesFromSpec s (sy_ServiceClasses d);
          s = SetServersFromSpec s (sy_Servers d);
          s = SetCapacityFromSpec s (sy_Capacity d)
      in (s, sy_Optimizer d))"

definition Capacity :: "System \<Rightarrow> string \<Rightarrow> int \<times> bool" where
  "Capacity s name = (case mget (capacity s) name of None \<Rightarrow> (0, False) | Some c \<Rightarrow> (c, True))"

definition RemoveCapacity :: "System \<Rightarrow> string \<Rightarrow> System \<times> bool" where
  "RemoveCapacity s name =
     (case mget (capacity s) name of
        None \<Rightarrow> (s, False)
      | Some _ \<Rightarrow> (s\<lparr>capacity := mdel name (capacity s)\<rparr>, True))"

definition Server_Priority :: "System \<Rightarrow> Server \<Rightarrow> int" where
  "Server_Priority sys s =
     (case GetServiceClass sys (sr_serviceClassName s) of
        Some svc \<Rightarrow> sv_priority svc
      | None \<Rightarrow> DefaultServiceClassPriority)"

section \<open>Creating an allocation\<close>

definition zeroLoadAllocation ::
  "Server \<Rightarrow> Model \<Rightarrow> Accelerator \<Rightarrow> ModelAcceleratorPerfData \<Rightarrow> Allocation" where
  "zeroLoadAllocation server model acc perf =
     (let numReplicas = sr_minNumReplicas server; gName = ag_name acc
      in if numReplicas = 0 then
           \<lparr>al_accelerator = '''', al_numReplicas = 0, al_batchSize = 0, al_cost = Fin 0, al_value = Fin 0,
            al_itl = Fin 0, al_ttft = Fin 0, al_rho = Fin 0, al_maxArrvRatePerReplica = Fin 0\<rparr>
         else
           let maxBatchSize = (if sr_maxBatchSize server > 0 then sr_maxBatchSize server else pd_MaxBatchSize perf);
               totalNumInstances = NumInstances model gName * numReplicas;
               cost = as_Cost (ag_spec acc) * float_of_int totalNumInstances;
               dp = pd_DecodeParms perf; pp = pd_PrefillParms perf;
               decodeTime = cd_Alpha dp + cd_Beta dp;
               maxDecodeTime = cd_Alpha dp + cd_Beta dp * float_of_int maxBatchSize;
               prefillTime = cp_Gamma pp + cp_Delta pp;
               maxServTime = prefillTime + maxDecodeTime;
               maxArrvRatePerReplica = float_of_int maxBatchSize / maxServTime
           in \<lparr>al_accelerator = gName, al_numReplicas = numReplicas, al_batchSize = maxBatchSize,
               al_cost = cost, al_value = cost, al_itl = decodeTime, al_ttft = prefillTime,
               al_rho = Fin 0, al_maxArrvRatePerReplica = maxArrvRatePerReplica\<rparr>)"

text \<open>\<^verbatim>\<open>int(math.Ceil(x))\<close>. The language leaves the conversion of infinities and NaN to the
  implementation; the smallest integer is what amd64 gives.\<close>

fun ceil_int :: "gofloat \<Rightarrow> int" where
  "ceil_int (Fin x) = \<lceil>x\<rceil>"
| "ceil_int _ = - (2 ^ 63)"

text \<open>The configuration of the queue analyzer for a server: its batch size, a queue of ten times
  that, and the parameters of the performance data.\<close>

definition batch_size :: "Server \<Rightarrow> ModelAcceleratorPerfData \<Rightarrow> int \<Rightarrow> int" where
  "batch_size server perf K =
     (if sr_maxBatchSize server > 0 then sr_maxBatchSize server
      else max (godiv (pd_MaxBatchSize perf * pd_AtTokens perf) K) 1)"

definition queue_config :: "int \<Rightarrow> ModelAcceleratorPerfData \<Rightarrow> Configuration" where
  "queue_config N perf =
     \<lparr>qc_MaxBatchSize = N, qc_MaxQueueSize = N * MaxQueueToBatchRatio,
      qc_ServiceParms = Some
        \<lparr>sp_Prefill = Some \<lparr>Gamma = cp_Gamma (pd_PrefillParms perf), Delta = cp_Delta (pd_PrefillParms perf)\<rparr>,
         sp_Decode = Some \<lparr>Alpha = cd_Alpha (pd_DecodeParms perf), Beta = cd_Beta (pd_DecodeParms perf)\<rparr>\<rparr>\<rparr>"

text \<open>The part of \<^verbatim>\<open>CreateAllocation\<close> for a server with load, after the lookups: size the queue, take
  as many replicas as the total rate needs, and analyze one replica.\<close>

definition sizedAllocation ::
  "Server \<Rightarrow> Model \<Rightarrow> Accelerator \<Rightarrow> ModelAcceleratorPerfData \<Rightarrow> Target \<Rightarrow> ServerLoadSpec \<Rightarrow> string \<Rightarrow>
   Allocation option option" where
  "sizedAllocation server model acc perf target load gName =
     (let K = ld_AvgOutTokens load; N = batch_size server perf K;
          requestData = \<lparr>AvgInputTokens = ld_AvgInTokens load, AvgOutputTokens = K\<rparr>
      in case NewQueueAnalyzer (queue_config N perf) requestData of
           Inl err \<Rightarrow> Some None
         | Inr queueAnalyzer \<Rightarrow>
             case Size queueAnalyzer \<lparr>TargetTTFT = tg_TTFT target, TargetITL = tg_ITL target,
                    TargetTPS = tg_TPS target\<rparr> of
               None \<Rightarrow> None
             | Some (queueAnalyzer, Inl err) \<Rightarrow> Some None
             | Some (queueAnalyzer, Inr (targetRate, metrics, achieved)) \<Rightarrow>
                 let rateStar = am_Throughput metrics;
                     totalRate = (if feq (tg_TPS target) (Fin 0) then ld_ArrivalRate load / Fin 60
                                  else tg_TPS target / float_of_int K);
                     numReplicas = ceil_int (totalRate / rateStar);
                     numReplicas = max numReplicas (sr_minNumReplicas server);
                     totalNumInstances = NumInstances model gName * numReplicas;
                     cost = as_Cost (ag_spec acc) * float_of_int totalNumInstances;
                     rate = totalRate / float_of_int numReplicas
                 in case Analyze queueAnalyzer rate of
                      None \<Rightarrow> None
                    | Some (queueAnalyzer, Inl err) \<Rightarrow> Some None
                    | Some (queueAnalyzer, Inr metrics) \<Rightarrow>
                        Some (Some
                          \<lparr>al_accelerator = gName, al_numReplicas = numReplicas, al_batchSize = N,
                           al_cost = cost, al_value = cost, al_itl = am_AvgTokenTime metrics,
                           al_ttft = am_AvgWaitTime metrics + am_AvgPrefillTime metrics,
                           al_rho = am_Rho metrics, al_maxArrvRatePerReplica = rateStar / Fin 1000\<rparr>))"

definition CreateAllocation :: "System \<Rightarrow> string \<Rightarrow> string \<Rightarrow> Allocation option option" where
  "CreateAllocation sys serverName gName =
     (case GetAccelerator sys gName of None \<Rightarrow> Some None | Some acc \<Rightarrow>
      case GetServer sys serverName of None \<Rightarrow> Some None | Some server \<Rightarrow>
      case sr_load server of None \<Rightarrow> Some None | Some load \<Rightarrow>
      if ld_ArrivalRate load < Fin 0 \<or> ld_AvgInTokens load < 0 \<or> ld_AvgOutTokens load < 0 then Some None else
      case GetModel sys (sr_modelName server) of None \<Rightarrow> Some None | Some model \<Rightarrow>
      case PerfData model gName of None \<Rightarrow> Some None | Some perf \<Rightarrow>
      case GetServiceClass sys (sr_serviceClassName server) of None \<Rightarrow> Some None | Some svc \<Rightarrow>
      case ModelTarget_of svc (sr_modelName server) of None \<Rightarrow> Some None | Some target \<Rightarrow>
      if feq (ld_ArrivalRate load) (Fin 0) \<or> ld_AvgOutTokens load = 0
      then Some (Some (zeroLoadAllocation server model acc perf))
      else sizedAllocation server model acc perf target load gName)"

text \<open>\<^verbatim>\<open>Scale\<close> dereferences the new allocation without a test: \<open>None\<close> is also its panic when no
  allocation is feasible.\<close>

definition Scale :: "System \<Rightarrow> Allocation \<Rightarrow> string \<Rightarrow> (Allocation option \<times> int) option" where
  "Scale sys a serverName =
     (case GetServer sys serverName of None \<Rightarrow> Some (None, 0) | Some server \<Rightarrow>
      case sr_load server of None \<Rightarrow> Some (None, 0) | Some load \<Rightarrow>
      case GetAccelerator sys (al_accelerator a) of None \<Rightarrow> Some (None, 0) | Some acc \<Rightarrow>
      case CreateAllocation sys serverName (al_accelerator a) of
        Some (Some alloc) \<Rightarrow> Some (Some alloc, al_numReplicas alloc - al_numReplicas a)
      | _ \<Rightarrow> None)"

definition ReAllocate :: "System \<Rightarrow> string \<Rightarrow> (Allocation option \<times> string) option" where
  "ReAllocate sys serverName =
     map_option (\<lambda>(minVal, minAlloc).
         case minAlloc of None \<Rightarrow> (None, '''') | Some a \<Rightarrow> (Some a, al_accelerator a))
       (ofoldl (\<lambda>(minVal, minAlloc) (gName, g).
          map_option (\<lambda>r. case r of
              None \<Rightarrow> (minVal, minAlloc)
            | Some alloc \<Rightarrow> if feq minVal (Fin 0) \<or> al_value alloc < minVal
                            then (al_value alloc, Some alloc) else (minVal, minAlloc))
            (CreateAllocation sys serverName gName)) (Fin 0, None) (accelerators sys))"

section \<open>Candidate allocations and the solution\<close>

definition candidate_step ::
  "System \<Rightarrow> Server \<Rightarrow> (string, Allocation) gomap \<Rightarrow> string \<times> Accelerator \<Rightarrow> (string, Allocation) gomap option" where
  "candidate_step sys s m ga =
     map_option (\<lambda>r. case r of
         None \<Rightarrow> m
       | Some alloc \<Rightarrow>
           let alloc = (case sr_curAllocation s of
                 None \<Rightarrow> alloc
               | Some cur \<Rightarrow> alloc\<lparr>al_value := TransitionPenalty cur alloc\<rparr>)
           in mput (ag_name (snd ga)) alloc m)
       (CreateAllocation sys (sr_name s) (ag_name (snd ga)))"

definition Server_Calculate :: "System \<Rightarrow> Server \<Rightarrow> (string, Accelerator) gomap \<Rightarrow> Server option" where
  "Server_Calculate sys s accs =
     map_option (\<lambda>m. s\<lparr>sr_allAllocations := m\<rparr>)
       (ofoldl (candidate_step sys s) [] (GetCandidateAccelerators s accs))"

definition System_Calculate :: "System \<Rightarrow> System option" where
  "System_Calculate s =
     (let s = s\<lparr>accelerators := map (\<lambda>(n, g). (n, Accelerator_Calculate g)) (accelerators s)\<rparr>
      in ofoldl (\<lambda>s name. case mget (servers s) name of
             None \<Rightarrow> Some s
           | Some v \<Rightarrow> map_option (\<lambda>v'. s\<lparr>servers := mput name v' (servers s)\<rparr>)
                         (Server_Calculate s v (accelerators s)))
           s (map fst (servers s)))"

definition AllocateByType_step ::
  "System \<Rightarrow> (string, AllocationByType) gomap \<Rightarrow> string \<times> Server \<Rightarrow> (string, AllocationByType) gomap" where
  "AllocateByType_step s m sv =
     (case sr_allocation (snd sv) of None \<Rightarrow> m | Some serverAlloc \<Rightarrow>
      case mget (accelerators s) (al_accelerator serverAlloc) of None \<Rightarrow> m | Some acc \<Rightarrow>
      case GetModel s (sr_modelName (snd sv)) of None \<Rightarrow> m | Some model \<Rightarrow>
        let nameType = as_Type (ag_spec acc);
            alloc = (case mget m nameType of
                Some a \<Rightarrow> a
              | None \<Rightarrow> \<lparr>bt_name = nameType, bt_count = 0, bt_limit = mget0 0 (capacity s) nameType,
                         bt_cost = Fin 0\<rparr>);
            alloc = alloc\<lparr>bt_count := bt_count alloc + al_numReplicas serverAlloc *
                           NumInstances model (al_accelerator serverAlloc) * as_Multiplicity (ag_spec acc),
                         bt_cost := bt_cost alloc + al_cost serverAlloc\<rparr>
        in mput nameType alloc m)"

definition AllocateByType :: "System \<Rightarrow> System" where
  "AllocateByType s = s\<lparr>allocationByType := foldl (AllocateByType_step s) [] (servers s)\<rparr>"

definition GenerateSolution :: "System \<Rightarrow> System \<times> AllocationSolution" where
  "GenerateSolution s =
     (let sol = foldl (\<lambda>m (serverName, server).
                  case sr_allocation server of None \<Rightarrow> m | Some a \<Rightarrow>
                    mput serverName ((AllocationData_of a)\<lparr>ad_Load := the (sr_load server)\<rparr>) m)
                [] (servers s)
      in (s\<lparr>allocationSolution := Some sol\<rparr>, sol))"

section \<open>Sized allocations\<close>

text \<open>A server with load whose lookups all succeed, with usable performance data and targets.\<close>

definition perf_parms :: "ModelAcceleratorPerfData \<Rightarrow> ServiceParms" where
  "perf_parms perf = the (qc_ServiceParms (queue_config 0 perf))"

definition load_size :: "ServerLoadSpec \<Rightarrow> RequestSize" where
  "load_size load = \<lparr>AvgInputTokens = ld_AvgInTokens load, AvgOutputTokens = ld_AvgOutTokens load\<rparr>"

definition sizable :: "Server \<Rightarrow> ModelAcceleratorPerfData \<Rightarrow> Target \<Rightarrow> ServerLoadSpec \<Rightarrow> bool" where
  "sizable server perf target load \<longleftrightarrow>
     (\<exists>r. ld_ArrivalRate load = Fin r \<and> 0 < r) \<and>
     (\<exists>t1 t2 t3. target = \<lparr>tg_ITL = Fin t2, tg_TTFT = Fin t1, tg_TPS = Fin t3\<rparr> \<and> 0 \<le> t1 \<and> 0 \<le> t2 \<and> 0 \<le> t3) \<and>
     parms_ok (perf_parms perf) (load_size load) \<and>
     batch_size server perf (ld_AvgOutTokens load) * 11 < 2 ^ 63"

text \<open>The total request rate a server must carry, per second.\<close>

definition total_rate :: "Target \<Rightarrow> ServerLoadSpec \<Rightarrow> real" where
  "total_rate target load =
     (if tg_TPS target = Fin 0 then real_of (ld_ArrivalRate load) / 60
      else real_of (tg_TPS target) / real_of_int (ld_AvgOutTokens load))"

lemma batch_size_pos: "1 \<le> batch_size server perf K"
  by (simp add: batch_size_def)

lemma sizable_analyzer:
  assumes "sizable server perf target load"
  shows "\<exists>qa. NewQueueAnalyzer (queue_config (batch_size server perf (ld_AvgOutTokens load)) perf)
      (load_size load) = Inr qa \<and> qa_wf qa"
proof -
  let ?N = "batch_size server perf (ld_AvgOutTokens load)" and ?rs = "load_size load"
  let ?c = "queue_config ?N perf"
  have ok: "parms_ok (perf_parms perf) ?rs" and N: "?N * 11 < 2 ^ 63" "1 \<le> ?N"
    using assms batch_size_pos by (auto simp: sizable_def)
  have chk: "Configuration_check ?c = None" "RequestSize_check ?rs = None"
    using N(2) ok by (auto simp: Configuration_check_def queue_config_def MaxQueueToBatchRatio_def
        RequestSize_check_def elim!: parms_okE)
  have "the (qc_ServiceParms ?c) = perf_parms perf" by (simp add: perf_parms_def queue_config_def)
  then have "qa_wf (BuildModel ?c ?rs)"
    using BuildModel_wf [OF chk] ok N
    by (simp add: queue_config_def MaxQueueToBatchRatio_def)
  with chk show ?thesis by (simp add: NewQueueAnalyzer_def)
qed

lemma total_rate_Fin:
  assumes "sizable server perf target load"
  shows "(if feq (tg_TPS target) (Fin 0) then ld_ArrivalRate load / Fin 60
      else tg_TPS target / float_of_int (ld_AvgOutTokens load)) = Fin (total_rate target load)"
    and "0 < total_rate target load"
proof -
  have K: "0 < ld_AvgOutTokens load" using assms by (auto simp: sizable_def load_size_def elim!: parms_okE)
  with assms show "(if feq (tg_TPS target) (Fin 0) then ld_ArrivalRate load / Fin 60
      else tg_TPS target / float_of_int (ld_AvgOutTokens load)) = Fin (total_rate target load)"
    by (auto simp: sizable_def total_rate_def float_of_int_def)
  from assms K show "0 < total_rate target load"
    by (auto simp: sizable_def total_rate_def less_le)
qed

text \<open>The replicas the ceiling gives are enough, and one fewer would not be, unless the minimum
  asked for more.\<close>

lemma ceil_replicas:
  assumes "0 < t" and "0 < (x::real)" and "n = max \<lceil>t / x\<rceil> k"
  shows "1 \<le> n" and "k \<le> n" and "t \<le> real_of_int n * x" and "n = k \<or> real_of_int (n - 1) * x < t"
proof -
  have pos: "0 < t / x" using assms by simp
  show "1 \<le> n" using assms(3) pos by (simp add: le_max_iff_disj)
  show "k \<le> n" using assms(3) by simp
  have "t / x \<le> real_of_int \<lceil>t / x\<rceil>" by simp
  also have "\<dots> \<le> real_of_int n" using assms(3) by simp
  finally show "t \<le> real_of_int n * x" using assms(2) by (simp add: pos_divide_le_eq)
  show "n = k \<or> real_of_int (n - 1) * x < t"
  proof (cases "n = k")
    case False
    then have "n = \<lceil>t / x\<rceil>" using assms(3) by (simp add: max_def split: if_splits)
    then have "real_of_int (n - 1) < t / x" by linarith
    then show ?thesis using assms(2) by (simp add: pos_less_divide_eq)
  qed simp
qed

lemma sizedAllocation_correct:
  assumes "sizable server perf target load"
  shows "\<exists>r. sizedAllocation server model acc perf target load gName = Some r \<and>
    (\<forall>a. r = Some a \<longrightarrow> (\<exists>X. al_accelerator a = gName \<and> 0 < X \<and> al_maxArrvRatePerReplica a = Fin (X / 1000) \<and>
       1 \<le> al_numReplicas a \<and> sr_minNumReplicas server \<le> al_numReplicas a \<and>
       total_rate target load \<le> real_of_int (al_numReplicas a) * X \<and>
       (al_numReplicas a = sr_minNumReplicas server \<or>
        real_of_int (al_numReplicas a - 1) * X < total_rate target load) \<and>
       al_cost a = as_Cost (ag_spec acc) * float_of_int (NumInstances model gName * al_numReplicas a) \<and>
       al_value a = al_cost a))"
proof -
  let ?K = "ld_AvgOutTokens load" let ?N = "batch_size server perf ?K" and ?T = "total_rate target load"
  obtain t1 t2 t3 where t: "target = \<lparr>tg_ITL = Fin t2, tg_TTFT = Fin t1, tg_TPS = Fin t3\<rparr>"
      "0 \<le> t1" "0 \<le> t2" "0 \<le> t3" using assms by (auto simp: sizable_def)
  obtain qa where qa: "NewQueueAnalyzer (queue_config ?N perf) (load_size load) = Inr qa" "qa_wf qa"
    using sizable_analyzer [OF assms] by blast
  let ?tp = "\<lparr>TargetTTFT = Fin t1, TargetITL = Fin t2, TargetTPS = Fin t3\<rparr>"
  obtain qa' res where sz: "Size qa ?tp = Some (qa', res)" "qa_wf qa'"
      "case res of Inl _ \<Rightarrow> True | Inr (tr, am, ach) \<Rightarrow> \<exists>X. am_Throughput am = Fin X \<and> 0 < X"
    using Size_exact [OF qa(2) refl t(2,3,4)] by (fastforce simp: Let_def split: sum.splits)
  note defs = sizedAllocation_def Let_def qa(1) [unfolded load_size_def]
  show ?thesis
  proof (cases res)
    case (Inl err)
    then show ?thesis using sz(1) t(1) by (simp add: defs)
  next
    case (Inr r)
    then obtain tr am ach X where r: "res = Inr (tr, am, ach)" "am_Throughput am = Fin X" "0 < X"
      using sz(3) by (cases r) auto
    let ?n = "max \<lceil>?T / X\<rceil> (sr_minNumReplicas server)"
    note n = ceil_replicas [OF total_rate_Fin(2) [OF assms] r(3) refl, of "sr_minNumReplicas server"]
    have rate: "Fin ?T / float_of_int ?n = Fin (?T / real_of_int ?n)" using n(1) by (simp add: float_of_int_def)
    have ceil: "ceil_int (Fin ?T / Fin X) = \<lceil>?T / X\<rceil>" using r(3) by simp
    obtain an where an: "Analyze qa' (Fin (?T / real_of_int ?n)) = Some an"
      using Analyze_returns [OF sz(2)] by blast
    have red: "sizedAllocation server model acc perf target load gName =
        (case Analyze qa' (Fin (?T / real_of_int ?n)) of
           None \<Rightarrow> None
         | Some (q, Inl err) \<Rightarrow> Some None
         | Some (q, Inr metrics) \<Rightarrow> Some (Some
             \<lparr>al_accelerator = gName, al_numReplicas = ?n, al_batchSize = ?N,
              al_cost = as_Cost (ag_spec acc) * float_of_int (NumInstances model gName * ?n),
              al_value = as_Cost (ag_spec acc) * float_of_int (NumInstances model gName * ?n),
              al_itl = am_AvgTokenTime metrics, al_ttft = am_AvgWaitTime metrics + am_AvgPrefillTime metrics,
              al_rho = am_Rho metrics, al_maxArrvRatePerReplica = Fin (X / 1000)\<rparr>))"
    proof -
      have sz': "Size qa \<lparr>TargetTTFT = tg_TTFT target, TargetITL = tg_ITL target, TargetTPS = tg_TPS target\<rparr> =
          Some (qa', Inr (tr, am, ach))" using sz(1) r(1) t(1) by simp
      have per: "Fin X / Fin 1000 = Fin (X / 1000)" by simp
      show ?thesis
        unfolding defs total_rate_Fin(1) [OF assms] sum.case sz' option.case prod.case r(2) ceil rate per
        by (rule refl)
    qed
    show ?thesis unfolding red an
      using n r(3) by (auto split: prod.splits sum.splits)
  qed
qed

lemma CreateAllocation_lookups:
  assumes "GetAccelerator sys gName = Some acc" and "GetServer sys serverName = Some server"
    and "sr_load server = Some load" and "GetModel sys (sr_modelName server) = Some model"
    and "PerfData model gName = Some perf" and "GetServiceClass sys (sr_serviceClassName server) = Some svc"
    and "ModelTarget_of svc (sr_modelName server) = Some target" and "sizable server perf target load"
  shows "CreateAllocation sys serverName gName = sizedAllocation server model acc perf target load gName"
proof -
  have "\<not> (ld_ArrivalRate load < Fin 0 \<or> ld_AvgInTokens load < 0 \<or> ld_AvgOutTokens load < 0)"
    "\<not> (feq (ld_ArrivalRate load) (Fin 0) \<or> ld_AvgOutTokens load = 0)"
    using assms(8) by (auto simp: sizable_def load_size_def elim!: parms_okE)
  with assms show ?thesis by (simp add: CreateAllocation_def)
qed

lemma not_Saturated:
  assumes "al_maxArrvRatePerReplica a = Fin (X / 1000)" and "r / 60 \<le> real_of_int (al_numReplicas a) * X"
  shows "\<not> Saturated a (Fin r)"
  using assms by (simp add: Saturated_def MaxRPM_def float_of_int_def)

section \<open>Properties\<close>

text \<open>C9: creating an allocation for a server with load returns, and a feasible allocation carries
  the load: it has at least the minimum number of replicas, its replicas together serve the total
  rate at the rate found for the latency targets (so the server is not saturated by its arrival
  rate), one replica fewer would not, and its cost is that of the instances of all its
  replicas.\<close>

theorem create_allocation_sufficient:
  assumes "GetAccelerator sys gName = Some acc" and "GetServer sys serverName = Some server"
    and "sr_load server = Some load" and "GetModel sys (sr_modelName server) = Some model"
    and "PerfData model gName = Some perf" and "GetServiceClass sys (sr_serviceClassName server) = Some svc"
    and "ModelTarget_of svc (sr_modelName server) = Some target" and "sizable server perf target load"
  shows "\<exists>r. CreateAllocation sys serverName gName = Some r \<and>
    (\<forall>a. r = Some a \<longrightarrow> al_accelerator a = gName \<and> 1 \<le> al_numReplicas a \<and>
       sr_minNumReplicas server \<le> al_numReplicas a \<and>
       (tg_TPS target = Fin 0 \<longrightarrow> \<not> Saturated a (ld_ArrivalRate load)) \<and>
       (al_numReplicas a = sr_minNumReplicas server \<or>
        real_of_int (al_numReplicas a - 1) * (real_of (al_maxArrvRatePerReplica a) * 1000)
          < total_rate target load) \<and>
       total_rate target load \<le> real_of_int (al_numReplicas a) * (real_of (al_maxArrvRatePerReplica a) * 1000) \<and>
       al_cost a = as_Cost (ag_spec acc) * float_of_int (NumInstances model gName * al_numReplicas a))"
proof -
  obtain ar where ar: "ld_ArrivalRate load = Fin ar" using assms(8) by (auto simp: sizable_def)
  have tr: "tg_TPS target = Fin 0 \<Longrightarrow> total_rate target load = ar / 60" by (simp add: total_rate_def ar)
  from sizedAllocation_correct [OF assms(8), of model acc gName] obtain r where
    r: "sizedAllocation server model acc perf target load gName = Some r" and
    good: "\<And>a. r = Some a \<Longrightarrow> (\<exists>X. al_accelerator a = gName \<and> 0 < X \<and>
       al_maxArrvRatePerReplica a = Fin (X / 1000) \<and>
       1 \<le> al_numReplicas a \<and> sr_minNumReplicas server \<le> al_numReplicas a \<and>
       total_rate target load \<le> real_of_int (al_numReplicas a) * X \<and>
       (al_numReplicas a = sr_minNumReplicas server \<or>
        real_of_int (al_numReplicas a - 1) * X < total_rate target load) \<and>
       al_cost a = as_Cost (ag_spec acc) * float_of_int (NumInstances model gName * al_numReplicas a) \<and>
       al_value a = al_cost a)" by blast
  show ?thesis
  proof (intro exI [of _ r] conjI allI impI)
    show "CreateAllocation sys serverName gName = Some r" using r CreateAllocation_lookups [OF assms] by simp
  qed (use good tr ar not_Saturated in \<open>force dest!: good\<close>)+
qed

definition sample_perf :: ModelAcceleratorPerfData where
  "sample_perf = \<lparr>pd_Name = ''m'', pd_Acc = ''g'', pd_AccCount = 1, pd_MaxBatchSize = 4, pd_AtTokens = 2,
     pd_DecodeParms = \<lparr>cd_Alpha = Fin 1, cd_Beta = Fin 1\<rparr>,
     pd_PrefillParms = \<lparr>cp_Gamma = Fin 1, cp_Delta = Fin 1\<rparr>\<rparr>"

definition sample_load :: ServerLoadSpec where
  "sample_load = \<lparr>ld_ArrivalRate = Fin 60, ld_AvgInTokens = 1, ld_AvgOutTokens = 2\<rparr>"

definition sample_spec :: "int \<Rightarrow> SystemSpec" where
  "sample_spec minReplicas =
     \<lparr>sy_Accelerators = [\<lparr>as_Name = ''g'', as_Type = ''T'', as_Multiplicity = 1, as_MemSize = 1, as_MemBW = 1,
        as_Power = \<lparr>pw_Idle = 0, pw_Full = 2, pw_MidPower = 1, pw_MidUtil = Fin (1 / 2)\<rparr>, as_Cost = Fin 5\<rparr>],
      sy_Models = [sample_perf],
      sy_ServiceClasses = [\<lparr>sc_Name = ''c'', sc_Priority = 1,
        sc_ModelTargets = [\<lparr>mt_Model = ''m'', mt_SLO_ITL = Fin 0, mt_SLO_TTFT = Fin 0, mt_SLO_TPS = Fin 0\<rparr>]\<rparr>],
      sy_Servers = [\<lparr>ss_Name = ''s'', ss_Class = ''c'', ss_Model = ''m'', ss_KeepAccelerator = False,
        ss_MinNumReplicas = minReplicas, ss_MaxBatchSize = 0,
        ss_CurrentAlloc = zero_AllocationData\<lparr>ad_Load := sample_load\<rparr>,
        ss_DesiredAlloc = zero_AllocationData\<rparr>],
      sy_Optimizer = \<lparr>os_Unlimited = True, os_DelayedBestEffort = False, os_SaturationPolicy = ''None''\<rparr>,
      sy_Capacity = [\<lparr>ac_Type = ''T'', ac_Count = 8\<rparr>]\<rparr>"

definition sample_system :: System where
  "sample_system = fst (SetFromSpec NewSystem (sample_spec 1))"

lemmas set_spec_defs = SetFromSpec_def SetAcceleratorsFromSpec_def AddAcceleratorFromSpec_def
  SetModelsFromSpec_def SetModel_step_def SetServiceClassesFromSpec_def SetServersFromSpec_def
  SetCapacityFromSpec_def SetCountFromSpec_def NewSystem_def NewModel_def AddPerfDataFromSpec_def
  NewServiceClassFromSpec_def NewServiceClass_def AddModelTarget_def NewServerFromSpec_def
  NewAcceleratorFromSpec_def

theorem create_allocation_sufficient_witness:
  "\<exists>r. CreateAllocation sample_system ''s'' ''g'' = Some r \<and>
    (\<forall>a. r = Some a \<longrightarrow> 1 \<le> al_numReplicas a \<and> \<not> Saturated a (Fin 60))"
proof -
  note defs = sample_system_def sample_spec_def set_spec_defs
  let ?sv = "the (GetServer sample_system ''s'')" and ?md = "the (GetModel sample_system ''m'')"
  let ?ac = "the (GetAccelerator sample_system ''g'')" and ?sc = "the (GetServiceClass sample_system ''c'')"
  let ?t = "\<lparr>tg_ITL = Fin 0, tg_TTFT = Fin 0, tg_TPS = Fin 0\<rparr>"
  have "GetAccelerator sample_system ''g'' = Some ?ac" "GetServer sample_system ''s'' = Some ?sv"
    "sr_load ?sv = Some sample_load" "GetModel sample_system (sr_modelName ?sv) = Some ?md"
    "PerfData ?md ''g'' = Some sample_perf" "GetServiceClass sample_system (sr_serviceClassName ?sv) = Some ?sc"
    "ModelTarget_of ?sc (sr_modelName ?sv) = Some ?t"
    by (simp_all add: defs GetAccelerator_def GetServer_def GetModel_def GetServiceClass_def PerfData_def
        ModelTarget_of_def Let_def sample_perf_def DefaultHighPriority_def DefaultLowPriority_def)
  moreover have "sizable ?sv sample_perf ?t sample_load"
    by (simp add: sizable_def sample_load_def sample_perf_def parms_ok_def perf_parms_def queue_config_def
        load_size_def batch_size_def defs GetServer_def Let_def)
  ultimately show ?thesis
    using create_allocation_sufficient [of sample_system "''g''" ?ac "''s''" ?sv sample_load ?md sample_perf ?sc ?t]
    by (auto simp: sample_load_def)
qed

text \<open>What a system set from a specification keeps: every accelerator a model has performance data
  for needs at least one instance, priorities are in their range, and servers have a load, a
  current allocation and their name.\<close>

definition model_wf :: "Model \<Rightarrow> bool" where
  "model_wf m \<longleftrightarrow> (\<forall>g pd. mget (md_perfData m) g = Some pd \<longrightarrow> 1 \<le> NumInstances m g)"

definition class_wf :: "ServiceClass \<Rightarrow> bool" where
  "class_wf c \<longleftrightarrow> DefaultHighPriority \<le> sv_priority c \<and> sv_priority c \<le> DefaultLowPriority"

definition system_wf :: "System \<Rightarrow> bool" where
  "system_wf s \<longleftrightarrow> (\<forall>m\<in>snd ` set (models s). model_wf m) \<and> (\<forall>c\<in>snd ` set (serviceClasses s). class_wf c) \<and>
     (\<forall>(n, v)\<in>set (servers s). sr_name v = n \<and> sr_load v \<noteq> None \<and> sr_curAllocation v \<noteq> None) \<and>
     (\<forall>(n, g)\<in>set (accelerators s). ag_name g = n \<and> as_Name (ag_spec g) = n)"

lemma foldl_inv: "P s \<Longrightarrow> (\<And>s x. P s \<Longrightarrow> x \<in> set xs \<Longrightarrow> P (f s x)) \<Longrightarrow> P (foldl f s xs)"
  by (induction xs arbitrary: s) auto

lemma foldl_wf:
  "system_wf s \<Longrightarrow> (\<And>s x. system_wf s \<Longrightarrow> system_wf (f s x)) \<Longrightarrow> system_wf (foldl f s xs)"
  by (rule foldl_inv [where P = system_wf])

lemma AddPerfDataFromSpec_wf: "model_wf m \<Longrightarrow> model_wf (AddPerfDataFromSpec m pd)"
  by (auto simp: model_wf_def AddPerfDataFromSpec_def NumInstances_def split: if_splits)

lemma SetModel_step_wf: "system_wf s \<Longrightarrow> system_wf (SetModel_step s pd)"
proof -
  assume wf: "system_wf s"
  let ?m = "case mget (models s) (pd_Name pd) of None \<Rightarrow> NewModel (pd_Name pd) | Some m \<Rightarrow> m"
  have "model_wf ?m"
  proof (cases "mget (models s) (pd_Name pd)")
    case None
    then show ?thesis by (simp add: model_wf_def NewModel_def)
  next
    case (Some m)
    then have "m \<in> snd ` set (models s)" by (metis map_of_SomeD image_eqI snd_conv)
    with wf Some show ?thesis by (auto simp: system_wf_def)
  qed
  then have "model_wf (AddPerfDataFromSpec ?m pd)" by (rule AddPerfDataFromSpec_wf)
  with wf set_mput [of "pd_Name pd" "AddPerfDataFromSpec ?m pd" "models s"] show ?thesis
    by (auto simp: SetModel_step_def system_wf_def Let_def)
qed

lemma NewServiceClassFromSpec_wf: "class_wf (NewServiceClassFromSpec spec)"
  unfolding NewServiceClassFromSpec_def
  by (rule foldl_inv)
    (auto simp: class_wf_def NewServiceClass_def AddModelTarget_def Let_def DefaultHighPriority_def
      DefaultLowPriority_def DefaultServiceClassPriority_def)

text \<open>A system set from a specification is well formed: for every accelerator with performance
  data a model needs at least one instance (a missing or negative count becomes one), every
  priority is between 1 and 100 (others become 100), and each server carries its name, a load and
  a current allocation. Setting it again from another specification keeps this.\<close>

lemma set_from_spec_wf:
  assumes "system_wf s"
  shows "system_wf (fst (SetFromSpec s d)) \<and> system_wf NewSystem"
proof
  have acc: "system_wf s \<Longrightarrow> system_wf (AddAcceleratorFromSpec s a)" for s a
    using set_mput [of "as_Name a" "NewAcceleratorFromSpec a" "accelerators s"]
    by (auto simp: system_wf_def AddAcceleratorFromSpec_def NewAcceleratorFromSpec_def)
  have cls: "system_wf s \<Longrightarrow> system_wf (s\<lparr>serviceClasses := mput (sc_Name c) (NewServiceClassFromSpec c) (serviceClasses s)\<rparr>)"
    for s c using set_mput [of "sc_Name c" "NewServiceClassFromSpec c" "serviceClasses s"]
    by (auto simp: system_wf_def NewServiceClassFromSpec_wf)
  have srv: "system_wf s \<Longrightarrow> system_wf (s\<lparr>servers := mput (ss_Name v) (NewServerFromSpec v) (servers s)\<rparr>)"
    for s v using set_mput [of "ss_Name v" "NewServerFromSpec v" "servers s"]
    by (auto simp: system_wf_def NewServerFromSpec_def Let_def)
  have cap: "system_wf s \<Longrightarrow> system_wf (SetCountFromSpec s c)" for s c
    by (simp add: system_wf_def SetCountFromSpec_def)
  show "system_wf (fst (SetFromSpec s d))"
    unfolding SetFromSpec_def SetAcceleratorsFromSpec_def SetModelsFromSpec_def SetServiceClassesFromSpec_def
      SetServersFromSpec_def SetCapacityFromSpec_def Let_def fst_conv
    by (intro foldl_wf cap srv cls SetModel_step_wf acc assms)
  show "system_wf NewSystem" by (simp add: system_wf_def NewSystem_def)
qed

text \<open>The units of an accelerator type that a server's allocation takes.\<close>

definition server_type :: "System \<Rightarrow> Server \<Rightarrow> string option" where
  "server_type s v =
     (case sr_allocation v of None \<Rightarrow> None | Some a \<Rightarrow>
      case mget (accelerators s) (al_accelerator a) of None \<Rightarrow> None | Some acc \<Rightarrow>
      case GetModel s (sr_modelName v) of None \<Rightarrow> None | Some model \<Rightarrow> Some (as_Type (ag_spec acc)))"

definition server_units :: "System \<Rightarrow> Server \<Rightarrow> int" where
  "server_units s v =
     (case sr_allocation v of None \<Rightarrow> 0 | Some a \<Rightarrow>
      case mget (accelerators s) (al_accelerator a) of None \<Rightarrow> 0 | Some acc \<Rightarrow>
      case GetModel s (sr_modelName v) of None \<Rightarrow> 0 | Some model \<Rightarrow>
        al_numReplicas a * NumInstances model (al_accelerator a) * as_Multiplicity (ag_spec acc))"

definition type_count :: "System \<Rightarrow> string \<Rightarrow> (string \<times> Server) list \<Rightarrow> int" where
  "type_count s t vs = (\<Sum>v\<leftarrow>map snd vs. if server_type s v = Some t then server_units s v else 0)"

lemma AllocateByType_exact:
  "case mget (allocationByType (AllocateByType s)) t of
     None \<Rightarrow> \<forall>v\<in>snd ` set (servers s). server_type s v \<noteq> Some t
   | Some a \<Rightarrow> (\<exists>v\<in>snd ` set (servers s). server_type s v = Some t) \<and> bt_name a = t \<and>
       bt_count a = type_count s t (servers s) \<and> bt_limit a = mget0 0 (capacity s) t"
proof -
  have "case mget (foldl (AllocateByType_step s) [] vs) t of
     None \<Rightarrow> \<forall>v\<in>snd ` set vs. server_type s v \<noteq> Some t
   | Some a \<Rightarrow> (\<exists>v\<in>snd ` set vs. server_type s v = Some t) \<and> bt_name a = t \<and>
       bt_count a = type_count s t vs \<and> bt_limit a = mget0 0 (capacity s) t" for vs
  proof (induction vs rule: rev_induct)
    case (snoc v vs)
    let ?m = "foldl (AllocateByType_step s) [] vs"
    show ?case
    proof (cases "server_type s (snd v)")
      case None
      then have "AllocateByType_step s ?m v = ?m"
        by (auto simp: AllocateByType_step_def server_type_def split: option.splits)
      with snoc None show ?thesis by (auto simp: type_count_def split: option.splits)
    next
      case (Some u)
      then obtain a acc model where l: "sr_allocation (snd v) = Some a"
          "mget (accelerators s) (al_accelerator a) = Some acc" "GetModel s (sr_modelName (snd v)) = Some model"
          "u = as_Type (ag_spec acc)"
        by (auto simp: server_type_def split: option.splits)
      have nil: "\<forall>v\<in>snd ` set vs. server_type s v \<noteq> Some u \<Longrightarrow> type_count s u vs = 0"
        by (induction vs) (auto simp: type_count_def)
      from l snoc Some nil show ?thesis
        by (auto simp: AllocateByType_step_def Let_def type_count_def server_units_def split: option.splits)
    qed
  qed (simp add: type_count_def)
  then show ?thesis by (simp add: AllocateByType_def)
qed

end
