(* ===== verification/Inferno_Solver.thy ===== *)
theory Inferno_Solver
  imports Inferno_System
begin

text \<open>
  The solver of the allocation problem (\<^verbatim>\<open>pkg/solver\<close>, \<^verbatim>\<open>pkg/manager\<close>): the best candidate per server
  with unlimited accelerators, the greedy allocation with limited ones, and the best-effort
  policies for the servers the greedy allocation leaves out.

  The candidates of an entry are pointers to the allocations in the server's map; here an entry
  pairs each candidate with its key in that map, and an in-place change of a candidate is written
  back under the key. The available units per accelerator type and the system are threaded
  through. A result \<open>None\<close> is a call that does not return (a panic, or the round-robin loop
  running for ever, which a theorem below excludes).
\<close>

section \<open>Entries\<close>

record serverEntry =
  se_serverName :: string
  se_priority :: int
  se_curIndex :: nat
  se_allocations :: "(string \<times> Allocation) list"
  se_delta :: gofloat

type_synonym available = "(string, int) gomap"

definition se_current :: "serverEntry \<Rightarrow> Allocation" where
  "se_current e = snd (se_allocations e ! se_curIndex e)"

definition orderFunc :: "serverEntry \<Rightarrow> serverEntry \<Rightarrow> int" where
  "orderFunc a b =
     (if se_priority a = se_priority b then
        if feq (se_delta a) (se_delta b) then cmp_float (al_value (se_current b)) (al_value (se_current a))
        else cmp_float (se_delta b) (se_delta a)
      else cmp_int (se_priority a) (se_priority b))"

definition put_server :: "System \<Rightarrow> string \<Rightarrow> Server \<Rightarrow> System" where
  "put_server sys name v = sys\<lparr>servers := mput name v (servers sys)\<rparr>"

section \<open>Greedy allocation\<close>

text \<open>Moving an entry to its next candidate.\<close>

definition next_candidate :: "serverEntry \<Rightarrow> serverEntry" where
  "next_candidate entry =
     (let entry = entry\<lparr>se_curIndex := se_curIndex entry + 1\<rparr>
      in if se_curIndex entry + 1 < length (se_allocations entry) then
           entry\<lparr>se_delta := al_value (snd (se_allocations entry ! (se_curIndex entry + 1))) -
                          al_value (snd (se_allocations entry ! se_curIndex entry))\<rparr>
         else if se_curIndex entry = length (se_allocations entry) then entry
         else entry\<lparr>se_delta := Fin MaxFloat32\<rparr>)"

text \<open>One candidate of an entry against the available units: the lookups fail (\<open>None\<close>), or they
  give the type, the number of units, and the server.\<close>

definition candidate_need :: "System \<Rightarrow> string \<Rightarrow> Allocation \<Rightarrow> (Server \<times> string \<times> int) option" where
  "candidate_need sys serverName alloc =
     (case GetServer sys serverName of None \<Rightarrow> None | Some server \<Rightarrow>
      case GetModel sys (sr_modelName server) of None \<Rightarrow> None | Some model \<Rightarrow>
      case GetAccelerator sys (al_accelerator alloc) of None \<Rightarrow> None | Some acc \<Rightarrow>
        let unitsPerReplica = NumInstances model (al_accelerator alloc) * as_Multiplicity (ag_spec acc)
        in Some (server, as_Type (ag_spec acc), al_numReplicas alloc * unitsPerReplica))"

function allocate_loop ::
  "(serverEntry \<Rightarrow> serverEntry \<Rightarrow> int) \<Rightarrow> serverEntry list \<Rightarrow> serverEntry list \<Rightarrow> available \<Rightarrow> System \<Rightarrow>
   (serverEntry list \<times> available \<times> System) option" where
  "allocate_loop ord unallocated [] available sys = Some (unallocated, available, sys)"
| "allocate_loop ord unallocated (entry # entries) available sys =
     (if se_allocations entry = [] then allocate_loop ord unallocated entries available sys
      else if length (se_allocations entry) \<le> se_curIndex entry then None
      else case candidate_need sys (se_serverName entry) (se_current entry) of
        None \<Rightarrow> allocate_loop ord unallocated entries available sys
      | Some (server, tName, need) \<Rightarrow>
          if need \<le> mget0 0 available tName then
            allocate_loop ord unallocated entries (mput tName (mget0 0 available tName - need) available)
              (put_server sys (se_serverName entry) (SetAllocation server (se_current entry)))
          else
            let entry = next_candidate entry
            in if se_curIndex entry = length (se_allocations entry)
               then allocate_loop ord (unallocated @ [entry]) entries available sys
               else allocate_loop ord unallocated
                      (insert_at entries (binary_search_func ord entries entry) entry) available sys)"
  by pat_completeness auto

lemma next_candidate_fields [simp]:
  "se_allocations (next_candidate e) = se_allocations e"
  "se_curIndex (next_candidate e) = Suc (se_curIndex e)"
  "se_serverName (next_candidate e) = se_serverName e"
  "se_priority (next_candidate e) = se_priority e"
  by (simp_all add: next_candidate_def Let_def)

definition entry_steps :: "serverEntry list \<Rightarrow> nat" where
  "entry_steps es = (\<Sum>e\<leftarrow>es. Suc (length (se_allocations e) - se_curIndex e))"

lemma entry_steps_insert_at [simp]:
  "entry_steps (insert_at es i e) = Suc (length (se_allocations e) - se_curIndex e) + entry_steps es"
proof -
  have "entry_steps (take i es @ drop i es) = entry_steps (take i es) + entry_steps (drop i es)"
    by (simp only: entry_steps_def map_append sum_list_append)
  then show ?thesis by (simp add: insert_at_def entry_steps_def)
qed

lemma entry_steps_simps [simp]:
  "entry_steps [] = 0"
  "entry_steps (e # es) = Suc (length (se_allocations e) - se_curIndex e) + entry_steps es"
  by (simp_all add: entry_steps_def)

termination allocate_loop
  by (relation "measure (\<lambda>(ord, un, es, av, sys). entry_steps es)") auto

definition allocate ::
  "(serverEntry \<Rightarrow> serverEntry \<Rightarrow> int) \<Rightarrow> serverEntry list \<Rightarrow> available \<Rightarrow> System \<Rightarrow>
   (serverEntry list \<times> available \<times> System) option" where
  "allocate ord entries available sys = allocate_loop ord [] entries available sys"

section \<open>Best effort\<close>

text \<open>Giving a server a number of replicas of a candidate: cost and value are scaled in place.\<close>

definition grant :: "System \<Rightarrow> string \<Rightarrow> Server \<Rightarrow> string \<times> Allocation \<Rightarrow> int \<Rightarrow> System" where
  "grant sys serverName server ka numReplicas =
     (let (key, alloc) = ka;
          factor = float_of_int numReplicas / float_of_int (al_numReplicas alloc);
          alloc = alloc\<lparr>al_cost := al_cost alloc * factor, al_value := al_value alloc * factor,
                        al_numReplicas := numReplicas\<rparr>;
          server = server\<lparr>sr_allAllocations := mput key alloc (sr_allAllocations server)\<rparr>
      in put_server sys serverName (SetAllocation server alloc))"

text \<open>The candidates of one entry, until one is granted. The server is dereferenced before it is
  tested, so a missing server is a panic.\<close>

fun maximally_entry ::
  "string \<Rightarrow> (string \<times> Allocation) list \<Rightarrow> available \<Rightarrow> System \<Rightarrow> (available \<times> System) option" where
  "maximally_entry serverName [] available sys = Some (available, sys)"
| "maximally_entry serverName ((key, alloc) # rest) available sys =
     (case GetServer sys serverName of None \<Rightarrow> None | Some server \<Rightarrow>
      case (GetAccelerator sys (al_accelerator alloc), GetModel sys (sr_modelName server)) of
        (Some acc, Some model) \<Rightarrow>
          let unitsPerReplica = NumInstances model (al_accelerator alloc) * as_Multiplicity (ag_spec acc);
              t = as_Type (ag_spec acc);
              maxReplicas = min (godiv (mget0 0 available t) unitsPerReplica) (al_numReplicas alloc)
          in if unitsPerReplica > 0 \<and> maxReplicas > 0
             then Some (mput t (mget0 0 available t - maxReplicas * unitsPerReplica) available,
                        grant sys serverName server (key, alloc) maxReplicas)
             else maximally_entry serverName rest available sys
      | _ \<Rightarrow> maximally_entry serverName rest available sys)"

definition allocateMaximally ::
  "serverEntry list \<Rightarrow> available \<Rightarrow> System \<Rightarrow> (available \<times> System) option" where
  "allocateMaximally serverEntries available sys =
     ofoldl (\<lambda>(available, sys) entry. maximally_entry (se_serverName entry) (se_allocations entry) available sys)
       (available, sys) serverEntries"

record serverAllocationTicket =
  tk_active :: bool
  tk_server :: Server
  tk_model :: Model
  tk_accType :: string
  tk_unitsPerReplica :: int
  tk_numReplicas :: int
  tk_finalAlloc :: "string \<times> Allocation"

type_synonym tickets = "(string, serverAllocationTicket) gomap"

text \<open>The candidate fields of a fresh ticket are zero values until it becomes active.\<close>

definition zero_Allocation :: Allocation where
  "zero_Allocation = \<lparr>al_accelerator = '''', al_numReplicas = 0, al_batchSize = 0, al_cost = Fin 0,
     al_value = Fin 0, al_itl = Fin 0, al_ttft = Fin 0, al_rho = Fin 0, al_maxArrvRatePerReplica = Fin 0\<rparr>"

definition new_ticket :: "Server \<Rightarrow> Model \<Rightarrow> serverAllocationTicket" where
  "new_ticket server model = \<lparr>tk_active = False, tk_server = server, tk_model = model, tk_accType = '''',
     tk_unitsPerReplica = 0, tk_numReplicas = 0, tk_finalAlloc = ('''', zero_Allocation)\<rparr>"

definition make_tickets :: "serverEntry list \<Rightarrow> System \<Rightarrow> tickets option" where
  "make_tickets serverEntries sys =
     ofoldl (\<lambda>tickets e.
       case GetServer sys (se_serverName e) of None \<Rightarrow> None | Some server \<Rightarrow>
       case GetModel sys (sr_modelName server) of None \<Rightarrow> Some tickets | Some model \<Rightarrow>
         Some (mput (se_serverName e) (new_ticket server model) tickets)) [] serverEntries"

text \<open>The first candidate of which one replica fits.\<close>

fun activate ::
  "System \<Rightarrow> available \<Rightarrow> serverAllocationTicket \<Rightarrow> (string \<times> Allocation) list \<Rightarrow> serverAllocationTicket" where
  "activate sys available ticket [] = ticket"
| "activate sys available ticket ((key, alloc) # rest) =
     (case GetAccelerator sys (al_accelerator alloc) of
        None \<Rightarrow> activate sys available ticket rest
      | Some acc \<Rightarrow>
          let unitsPerReplica = NumInstances (tk_model ticket) (al_accelerator alloc) *
                                as_Multiplicity (ag_spec acc)
          in if unitsPerReplica > 0 \<and> unitsPerReplica \<le> mget0 0 available (as_Type (ag_spec acc))
             then ticket\<lparr>tk_active := True, tk_accType := as_Type (ag_spec acc),
                         tk_unitsPerReplica := unitsPerReplica, tk_finalAlloc := (key, alloc)\<rparr>
             else activate sys available ticket rest)"

definition visit ::
  "System \<Rightarrow> tickets \<times> tickets \<times> available \<Rightarrow> serverEntry \<Rightarrow> tickets \<times> tickets \<times> available" where
  "visit sys st e =
     (let (tickets, allocated, available) = st; name = se_serverName e
      in case mget tickets name of
           None \<Rightarrow> st
         | Some ticket \<Rightarrow>
             let ticket = (if tk_active ticket then ticket
                           else activate sys available ticket (se_allocations e))
             in if \<not> tk_active ticket then (mdel name tickets, allocated, available)
                else
                  let replicasAvailable = godiv (mget0 0 available (tk_accType ticket)) (tk_unitsPerReplica ticket);
                      replicasAllocatable = min replicasAvailable (al_numReplicas (snd (tk_finalAlloc ticket)))
                  in if replicasAllocatable > 0 then
                       let ticket' = ticket\<lparr>tk_numReplicas := tk_numReplicas ticket + 1\<rparr>
                       in (mput name ticket' tickets, mput name ticket' allocated,
                           mput (tk_accType ticket)
                             (mget0 0 available (tk_accType ticket) - tk_unitsPerReplica ticket) available)
                     else (mdel name tickets, allocated, available))"

partial_function (option) round_robin ::
  "System \<Rightarrow> serverEntry list \<Rightarrow> tickets \<times> tickets \<times> available \<Rightarrow> (tickets \<times> available) option" where
  "round_robin sys serverEntries st =
     (case st of (tickets, allocated, available) \<Rightarrow>
        if tickets = [] then Some (allocated, available)
        else round_robin sys serverEntries (foldl (visit sys) st serverEntries))"

definition grant_tickets :: "tickets \<Rightarrow> System \<Rightarrow> System" where
  "grant_tickets allocated sys =
     foldl (\<lambda>sys (name, ticket). grant sys name (tk_server ticket) (tk_finalAlloc ticket) (tk_numReplicas ticket))
       sys allocated"

definition allocateEqually ::
  "serverEntry list \<Rightarrow> available \<Rightarrow> System \<Rightarrow> (available \<times> System) option" where
  "allocateEqually serverEntries available sys =
     Option.bind (make_tickets serverEntries sys) (\<lambda>tickets.
     Option.bind (round_robin sys serverEntries (tickets, [], available)) (\<lambda>(allocated, available).
       Some (available, grant_tickets allocated sys)))"

function makePriorityGroups :: "serverEntry list \<Rightarrow> serverEntry list list" where
  "makePriorityGroups [] = []"
| "makePriorityGroups (e # es) =
     (e # takeWhile (\<lambda>x. se_priority x = se_priority e) es) #
     makePriorityGroups (dropWhile (\<lambda>x. se_priority x = se_priority e) es)"
  by pat_completeness auto
termination
  by (relation "measure length") (simp_all add: less_Suc_eq_le length_dropWhile_le)

definition bestEffort ::
  "string \<Rightarrow> serverEntry list \<Rightarrow> available \<Rightarrow> System \<Rightarrow> (available \<times> System) option" where
  "bestEffort policy unallocatedServers available sys =
     (case SaturatedAllocationPolicyEnum policy of
        PriorityExhaustive \<Rightarrow> allocateMaximally unallocatedServers available sys
      | PriorityRoundRobin \<Rightarrow>
          ofoldl (\<lambda>(available, sys) grp. allocateEqually grp available sys) (available, sys)
            (makePriorityGroups unallocatedServers)
      | RoundRobin \<Rightarrow> allocateEqually unallocatedServers available sys
      | _ \<Rightarrow> Some (available, sys))"

section \<open>The solver\<close>

definition make_entry :: "System \<Rightarrow> string \<Rightarrow> Server \<Rightarrow> serverEntry" where
  "make_entry sys serverName server =
     (let allocations = sort_func (\<lambda>a b. cmp_float (al_value (snd a)) (al_value (snd b)))
                          (sr_allAllocations server)
      in \<lparr>se_serverName = serverName, se_priority = Server_Priority sys server, se_curIndex = 0,
          se_allocations = allocations,
          se_delta = (if length allocations > 1
                      then al_value (snd (allocations ! 1)) - al_value (snd (allocations ! 0))
                      else Fin MaxFloat32)\<rparr>)"

definition make_entries :: "System \<Rightarrow> System \<times> serverEntry list" where
  "make_entries sys =
     (sys\<lparr>servers := map (\<lambda>(n, v). (n, RemoveAllocation v)) (servers sys)\<rparr>,
      map (\<lambda>(n, v). make_entry sys n (RemoveAllocation v))
        (filter (\<lambda>(n, v). sr_allAllocations v \<noteq> []) (servers sys)))"

definition solve_group ::
  "string \<Rightarrow> available \<times> System \<Rightarrow> serverEntry list \<Rightarrow> (available \<times> System) option" where
  "solve_group policy st grp =
     Option.bind (allocate orderFunc grp (fst st) (snd st)) (\<lambda>(unallocated, available, sys).
       bestEffort policy unallocated available sys)"

definition SolveGreedy :: "OptimizerSpec \<Rightarrow> System \<Rightarrow> System option" where
  "SolveGreedy spec sys =
     (let available = capacity sys;
          (sys, entries) = make_entries sys;
          entries = sort_func orderFunc entries
      in map_option snd
           (if os_DelayedBestEffort spec
            then solve_group (os_SaturationPolicy spec) (available, sys) entries
            else ofoldl (solve_group (os_SaturationPolicy spec)) (available, sys)
                   (makePriorityGroups entries)))"

definition select_min :: "(string, Allocation) gomap \<Rightarrow> Allocation option" where
  "select_min allocs =
     snd (foldl (\<lambda>(minVal, minAlloc) (k, alloc).
            if al_value alloc < minVal then (al_value alloc, Some alloc) else (minVal, minAlloc))
          (Fin MaxFloat32, None) allocs)"

definition SolveUnlimited :: "System \<Rightarrow> System" where
  "SolveUnlimited sys =
     sys\<lparr>servers := map (\<lambda>(n, v).
        let v = RemoveAllocation v
        in (n, case select_min (sr_allAllocations v) of None \<Rightarrow> v | Some a \<Rightarrow> SetAllocation v a)) (servers sys)\<rparr>"

record Solver =
  sl_optimizerSpec :: OptimizerSpec
  sl_currentAllocation :: "(string, Allocation) gomap"
  sl_diffAllocation :: "(string, AllocationDiff) gomap"

definition NewSolver :: "OptimizerSpec \<Rightarrow> Solver" where
  "NewSolver spec = \<lparr>sl_optimizerSpec = spec, sl_currentAllocation = [], sl_diffAllocation = []\<rparr>"

definition Solve :: "Solver \<Rightarrow> System \<Rightarrow> (Solver \<times> System) option" where
  "Solve s sys =
     (let cur = foldl (\<lambda>m (n, v). case sr_curAllocation v of None \<Rightarrow> m | Some a \<Rightarrow> mput n a m) [] (servers sys)
      in map_option (\<lambda>sys.
           (s\<lparr>sl_currentAllocation := cur,
              sl_diffAllocation := foldl (\<lambda>m (n, v).
                case CreateAllocationDiff (mget cur n) (sr_allocation v) of
                  None \<Rightarrow> m | Some d \<Rightarrow> mput n d m) [] (servers sys)\<rparr>, sys))
           (if os_Unlimited (sl_optimizerSpec s) then Some (SolveUnlimited sys)
            else SolveGreedy (sl_optimizerSpec s) sys))"

text \<open>\<^verbatim>\<open>Optimizer.Optimize\<close> and \<^verbatim>\<open>Manager.Optimize\<close>; the time the solution took is not modelled.\<close>

definition Optimizer_Optimize :: "OptimizerSpec option \<Rightarrow> System \<Rightarrow> (Solver \<times> System) fallible option" where
  "Optimizer_Optimize spec sys =
     (case spec of
        None \<Rightarrow> Some (Inl (sprintf ''missing optimizer spec'' []))
      | Some sp \<Rightarrow> map_option Inr (Solve (NewSolver sp) sys))"

definition Manager_Optimize :: "OptimizerSpec option \<Rightarrow> System \<Rightarrow> (Solver \<times> System) fallible option" where
  "Manager_Optimize spec sys =
     map_option (\<lambda>r. case r of Inl e \<Rightarrow> Inl e | Inr (sl, sys) \<Rightarrow> Inr (sl, AllocateByType sys))
       (Optimizer_Optimize spec sys)"

section \<open>Accounting of units\<close>

text \<open>The units of a type still available and those the servers hold add up to the capacity, and
  none is overdrawn.\<close>

definition account :: "(string \<Rightarrow> int) \<Rightarrow> available \<Rightarrow> System \<Rightarrow> bool" where
  "account cap av sys \<longleftrightarrow> wf_map (servers sys) \<and> wf_map av \<and>
     (\<forall>t. 0 \<le> mget0 0 av t \<and> mget0 0 av t + type_count sys t (servers sys) = cap t)"

text \<open>Entries of distinct, existing servers without an allocation.\<close>

definition fresh :: "System \<Rightarrow> serverEntry list \<Rightarrow> bool" where
  "fresh sys es \<longleftrightarrow> distinct (map se_serverName es) \<and>
     (\<forall>e\<in>set es. \<exists>v. GetServer sys (se_serverName e) = Some v \<and> sr_allocation v = None)"

text \<open>Only the servers of the entries change, and of those only the allocations.\<close>

definition frame :: "string set \<Rightarrow> System \<Rightarrow> System \<Rightarrow> bool" where
  "frame names sys sys' \<longleftrightarrow> accelerators sys' = accelerators sys \<and> models sys' = models sys \<and>
     serviceClasses sys' = serviceClasses sys \<and> capacity sys' = capacity sys \<and>
     map fst (servers sys') = map fst (servers sys) \<and>
     (\<forall>n. n \<notin> names \<longrightarrow> GetServer sys' n = GetServer sys n)"

lemma frame_refl [simp]: "frame names sys sys"
  by (simp add: frame_def)

lemma frame_trans: "frame A s1 s2 \<Longrightarrow> frame B s2 s3 \<Longrightarrow> frame (A \<union> B) s1 s3"
  by (simp add: frame_def)

lemma frame_mono: "frame A s1 s2 \<Longrightarrow> A \<subseteq> B \<Longrightarrow> frame B s1 s2"
  by (auto simp: frame_def)

lemma fresh_frame:
  "fresh sys es \<Longrightarrow> frame names sys sys' \<Longrightarrow> names \<inter> se_serverName ` set es = {} \<Longrightarrow> fresh sys' es"
  by (auto simp: fresh_def frame_def disjoint_iff image_iff) metis

lemma fresh_Cons: "fresh sys (e # es) \<longleftrightarrow> se_serverName e \<notin> se_serverName ` set es \<and>
    (\<exists>v. GetServer sys (se_serverName e) = Some v \<and> sr_allocation v = None) \<and> fresh sys es"
  by (auto simp: fresh_def)

lemma fresh_append: "fresh sys (es @ es') \<longleftrightarrow> fresh sys es \<and> fresh sys es' \<and>
    se_serverName ` set es \<inter> se_serverName ` set es' = {}"
  by (auto simp: fresh_def)

lemma map_fst_mput: "mget m k = Some v \<Longrightarrow> map fst (mput k v' m) = map fst m"
  by (induction m) (auto split: if_splits)

lemma sum_list_mput:
  "wf_map m \<Longrightarrow> mget m k = Some v \<Longrightarrow>
    (\<Sum>x\<leftarrow>map snd (mput k v' m). f x) = (\<Sum>x\<leftarrow>map snd m. f x) - f v + (f v' :: int)"
proof (induction m)
  case (Cons a m)
  then show ?case
  proof (cases "fst a = k")
    case True
    then show ?thesis using Cons by (cases a) (auto simp: wf_map_def)
  next
    case False
    with Cons have "mget m k = Some v" "wf_map m" by (cases a; auto simp: wf_map_def)+
    with Cons.IH False show ?thesis by (cases a) simp
  qed
qed simp

lemma server_type_cong:
  "accelerators sys' = accelerators sys \<Longrightarrow> models sys' = models sys \<Longrightarrow> server_type sys' v = server_type sys v"
  and server_units_cong:
  "accelerators sys' = accelerators sys \<Longrightarrow> models sys' = models sys \<Longrightarrow> server_units sys' v = server_units sys v"
  by (auto simp: server_type_def server_units_def GetModel_def split: option.splits)

lemma type_count_cong:
  "accelerators sys' = accelerators sys \<Longrightarrow> models sys' = models sys \<Longrightarrow>
    type_count sys' t vs = type_count sys t vs"
  by (simp add: type_count_def server_type_cong [of sys' sys] server_units_cong [of sys' sys] cong: if_cong)

lemma frame_put_server:
  "GetServer sys n = Some v \<Longrightarrow> frame {n} sys (put_server sys n v')"
  by (simp add: frame_def put_server_def GetServer_def map_fst_mput)

text \<open>Setting the allocation of a server that had none moves its units from the available ones.\<close>

lemma type_count_put:
  assumes "wf_map (servers sys)" and "GetServer sys n = Some v" and "sr_allocation v = None"
    and "server_type sys v' = Some t" and "server_units sys v' = need"
  shows "type_count (put_server sys n v') t' (servers (put_server sys n v')) =
      type_count sys t' (servers sys) + (if t' = t then need else 0)"
proof -
  have old: "server_type sys v = None" using assms(3) by (simp add: server_type_def)
  have "type_count (put_server sys n v') t' (servers (put_server sys n v')) =
      type_count sys t' (mput n v' (servers sys))"
    using type_count_cong [of "put_server sys n v'" sys] by (simp add: put_server_def)
  also have "\<dots> = type_count sys t' (servers sys) + (if t' = t then need else 0)"
    using sum_list_mput [OF assms(1), of n v "\<lambda>v. if server_type sys v = Some t' then server_units sys v else 0" v']
      assms(2,4,5) old by (simp add: type_count_def GetServer_def)
  finally show ?thesis .
qed

lemma account_set:
  assumes "account cap av sys" and "GetServer sys n = Some v" and "sr_allocation v = None"
    and "server_type sys v' = Some t" and "server_units sys v' = need" and "need \<le> mget0 0 av t"
  shows "account cap (mput t (mget0 0 av t - need) av) (put_server sys n v')"
proof -
  have "wf_map (servers sys)" using assms(1) by (simp add: account_def)
  from type_count_put [OF this assms(2-5)] assms(1,6) show ?thesis
    by (auto simp: account_def put_server_def)
qed

lemma server_type_set:
  assumes "candidate_need sys n a = Some (v, t, need)"
  shows "GetServer sys n = Some v" "server_type sys (SetAllocation v a) = Some t"
    "server_units sys (SetAllocation v a) = need"
  using assms
  by (auto simp: candidate_need_def server_type_def server_units_def SetAllocation_def UpdateDesiredAlloc_def
      GetAccelerator_def Let_def split: option.splits)

section \<open>The greedy loop\<close>

definition index_ok :: "serverEntry list \<Rightarrow> bool" where
  "index_ok es \<longleftrightarrow> (\<forall>e\<in>set es. se_allocations e \<noteq> [] \<longrightarrow> se_curIndex e < length (se_allocations e))"

lemma fresh_insert_at: "fresh sys (insert_at es i e) \<longleftrightarrow> fresh sys (e # es)"
proof -
  have "distinct (map se_serverName (insert_at es i e)) \<longleftrightarrow> distinct (map se_serverName (e # es))"
    by (rule mset_eq_imp_distinct_iff) simp
  then show ?thesis by (auto simp: fresh_def)
qed

text \<open>What an allocation over some entries leaves: a balanced account, entries that are still
  without an allocation, and no other server touched.\<close>

definition alloc_post ::
  "(string \<Rightarrow> int) \<Rightarrow> System \<Rightarrow> string set \<Rightarrow> string set \<Rightarrow> (serverEntry list \<times> available \<times> System) option \<Rightarrow> bool" where
  "alloc_post cap sys names left r \<longleftrightarrow> (\<exists>un av sys'. r = Some (un, av, sys') \<and> account cap av sys' \<and>
     fresh sys' un \<and> frame names sys sys' \<and> se_serverName ` set un \<subseteq> left)"

lemma alloc_post_mono:
  assumes "alloc_post cap sys N U r" and "N \<subseteq> N'" and "U \<subseteq> U'"
  shows "alloc_post cap sys N' U' r"
proof -
  obtain un av sys' where "r = Some (un, av, sys')" "account cap av sys'" "fresh sys' un"
    "frame N sys sys'" "se_serverName ` set un \<subseteq> U" using assms(1) by (auto simp: alloc_post_def)
  with assms(2,3) frame_mono show ?thesis by (auto simp: alloc_post_def)
qed

lemma alloc_post_frame:
  assumes "frame M sys sys1" and "alloc_post cap sys1 N U r"
  shows "alloc_post cap sys (M \<union> N) U r"
proof -
  obtain un av sys' where "r = Some (un, av, sys')" "account cap av sys'" "fresh sys' un"
    "frame N sys1 sys'" "se_serverName ` set un \<subseteq> U" using assms(2) by (auto simp: alloc_post_def)
  with assms(1) frame_trans show ?thesis by (auto simp: alloc_post_def)
qed

lemma allocate_loop_correct:
  assumes "account cap av sys" and "fresh sys (un @ es)" and "index_ok es"
  shows "alloc_post cap sys (se_serverName ` set es) (se_serverName ` (set un \<union> set es))
    (allocate_loop ord un es av sys)"
  using assms
proof (induction ord un es av sys rule: allocate_loop.induct)
  case (1 ord un av sys)
  then show ?case by (simp add: alloc_post_def)
next
  case (2 ord un e es av sys)
  let ?n = "se_serverName e" and ?a = "se_current e" and ?e = "next_candidate e"
  have fr: "?n \<notin> se_serverName ` set es" "?n \<notin> se_serverName ` set un" "fresh sys (un @ es)" "index_ok es"
    using "2.prems" by (auto simp: fresh_append fresh_Cons index_ok_def)
  obtain v where v: "GetServer sys ?n = Some v" "sr_allocation v = None"
    using "2.prems"(2) by (auto simp: fresh_append fresh_Cons)
  consider (empty) "se_allocations e = []"
    | (lookup) "se_allocations e \<noteq> []" "candidate_need sys ?n ?a = None"
    | (fits) sv t need where "se_allocations e \<noteq> []" "candidate_need sys ?n ?a = Some (sv, t, need)"
        "need \<le> mget0 0 av t"
    | (last) sv t need where "se_allocations e \<noteq> []" "candidate_need sys ?n ?a = Some (sv, t, need)"
        "\<not> need \<le> mget0 0 av t" "se_curIndex ?e = length (se_allocations ?e)"
    | (more) sv t need where "se_allocations e \<noteq> []" "candidate_need sys ?n ?a = Some (sv, t, need)"
        "\<not> need \<le> mget0 0 av t" "se_curIndex ?e \<noteq> length (se_allocations ?e)"
    by (metis option.exhaust prod_cases3)
  then show ?case
  proof cases
    case empty
    with "2.IH"(1) [OF empty "2.prems"(1) fr(3,4)] show ?thesis by (auto elim!: alloc_post_mono)
  next
    case lookup
    then have idx: "\<not> length (se_allocations e) \<le> se_curIndex e" using "2.prems"(3) by (auto simp: index_ok_def)
    from "2.IH"(2) [OF lookup(1) idx lookup(2) "2.prems"(1) fr(3,4)] lookup idx show ?thesis
      by (auto elim!: alloc_post_mono)
  next
    case fits
    then have idx: "\<not> length (se_allocations e) \<le> se_curIndex e" using "2.prems"(3) by (auto simp: index_ok_def)
    note st = server_type_set [OF fits(2)]
    let ?sys = "put_server sys ?n (SetAllocation sv ?a)" and ?av = "mput t (mget0 0 av t - need) av"
    have "account cap ?av ?sys" using account_set [OF "2.prems"(1) v st(2,3) fits(3)] .
    moreover have fp: "frame {?n} sys ?sys" using frame_put_server st(1) by blast
    moreover have "fresh ?sys (un @ es)" using fresh_frame [OF fr(3) fp] fr(1,2) by auto
    ultimately have "alloc_post cap ?sys (se_serverName ` set es) (se_serverName ` (set un \<union> set es))
        (allocate_loop ord un es ?av ?sys)"
      using "2.IH"(3) [OF fits(1) idx fits(2) refl refl fits(3) _ _ fr(4)] by blast
    then have "alloc_post cap sys (se_serverName ` set (e # es)) (se_serverName ` (set un \<union> set (e # es)))
        (allocate_loop ord un es ?av ?sys)"
      by (rule alloc_post_mono [OF alloc_post_frame [OF fp]]) auto
    with fits idx show ?thesis by simp
  next
    case last
    then have idx: "\<not> length (se_allocations e) \<le> se_curIndex e" using "2.prems"(3) by (auto simp: index_ok_def)
    have "fresh sys ((un @ [?e]) @ es)" using "2.prems"(2) by (auto simp: fresh_append fresh_Cons fresh_def)
    from "2.IH"(4) [OF last(1) idx last(2) refl refl last(3) refl last(4) "2.prems"(1) this fr(4)]
    have "alloc_post cap sys (se_serverName ` set (e # es)) (se_serverName ` (set un \<union> set (e # es)))
        (allocate_loop ord (un @ [?e]) es av sys)"
      by (rule alloc_post_mono) auto
    with last idx show ?thesis by simp
  next
    case more
    then have idx: "\<not> length (se_allocations e) \<le> se_curIndex e" using "2.prems"(3) by (auto simp: index_ok_def)
    let ?es = "insert_at es (binary_search_func ord es ?e) ?e"
    have "index_ok ?es" using fr(4) more(4) idx by (auto simp: index_ok_def)
    moreover have "fresh sys (un @ ?es)"
      using "2.prems"(2) by (auto simp: fresh_append fresh_insert_at fresh_Cons)
    ultimately have "alloc_post cap sys (se_serverName ` set ?es) (se_serverName ` (set un \<union> set ?es))
        (allocate_loop ord un ?es av sys)"
      using "2.IH"(5) [OF more(1) idx more(2) refl refl more(3) refl more(4) "2.prems"(1)] by blast
    with more idx show ?thesis by (simp add: Let_def)
  qed
qed

section \<open>Best-effort procedures\<close>

text \<open>The contract every best-effort procedure offers the solver: on fresh entries it returns,
  balances the account and touches no other server. It carries over to groups of entries.\<close>

locale best_effort =
  fixes proc :: "serverEntry list \<Rightarrow> available \<Rightarrow> System \<Rightarrow> (available \<times> System) option"
    and ready :: "serverEntry list \<Rightarrow> bool"
  assumes proc_ok: "account cap av sys \<Longrightarrow> fresh sys es \<Longrightarrow> ready es \<Longrightarrow>
    \<exists>av' sys'. proc es av sys = Some (av', sys') \<and> account cap av' sys' \<and> frame (se_serverName ` set es) sys sys'"
begin

lemma groups_ok:
  "account cap av sys \<Longrightarrow> fresh sys (concat gs) \<Longrightarrow> \<forall>g\<in>set gs. ready g \<Longrightarrow>
    \<exists>av' sys'. ofoldl (\<lambda>(av, sys) g. proc g av sys) (av, sys) gs = Some (av', sys') \<and> account cap av' sys' \<and>
      frame (se_serverName ` set (concat gs)) sys sys'"
proof (induction gs arbitrary: av sys)
  case (Cons g gs)
  then obtain av1 sys1 where p: "proc g av sys = Some (av1, sys1)" "account cap av1 sys1"
    "frame (se_serverName ` set g) sys sys1"
    using proc_ok [of cap av sys g] by (auto simp: fresh_append)
  have "fresh sys1 (concat gs)"
    using Cons.prems(2) by (intro fresh_frame [OF _ p(3)]) (auto simp: fresh_append)
  then obtain av' sys' where "ofoldl (\<lambda>(av, sys) g. proc g av sys) (av1, sys1) gs = Some (av', sys')"
    "account cap av' sys'" "frame (se_serverName ` set (concat gs)) sys1 sys'"
    using Cons.IH [OF p(2)] Cons.prems(3) by auto
  with p frame_trans [OF p(3)] show ?case by (auto simp: image_Un)
qed simp

end

lemma server_type_grant:
  assumes "GetModel sys (sr_modelName v) = Some model" and "GetAccelerator sys (al_accelerator a) = Some acc"
  shows "server_type sys (SetAllocation (v\<lparr>sr_allAllocations := m\<rparr>) (a\<lparr>al_cost := c, al_value := w, al_numReplicas := k\<rparr>)) =
      Some (as_Type (ag_spec acc))"
    and "server_units sys (SetAllocation (v\<lparr>sr_allAllocations := m\<rparr>) (a\<lparr>al_cost := c, al_value := w, al_numReplicas := k\<rparr>)) =
      k * (NumInstances model (al_accelerator a) * as_Multiplicity (ag_spec acc))"
  using assms by (simp_all add: server_type_def server_units_def SetAllocation_def UpdateDesiredAlloc_def
      GetAccelerator_def)

lemma grant_account:
  assumes "account cap av sys" and "GetServer sys n = Some v" and "sr_allocation v = None"
    and "GetModel sys (sr_modelName v) = Some model" and "GetAccelerator sys (al_accelerator a) = Some acc"
    and "need = k * (NumInstances model (al_accelerator a) * as_Multiplicity (ag_spec acc))"
    and "need \<le> mget0 0 av (as_Type (ag_spec acc))"
  shows "account cap (mput (as_Type (ag_spec acc)) (mget0 0 av (as_Type (ag_spec acc)) - need) av)
      (grant sys n v (key, a) k)"
  unfolding grant_def Let_def prod.case
  using account_set [OF assms(1-3) server_type_grant [OF assms(4,5)] assms(7) [unfolded assms(6)]] assms(6)
  by simp

lemma frame_grant: "GetServer sys n = Some v \<Longrightarrow> frame {n} sys (grant sys n w ka k)"
  by (simp add: grant_def Let_def frame_put_server split: prod.split)

lemma maximally_entry_ok:
  assumes "account cap av sys" and v: "GetServer sys n = Some v" "sr_allocation v = None"
  shows "\<exists>av' sys'. maximally_entry n as av sys = Some (av', sys') \<and> account cap av' sys' \<and> frame {n} sys sys'"
proof (induction as)
  case Nil
  then show ?case using assms by simp
next
  case (Cons ka as)
  obtain key a where ka: "ka = (key, a)" by fastforce
  show ?case
  proof (cases "GetAccelerator sys (al_accelerator a)")
    case None
    with Cons v ka show ?thesis by simp
  next
    case acc: (Some acc)
    show ?thesis
    proof (cases "GetModel sys (sr_modelName v)")
      case None
      with Cons v ka acc show ?thesis by simp
    next
      case model: (Some model)
      let ?u = "NumInstances model (al_accelerator a) * as_Multiplicity (ag_spec acc)"
      let ?t = "as_Type (ag_spec acc)"
      let ?k = "min (godiv (mget0 0 av ?t) ?u) (al_numReplicas a)"
      show ?thesis
      proof (cases "?u > 0 \<and> ?k > 0")
        case False
        with Cons v ka acc model show ?thesis by (auto simp: Let_def)
      next
        case True
        have nn: "0 \<le> mget0 0 av ?t" using assms(1) by (simp add: account_def)
        have "?k * ?u \<le> godiv (mget0 0 av ?t) ?u * ?u" using True by (intro mult_right_mono) auto
        also have "\<dots> \<le> mget0 0 av ?t" using godiv_mult_le True nn by blast
        finally have "?k * ?u \<le> mget0 0 av ?t" .
        from grant_account [OF assms(1) v model acc refl this, of key] frame_grant [OF v(1)] True v ka acc model
        show ?thesis by (auto simp: Let_def)
      qed
    qed
  qed
qed

interpretation maximal: best_effort allocateMaximally "\<lambda>_. True"
proof (unfold_locales, goal_cases)
  case (1 cap av sys es)
  then show ?case
  proof (induction es arbitrary: av sys)
    case (Cons e es)
    obtain v where v: "GetServer sys (se_serverName e) = Some v" "sr_allocation v = None"
      using Cons.prems(2) by (auto simp: fresh_Cons)
    obtain av1 sys1 where p: "maximally_entry (se_serverName e) (se_allocations e) av sys = Some (av1, sys1)"
      "account cap av1 sys1" "frame {se_serverName e} sys sys1"
      using maximally_entry_ok [OF Cons.prems(1) v] by blast
    have "fresh sys1 es" using Cons.prems(2) by (intro fresh_frame [OF _ p(3)]) (auto simp: fresh_Cons)
    with Cons.IH [OF p(2)] p show ?case by (auto simp: allocateMaximally_def dest!: frame_trans [OF p(3)])
  qed (simp add: allocateMaximally_def)
qed

section \<open>Round robin\<close>

text \<open>The units the allocated tickets hold, and what the loop keeps of its tickets.\<close>

definition held :: "tickets \<Rightarrow> string \<Rightarrow> int" where
  "held m t = (\<Sum>tk\<leftarrow>map snd m. if tk_accType tk = t then tk_numReplicas tk * tk_unitsPerReplica tk else 0)"

definition ticket_ok :: "System \<Rightarrow> string \<Rightarrow> serverAllocationTicket \<Rightarrow> bool" where
  "ticket_ok sys n tk \<longleftrightarrow> GetServer sys n = Some (tk_server tk) \<and>
     GetModel sys (sr_modelName (tk_server tk)) = Some (tk_model tk) \<and>
     (tk_active tk \<longrightarrow> (\<exists>acc. GetAccelerator sys (al_accelerator (snd (tk_finalAlloc tk))) = Some acc \<and>
        tk_accType tk = as_Type (ag_spec acc) \<and> 0 < tk_unitsPerReplica tk \<and>
        tk_unitsPerReplica tk =
          NumInstances (tk_model tk) (al_accelerator (snd (tk_finalAlloc tk))) * as_Multiplicity (ag_spec acc)))"

definition rr_inv :: "(string \<Rightarrow> int) \<Rightarrow> System \<Rightarrow> string set \<Rightarrow> tickets \<times> tickets \<times> available \<Rightarrow> bool" where
  "rr_inv cap sys names st = (case st of (tickets, allocated, av) \<Rightarrow>
     wf_map tickets \<and> wf_map allocated \<and> wf_map av \<and>
     (\<forall>n tk. mget tickets n = Some tk \<longrightarrow> n \<in> names \<and> ticket_ok sys n tk \<and>
        (case mget allocated n of Some tk' \<Rightarrow> tk' = tk | None \<Rightarrow> tk_numReplicas tk = 0)) \<and>
     (\<forall>n tk. mget allocated n = Some tk \<longrightarrow> n \<in> names \<and> ticket_ok sys n tk \<and> tk_active tk) \<and>
     (\<forall>t. 0 \<le> mget0 0 av t \<and> mget0 0 av t + held allocated t + type_count sys t (servers sys) = cap t))"

lemma sum_list_mput_new:
  "mget m k = None \<Longrightarrow> (\<Sum>x\<leftarrow>map snd (mput k v m). f x) = (\<Sum>x\<leftarrow>map snd m. f x) + (f v :: int)"
  by (induction m) (auto split: if_splits)

lemma held_mput:
  assumes "wf_map m" and "case mget m n of Some tk' \<Rightarrow> tk' = tk | None \<Rightarrow> tk_numReplicas tk = 0"
  shows "held (mput n (tk\<lparr>tk_numReplicas := tk_numReplicas tk + 1\<rparr>) m) t =
    held m t + (if tk_accType tk = t then tk_unitsPerReplica tk else 0)"
proof (cases "mget m n")
  case None
  with assms(2) show ?thesis unfolding held_def by (subst sum_list_mput_new) auto
next
  case (Some tk')
  with assms show ?thesis unfolding held_def
    by (subst sum_list_mput [OF assms(1) Some]) (auto simp: distrib_right)
qed

lemma activate_ok:
  assumes "ticket_ok sys n tk" and "\<not> tk_active tk"
  shows "ticket_ok sys n (activate sys av tk as) \<and> tk_numReplicas (activate sys av tk as) = tk_numReplicas tk"
  using assms(1)
proof (induction sys av tk as rule: activate.induct)
  case (2 sys av tk key a rest)
  then show ?case by (auto simp: ticket_ok_def Let_def split: option.splits)
qed simp

lemma avail_sum:
  assumes "wf_map av" and "0 < (u::int)" and "u \<le> mget0 0 av t"
  shows "(\<Sum>x\<leftarrow>map snd (mput t (mget0 0 av t - u) av). x) = (\<Sum>x\<leftarrow>map snd av. x) - u"
proof -
  obtain x where "mget av t = Some x" using assms(2,3) by (cases "mget av t") (auto simp: mget0_def)
  with sum_list_mput [OF assms(1) this, of "\<lambda>x. x"] show ?thesis by (simp add: mget0_def)
qed

lemma avail_nonneg:
  assumes "wf_map av" and "\<forall>t. 0 \<le> mget0 0 av t" shows "0 \<le> (\<Sum>x\<leftarrow>map snd av. x :: int)"
proof (rule sum_list_nonneg)
  fix x assume "x \<in> set (map (\<lambda>x. x) (map snd av))"
  then obtain t where "(t, x) \<in> set av" by auto
  then have "mget0 0 av t = x" using assms(1) by (simp add: mget0_def wf_map_def)
  then show "0 \<le> x" using assms(2) by metis
qed

lemma avail_decreases:
  assumes "wf_map av" and "\<forall>t. 0 \<le> mget0 0 av t" and "0 < (u::int)" and "u \<le> mget0 0 av t"
  shows "nat (\<Sum>x\<leftarrow>map snd (mput t (mget0 0 av t - u) av). x) < nat (\<Sum>x\<leftarrow>map snd av. x)"
proof -
  have "0 \<le> (\<Sum>x\<leftarrow>map snd (mput t (mget0 0 av t - u) av). x)"
    using assms by (intro avail_nonneg) auto
  then show ?thesis using avail_sum [OF assms(1,3,4)] assms(3) by linarith
qed

definition rr_measure :: "tickets \<times> tickets \<times> available \<Rightarrow> nat" where
  "rr_measure st = (case st of (tickets, allocated, av) \<Rightarrow> nat (\<Sum>x\<leftarrow>map snd av. x) + length tickets)"

lemma length_mdel: "mget m k = Some v \<Longrightarrow> length (mdel k m) < length m"
  by (induction m) (auto simp: AList.delete_eq less_Suc_eq_le split: if_splits)

lemma length_mput: "mget m k = Some v \<Longrightarrow> length (mput k v' m) = length m"
  using map_fst_mput [of m k v v'] by (metis length_map)

lemma visit_correct:
  assumes inv: "rr_inv cap sys names st"
  shows "rr_inv cap sys names (visit sys st e) \<and>
    (if mget (fst st) (se_serverName e) = None then visit sys st e = st
     else rr_measure (visit sys st e) < rr_measure st)"
proof -
  obtain tickets allocated av where st: "st = (tickets, allocated, av)" by (cases st) auto
  let ?n = "se_serverName e"
  show ?thesis
  proof (cases "mget tickets ?n")
    case None
    with inv st show ?thesis by (simp add: visit_def)
  next
    case (Some tk)
    let ?tk = "if tk_active tk then tk else activate sys av tk (se_allocations e)"
    have wf: "wf_map tickets" "wf_map allocated" "wf_map av" "\<forall>t. 0 \<le> mget0 0 av t"
      and tk: "?n \<in> names" "ticket_ok sys ?n tk"
        "case mget allocated ?n of Some tk' \<Rightarrow> tk' = tk | None \<Rightarrow> tk_numReplicas tk = 0"
      and al: "\<And>n tk. mget allocated n = Some tk \<Longrightarrow> tk_active tk"
      using inv Some by (auto simp: st rr_inv_def)
    have ok: "ticket_ok sys ?n ?tk" using activate_ok tk(2) by simp
    have same: "case mget allocated ?n of Some tk' \<Rightarrow> tk' = ?tk | None \<Rightarrow> tk_numReplicas ?tk = 0"
      using tk al [of ?n] activate_ok [OF tk(2)] by (auto split: option.splits)
    let ?u = "tk_unitsPerReplica ?tk" and ?t = "tk_accType ?tk"
    let ?k = "min (godiv (mget0 0 av ?t) ?u) (al_numReplicas (snd (tk_finalAlloc ?tk)))"
    let ?del = "(mdel ?n tickets, allocated, av)"
    have del: "rr_inv cap sys names ?del \<and> rr_measure ?del < rr_measure st"
      using inv length_mdel [OF Some] by (auto simp: st rr_inv_def rr_measure_def)
    show ?thesis
    proof (cases "tk_active ?tk \<and> ?k > 0")
      case False
      then have "visit sys st e = ?del" using Some by (auto simp: visit_def st Let_def)
      with del Some st show ?thesis by simp
    next
      case True
      then have u: "0 < ?u" using ok by (auto simp: ticket_ok_def)
      then have fit: "?u \<le> mget0 0 av ?t" using True by (simp add: godiv_pos_iff)
      let ?tk' = "?tk\<lparr>tk_numReplicas := tk_numReplicas ?tk + 1\<rparr>"
      let ?st = "(mput ?n ?tk' tickets, mput ?n ?tk' allocated, mput ?t (mget0 0 av ?t - ?u) av)"
      have "visit sys st e = ?st" using Some True by (simp add: visit_def st Let_def)
      moreover have "ticket_ok sys ?n ?tk'" using ok by (simp add: ticket_ok_def)
      then have "rr_inv cap sys names ?st"
        using inv wf tk(1) True held_mput [OF wf(2) same] fit unfolding st rr_inv_def prod.case
        by (auto split: if_splits)
      moreover have "rr_measure ?st < rr_measure st"
        using avail_decreases [OF wf(3,4) u fit] length_mput [OF Some]
        unfolding st rr_measure_def prod.case by simp
      ultimately show ?thesis using Some st by simp
    qed
  qed
qed

lemma pass_correct:
  assumes "rr_inv cap sys names st"
  shows "rr_inv cap sys names (foldl (visit sys) st es) \<and> rr_measure (foldl (visit sys) st es) \<le> rr_measure st \<and>
    ((\<exists>e\<in>set es. mget (fst st) (se_serverName e) \<noteq> None) \<longrightarrow>
      rr_measure (foldl (visit sys) st es) < rr_measure st)"
  using assms
proof (induction es arbitrary: st)
  case (Cons e es)
  note v = visit_correct [OF Cons.prems, of e]
  show ?case
  proof (cases "mget (fst st) (se_serverName e) = None")
    case True
    with v Cons.IH [OF Cons.prems] show ?thesis by simp
  next
    case False
    with v Cons.IH [of "visit sys st e"] show ?thesis by auto
  qed
qed simp

lemma round_robin_returns:
  assumes "rr_inv cap sys (se_serverName ` set es) st"
  shows "\<exists>allocated av. round_robin sys es st = Some (allocated, av) \<and>
    rr_inv cap sys (se_serverName ` set es) ([], allocated, av)"
  using assms
proof (induction st rule: measure_induct_rule [where f = rr_measure])
  case (less st)
  obtain tickets allocated av where st: "st = (tickets, allocated, av)" by (cases st) auto
  show ?case
  proof (cases "tickets = []")
    case True
    with less.prems st show ?thesis by (simp add: round_robin.simps)
  next
    case False
    then obtain n tk where "(n, tk) \<in> set tickets" by (metis list.set_intros(1) neq_Nil_conv surj_pair)
    then have "mget tickets n = Some tk" using less.prems st by (simp add: rr_inv_def wf_map_mget)
    moreover from this have "n \<in> se_serverName ` set es" using less.prems st by (simp add: rr_inv_def)
    ultimately have "\<exists>e\<in>set es. mget (fst st) (se_serverName e) \<noteq> None" using st by auto
    with pass_correct [OF less.prems, of es]
    have "rr_measure (foldl (visit sys) st es) < rr_measure st"
      "rr_inv cap sys (se_serverName ` set es) (foldl (visit sys) st es)" by blast+
    from less.IH [OF this] show ?thesis
      using False st by (subst round_robin.simps) simp
  qed
qed

text \<open>Granting the allocated tickets turns the units they hold into units of the servers.\<close>

lemma grant_type_count:
  assumes "wf_map (servers sys)" and "GetServer sys n = Some v" and "sr_allocation v = None"
    and "GetModel sys (sr_modelName v) = Some model" and "GetAccelerator sys (al_accelerator a) = Some acc"
  shows "type_count (grant sys n v (key, a) k) t (servers (grant sys n v (key, a) k)) =
    type_count sys t (servers sys) +
    (if t = as_Type (ag_spec acc) then k * (NumInstances model (al_accelerator a) * as_Multiplicity (ag_spec acc)) else 0)"
  unfolding grant_def Let_def prod.case
  using type_count_put [OF assms(1-3) server_type_grant [OF assms(4,5)]] by simp

lemma wf_grant: "wf_map (servers sys) \<Longrightarrow> wf_map (servers (grant sys n v ka k))"
  by (simp add: grant_def Let_def put_server_def split: prod.split)

lemma ticket_ok_frame:
  "ticket_ok sys n tk \<Longrightarrow> frame names sys sys' \<Longrightarrow> n \<notin> names \<Longrightarrow> ticket_ok sys' n tk"
  by (auto simp: ticket_ok_def frame_def GetModel_def GetAccelerator_def)

lemma grant_tickets_ok:
  assumes "wf_map (servers sys)" and "distinct (map fst m)"
    and "\<forall>(n, tk)\<in>set m. ticket_ok sys n tk \<and> tk_active tk \<and> sr_allocation (tk_server tk) = None"
  shows "wf_map (servers (grant_tickets m sys)) \<and> frame (fst ` set m) sys (grant_tickets m sys) \<and>
    (\<forall>t. type_count (grant_tickets m sys) t (servers (grant_tickets m sys)) =
      type_count sys t (servers sys) + held m t)"
  using assms
proof (induction m arbitrary: sys)
  case Nil
  then show ?case by (simp add: grant_tickets_def held_def)
next
  case (Cons x m)
  obtain n tk where x: "x = (n, tk)" by fastforce
  obtain key a where ka: "tk_finalAlloc tk = (key, a)" by fastforce
  have tk: "ticket_ok sys n tk" "tk_active tk" "sr_allocation (tk_server tk) = None"
    using Cons.prems(3) x by auto
  then obtain acc where acc: "GetAccelerator sys (al_accelerator a) = Some acc"
      "tk_accType tk = as_Type (ag_spec acc)"
      "tk_unitsPerReplica tk = NumInstances (tk_model tk) (al_accelerator a) * as_Multiplicity (ag_spec acc)"
      and srv: "GetServer sys n = Some (tk_server tk)" "GetModel sys (sr_modelName (tk_server tk)) = Some (tk_model tk)"
    by (auto simp: ticket_ok_def ka)
  let ?sys = "grant sys n (tk_server tk) (tk_finalAlloc tk) (tk_numReplicas tk)"
  have fr: "frame {n} sys ?sys" using frame_grant srv(1) by blast
  have rest: "\<forall>(n', tk')\<in>set m. ticket_ok ?sys n' tk' \<and> tk_active tk' \<and> sr_allocation (tk_server tk') = None"
    using Cons.prems(2,3) x ticket_ok_frame [OF _ fr] by (fastforce simp: image_iff)
  have cnt: "type_count ?sys t (servers ?sys) = type_count sys t (servers sys) +
      (if tk_accType tk = t then tk_numReplicas tk * tk_unitsPerReplica tk else 0)" for t
    using grant_type_count [OF Cons.prems(1) srv(1) tk(3) srv(2) acc(1), of key "tk_numReplicas tk" t] acc ka by auto
  have "grant_tickets (x # m) sys = grant_tickets m ?sys" by (simp add: grant_tickets_def x)
  moreover have "frame (fst ` set (x # m)) sys (grant_tickets m ?sys)" if "frame (fst ` set m) ?sys (grant_tickets m ?sys)"
    using frame_trans [OF fr that] x by simp
  ultimately show ?case
    using Cons.IH [OF wf_grant [OF Cons.prems(1)] _ rest] Cons.prems(2) cnt
    by (simp add: held_def x)
qed

lemma make_tickets_ok:
  assumes "fresh sys es"
  shows "\<exists>m. make_tickets es sys = Some m \<and> wf_map m \<and>
    (\<forall>n tk. mget m n = Some tk \<longrightarrow> n \<in> se_serverName ` set es \<and> ticket_ok sys n tk \<and> tk_numReplicas tk = 0 \<and>
      sr_allocation (tk_server tk) = None)"
  using assms
proof (induction es rule: rev_induct)
  case (snoc e es)
  then obtain m where m: "make_tickets es sys = Some m" "wf_map m"
      "\<forall>n tk. mget m n = Some tk \<longrightarrow> n \<in> se_serverName ` set es \<and> ticket_ok sys n tk \<and> tk_numReplicas tk = 0 \<and>
        sr_allocation (tk_server tk) = None"
    by (auto simp: fresh_append)
  obtain v where "GetServer sys (se_serverName e) = Some v" "sr_allocation v = None"
    using snoc.prems by (auto simp: fresh_append fresh_Cons)
  with m show ?case
    by (cases "GetModel sys (sr_modelName v)")
      (auto simp: make_tickets_def new_ticket_def ticket_ok_def)
qed (simp add: make_tickets_def)

interpretation equal: best_effort allocateEqually "\<lambda>_. True"
proof (unfold_locales, goal_cases)
  case (1 cap av sys es)
  let ?N = "se_serverName ` set es"
  obtain m where m: "make_tickets es sys = Some m" "wf_map m"
      "\<forall>n tk. mget m n = Some tk \<longrightarrow> n \<in> ?N \<and> ticket_ok sys n tk \<and> tk_numReplicas tk = 0 \<and>
        sr_allocation (tk_server tk) = None"
    using make_tickets_ok [OF 1(2)] by blast
  have "rr_inv cap sys ?N (m, [], av)"
    using 1(1) m by (auto simp: rr_inv_def account_def held_def)
  then obtain al av' where rr: "round_robin sys es (m, [], av) = Some (al, av')" "rr_inv cap sys ?N ([], al, av')"
    using round_robin_returns by blast
  have none: "sr_allocation (tk_server tk) = None" if "mget al n = Some tk" for n tk
  proof -
    have "n \<in> ?N" "GetServer sys n = Some (tk_server tk)" using rr(2) that by (auto simp: rr_inv_def ticket_ok_def)
    with 1(2) show ?thesis by (auto simp: fresh_def)
  qed
  have wf: "wf_map (servers sys)" "wf_map al" using 1(1) rr(2) by (auto simp: account_def rr_inv_def)
  have mem: "mget al n = Some tk" if "(n, tk) \<in> set al" for n tk using wf(2) that by (simp add: wf_map_mget)
  have g: "wf_map (servers (grant_tickets al sys)) \<and> frame (fst ` set al) sys (grant_tickets al sys) \<and>
    (\<forall>t. type_count (grant_tickets al sys) t (servers (grant_tickets al sys)) = type_count sys t (servers sys) + held al t)"
    using wf rr(2) none mem by (intro grant_tickets_ok) (auto simp: wf_map_def rr_inv_def)
  have "fst ` set al \<subseteq> ?N" using rr(2) mem by (fastforce simp: rr_inv_def)
  then have "frame ?N sys (grant_tickets al sys)" using g frame_mono by blast
  moreover have "account cap av' (grant_tickets al sys)"
    using g rr(2) by (auto simp: account_def rr_inv_def add.commute add.left_commute)
  ultimately show ?case using m(1) rr(1) by (simp add: allocateEqually_def)
qed

section \<open>The whole greedy solution\<close>

lemma concat_makePriorityGroups [simp]: "concat (makePriorityGroups es) = es"
  by (induction es rule: makePriorityGroups.induct) simp_all

lemma makePriorityGroups_same:
  "g \<in> set (makePriorityGroups es) \<Longrightarrow> g \<noteq> [] \<and> (\<forall>x\<in>set g. se_priority x = se_priority (hd g))"
proof (induction es rule: makePriorityGroups.induct)
  case (2 e es)
  from "2.prems" consider "g = e # takeWhile (\<lambda>x. se_priority x = se_priority e) es"
    | "g \<in> set (makePriorityGroups (dropWhile (\<lambda>x. se_priority x = se_priority e) es))" by auto
  then show ?case
  proof cases
    case 1
    have "se_priority x = se_priority e" if "x \<in> set g" for x
      using that set_takeWhileD [of x "\<lambda>x. se_priority x = se_priority e" es] unfolding 1 list.set by blast
    moreover have "hd g = e" "g \<noteq> []" using 1 by simp_all
    ultimately show ?thesis by metis
  next
    case 2
    then show ?thesis by (rule "2.IH")
  qed
qed simp

lemma makePriorityGroups_subset: "g \<in> set (makePriorityGroups es) \<Longrightarrow> set g \<subseteq> set es"
  by (metis concat_makePriorityGroups set_concat UN_upper)

interpretation policy: best_effort "bestEffort p" "\<lambda>_. True" for p
proof (unfold_locales, goal_cases)
  case (1 cap av sys es)
  then show ?case
    using maximal.proc_ok [OF 1(1,2)] equal.proc_ok [OF 1(1,2)]
      equal.groups_ok [OF 1(1), of "makePriorityGroups es"]
    by (cases "SaturatedAllocationPolicyEnum p") (simp_all add: bestEffort_def)
qed

interpretation grp: best_effort "\<lambda>es av sys. solve_group p (av, sys) es" index_ok for p
proof (unfold_locales, goal_cases)
  case (1 cap av sys es)
  let ?N = "se_serverName ` set es"
  obtain un av1 sys1 where a: "allocate orderFunc es av sys = Some (un, av1, sys1)" "account cap av1 sys1"
      "fresh sys1 un" "frame ?N sys sys1" "se_serverName ` set un \<subseteq> ?N"
    using allocate_loop_correct [of cap av sys "[]" es orderFunc] 1
    by (auto simp: allocate_def alloc_post_def)
  obtain av2 sys2 where b: "bestEffort p un av1 sys1 = Some (av2, sys2)" "account cap av2 sys2"
      "frame (se_serverName ` set un) sys1 sys2"
    using policy.proc_ok [OF a(2,3)] by blast
  have "frame ?N sys sys2" using frame_trans [OF a(4) b(3)] frame_mono a(5) by (metis Un_absorb2)
  with a(1) b(1,2) show ?case by (simp add: solve_group_def)
qed

lemma entries_fresh:
  assumes "wf_map (servers sys)" and "make_entries sys = (sys', es)"
  shows "fresh sys' es \<and> index_ok es \<and> type_count sys' t (servers sys') = 0 \<and> wf_map (servers sys') \<and>
    frame (fst ` set (servers sys)) sys sys' \<and> se_serverName ` set es \<subseteq> fst ` set (servers sys)"
proof -
  have e: "sys' = sys\<lparr>servers := map (\<lambda>(n, v). (n, RemoveAllocation v)) (servers sys)\<rparr>"
    "es = map (\<lambda>(n, v). make_entry sys n (RemoveAllocation v)) (filter (\<lambda>(n, v). sr_allAllocations v \<noteq> []) (servers sys))"
    using assms(2) by (auto simp: make_entries_def)
  have keys: "map fst (servers sys') = map fst (servers sys)" by (simp add: e case_prod_beta comp_def)
  have look: "mget (servers sys') n = map_option RemoveAllocation (mget (servers sys) n)" for n
    by (simp add: e map_of_map)
  have names: "map se_serverName es = map fst (filter (\<lambda>(n, v). sr_allAllocations v \<noteq> []) (servers sys))"
    by (auto simp: e make_entry_def Let_def case_prod_beta)
  have "distinct (map se_serverName es)"
    using assms(1) unfolding names wf_map_def by (rule distinct_map_filter)
  moreover have "\<exists>v. GetServer sys' (se_serverName x) = Some v \<and> sr_allocation v = None" if "x \<in> set es" for x
  proof -
    from that obtain n v where "(n, v) \<in> set (servers sys)" "se_serverName x = n"
      by (auto simp: e make_entry_def Let_def)
    then have "mget (servers sys) (se_serverName x) = Some v" using assms(1) by (simp add: wf_map_mget)
    then show ?thesis using look by (simp add: GetServer_def RemoveAllocation_def)
  qed
  moreover have "index_ok es" by (auto simp: index_ok_def e make_entry_def Let_def sort_func_def)
  moreover have "type_count sys' t (servers sys') = 0"
  proof -
    have "type_count sys' t (map (\<lambda>(n, v). (n, RemoveAllocation v)) vs) = 0" for vs
      by (induction vs) (auto simp: type_count_def server_type_def RemoveAllocation_def)
    then show ?thesis by (simp add: e)
  qed
  moreover have "frame (fst ` set (servers sys)) sys sys'"
  proof -
    have "n \<notin> fst ` set (servers sys) \<Longrightarrow> GetServer sys' n = GetServer sys n" for n
      using look [of n] by (simp add: GetServer_def map_of_eq_None_iff [THEN iffD2])
    with keys show ?thesis by (auto simp: frame_def e)
  qed
  moreover have "se_serverName ` set es \<subseteq> fst ` set (servers sys)"
    using arg_cong [OF names, of set] by auto
  ultimately show ?thesis using assms(1) keys by (simp add: fresh_def wf_map_def)
qed

lemma fresh_perm: "mset es = mset es' \<Longrightarrow> fresh sys es \<Longrightarrow> fresh sys es'"
  unfolding fresh_def by (metis mset_eq_imp_distinct_iff mset_map set_mset_mset)

lemma SolveGreedy_account:
  assumes "wf_map (servers sys)" and "wf_map (capacity sys)" and "\<forall>t. 0 \<le> mget0 0 (capacity sys) t"
  shows "\<exists>sys' av. SolveGreedy spec sys = Some sys' \<and> account (mget0 0 (capacity sys)) av sys' \<and>
    frame (fst ` set (servers sys)) sys sys'"
proof -
  let ?cap = "mget0 0 (capacity sys)" and ?p = "os_SaturationPolicy spec"
  obtain s1 es where me: "make_entries sys = (s1, es)" by fastforce
  let ?es = "sort_func orderFunc es"
  note f = entries_fresh [OF assms(1) me]
  have acc: "account ?cap (capacity sys) s1" using f assms by (auto simp: account_def)
  have fr: "fresh s1 ?es" "index_ok ?es" using f fresh_perm [of es ?es s1] by (auto simp: index_ok_def)
  have grp_idx: "\<forall>g\<in>set (makePriorityGroups ?es). index_ok g"
    using fr(2) makePriorityGroups_subset by (fastforce simp: index_ok_def)
  have sub: "se_serverName ` set ?es \<subseteq> fst ` set (servers sys)"
    using f by simp
  have "\<exists>av' sys'. (if os_DelayedBestEffort spec then solve_group ?p (capacity sys, s1) ?es
      else ofoldl (solve_group ?p) (capacity sys, s1) (makePriorityGroups ?es)) = Some (av', sys') \<and>
    account ?cap av' sys' \<and> frame (se_serverName ` set ?es) s1 sys'"
    using grp.proc_ok [OF acc fr, of ?p] grp.groups_ok [OF acc, of "makePriorityGroups ?es" ?p] fr(1) grp_idx
    by (auto simp: case_prod_unfold)
  moreover have "frame (fst ` set (servers sys)) sys s2" if "frame (se_serverName ` set ?es) s1 s2" for s2
    using frame_trans [of "fst ` set (servers sys)" sys s1 _ s2] f that sub frame_mono by (metis Un_absorb2)
  ultimately show ?thesis by (auto simp: SolveGreedy_def me Let_def)
qed

section \<open>Order of the entries\<close>

lemma orderFunc_cases:
  "orderFunc a b \<le> 0 \<longleftrightarrow> se_priority a < se_priority b \<or> se_priority a = se_priority b \<and>
     (if feq (se_delta a) (se_delta b) then cmp_float (al_value (se_current b)) (al_value (se_current a)) \<le> 0
      else cmp_float (se_delta b) (se_delta a) \<le> 0)"
  by (auto simp: orderFunc_def cmp_int_def)

lemma feq_trans: "feq x y \<Longrightarrow> feq y z \<Longrightarrow> feq x z"
  and feq_sym: "feq x y \<longleftrightarrow> feq y x"
  and feq_cmp: "feq x y \<Longrightarrow> cmp_float x y \<le> 0"
  and cmp_float_antisym: "cmp_float x y \<le> 0 \<Longrightarrow> cmp_float y x \<le> 0 \<Longrightarrow> feq x y \<or> x = NaN \<and> y = NaN"
  by (auto simp: feq_def cmp_float_cases) (cases x; cases y; simp)+

interpretation entries: comparator orderFunc
proof (unfold_locales, goal_cases)
  case (1 x y)
  then show ?case
    using cf.cmp_anti [of "al_value (se_current y)" "al_value (se_current x)"] cf.cmp_anti [of "se_delta y" "se_delta x"]
    by (auto simp: orderFunc_def cmp_int_def feq_sym)
next
  case (2 x y z)
  consider (prio) "se_priority x < se_priority y \<or> se_priority y < se_priority z"
    | (same) "se_priority x = se_priority y" "se_priority y = se_priority z"
    using 2 by (force simp: orderFunc_cases)
  then show ?case
  proof cases
    case prio
    with 2 show ?thesis by (auto simp: orderFunc_cases)
  next
    case same
    let ?d = "\<lambda>a b. cmp_float (se_delta b) (se_delta a) \<le> 0"
    let ?v = "\<lambda>a b. cmp_float (al_value (se_current b)) (al_value (se_current a)) \<le> 0"
    let ?e = "\<lambda>a b. feq (se_delta a) (se_delta b)"
    have xy: "if ?e x y then ?v x y else ?d x y" and yz: "if ?e y z then ?v y z else ?d y z"
      using 2 same by (auto simp: orderFunc_cases)
    have d: "?d x y" "?d y z"
      using xy yz feq_cmp [of "se_delta y" "se_delta x"] feq_cmp [of "se_delta z" "se_delta y"]
      by (auto simp: feq_sym split: if_splits)
    then have dxz: "?d x z" using cf.cmp_trans by blast
    have "?v x z" if e: "?e x z"
    proof -
      have "?d z x" using feq_cmp e by (auto simp: feq_sym)
      then have "?d y x" "?d z y" using d cf.cmp_trans by blast+
      moreover have "se_delta x \<noteq> NaN" "se_delta z \<noteq> NaN" using e by (auto simp: feq_def)
      ultimately have "?e x y" "?e y z" using cmp_float_antisym d feq_sym by metis+
      then show ?thesis using xy yz cf.cmp_trans by auto
    qed
    then show ?thesis using same dxz by (auto simp: orderFunc_cases)
  qed
qed

lemma dropWhile_hd_not: "dropWhile P xs = y # ys \<Longrightarrow> \<not> P y"
  by (metis hd_dropWhile list.distinct(1) list.sel(1))

lemma groups_increasing:
  "sorted_wrt (\<lambda>a b. se_priority a \<le> se_priority b) es \<Longrightarrow>
    sorted_wrt (\<lambda>g h. se_priority (hd g) < se_priority (hd h)) (makePriorityGroups es)"
proof (induction es rule: makePriorityGroups.induct)
  case (2 e es)
  let ?P = "\<lambda>x. se_priority x = se_priority e"
  have srt: "sorted_wrt (\<lambda>a b. se_priority a \<le> se_priority b) (dropWhile ?P es)"
    using "2.prems" by (metis sorted_wrt_append sorted_wrt.simps(2) takeWhile_dropWhile_id)
  have "se_priority e < se_priority x" if "x \<in> set (dropWhile ?P es)" for x
  proof -
    have "dropWhile ?P es \<noteq> []" using that by (metis empty_iff list.set(1))
    then obtain y ys where d: "dropWhile ?P es = y # ys" by (meson neq_Nil_conv)
    have "y \<in> set es" using d by (metis list.set_intros(1) set_dropWhileD)
    then have "se_priority e < se_priority y"
      using "2.prems" dropWhile_hd_not [OF d] by (auto simp: less_le)
    moreover have "se_priority y \<le> se_priority x" using srt that d by auto
    ultimately show ?thesis by simp
  qed
  moreover have "hd g \<in> set (dropWhile ?P es)" if "g \<in> set (makePriorityGroups (dropWhile ?P es))" for g
    using that makePriorityGroups_subset makePriorityGroups_same by (metis hd_in_set subsetD)
  ultimately show ?case using "2.IH" srt by auto
qed simp

section \<open>Properties\<close>

text \<open>C1: the greedy optimization returns and never overdraws an accelerator type. For any options
  of the optimizer (with or without delayed best effort, under every saturation policy, including
  the round-robin loop, whose termination is part of the statement) and any candidates, the units
  of each type that the solution allocates stay within the capacity of the type, as the optimizer
  itself reports them.\<close>

theorem greedy_within_capacity:
  assumes "wf_map (servers sys)" and "wf_map (capacity sys)" and "\<forall>t. 0 \<le> mget0 0 (capacity sys) t"
    and "\<not> os_Unlimited spec"
  shows "\<exists>sl sys'. Manager_Optimize (Some spec) sys = Some (Inr (sl, sys')) \<and>
    map fst (servers sys') = map fst (servers sys) \<and>
    (\<forall>t. case mget (allocationByType sys') t of None \<Rightarrow> True
         | Some a \<Rightarrow> bt_count a = type_count sys' t (servers sys') \<and> bt_count a \<le> bt_limit a \<and>
             bt_limit a = mget0 0 (capacity sys) t)"
proof -
  obtain s1 av where s1: "SolveGreedy spec sys = Some s1" "account (mget0 0 (capacity sys)) av s1"
      "frame (fst ` set (servers sys)) sys s1"
    using SolveGreedy_account [OF assms(1-3)] by blast
  have le: "type_count s1 t (servers s1) \<le> mget0 0 (capacity sys) t" for t
  proof -
    have "0 \<le> mget0 0 av t" "mget0 0 av t + type_count s1 t (servers s1) = mget0 0 (capacity sys) t"
      using s1(2) by (simp_all add: account_def)
    then show ?thesis by linarith
  qed
  have fr: "capacity s1 = capacity sys" "map fst (servers s1) = map fst (servers sys)"
    using s1(3) by (simp_all add: frame_def)
  have tc: "type_count (AllocateByType s1) t (servers (AllocateByType s1)) = type_count s1 t (servers s1)" for t
    using type_count_cong [of "AllocateByType s1" s1] by (simp add: AllocateByType_def)
  obtain sl where "Manager_Optimize (Some spec) sys = Some (Inr (sl, AllocateByType s1))"
    using s1(1) assms(4)
    by (simp add: Manager_Optimize_def Optimizer_Optimize_def Solve_def NewSolver_def Let_def)
  moreover have "case mget (allocationByType (AllocateByType s1)) t of None \<Rightarrow> True
      | Some a \<Rightarrow> bt_count a = type_count (AllocateByType s1) t (servers (AllocateByType s1)) \<and>
          bt_count a \<le> bt_limit a \<and> bt_limit a = mget0 0 (capacity sys) t" for t
    using AllocateByType_exact [of s1 t] le [of t] fr(1) tc [of t] by (auto split: option.splits)
  moreover have "map fst (servers (AllocateByType s1)) = map fst (servers sys)"
    using fr(2) by (simp add: AllocateByType_def)
  ultimately show ?thesis by blast
qed

text \<open>A system whose only candidate asks for twelve units of a type with eight.\<close>

definition tight_system :: System where
  "tight_system =
     (let s = sample_system; v = the (GetServer s ''s'');
          a = zero_Allocation\<lparr>al_accelerator := ''g'', al_numReplicas := 12, al_cost := Fin 60, al_value := Fin 60\<rparr>
      in put_server s ''s'' (v\<lparr>sr_allAllocations := [(''g'', a)]\<rparr>))"

lemma tight_system_maps:
  "wf_map (servers tight_system)" "capacity tight_system = [(''T'', 8)]"
  by (simp_all add: tight_system_def put_server_def sample_system_def sample_spec_def set_spec_defs Let_def
      wf_map_def GetServer_def)

theorem greedy_within_capacity_witness:
  "\<exists>sl sys'. Manager_Optimize (Some \<lparr>os_Unlimited = False, os_DelayedBestEffort = True,
      os_SaturationPolicy = ''RoundRobin''\<rparr>) tight_system = Some (Inr (sl, sys')) \<and>
    (\<forall>t. case mget (allocationByType sys') t of None \<Rightarrow> True | Some a \<Rightarrow> bt_count a \<le> bt_limit a)"
proof -
  have "wf_map (capacity tight_system)" "\<forall>t. 0 \<le> mget0 0 (capacity tight_system) t"
    by (simp_all add: tight_system_maps wf_map_def mget0_def)
  from greedy_within_capacity [OF tight_system_maps(1) this,
      of "\<lparr>os_Unlimited = False, os_DelayedBestEffort = True, os_SaturationPolicy = ''RoundRobin''\<rparr>"]
  show ?thesis by (fastforce split: option.splits)
qed

text \<open>Selecting the candidate of least value: what is known after each prefix of the candidates.\<close>

definition least_so_far :: "(string \<times> Allocation) list \<Rightarrow> gofloat \<times> Allocation option \<Rightarrow> bool" where
  "least_so_far cs mr = (case mr of (m, r) \<Rightarrow> is_fin m \<and> (\<forall>c\<in>snd ` set cs. m \<le> al_value c) \<and>
     (case r of None \<Rightarrow> m = Fin MaxFloat32
      | Some a \<Rightarrow> a \<in> snd ` set cs \<and> m = al_value a \<and> m < Fin MaxFloat32))"

lemma least_so_far_foldl:
  "\<forall>c\<in>snd ` set cs. is_fin (al_value c) \<Longrightarrow>
    least_so_far cs (foldl (\<lambda>(minVal, minAlloc) (k, alloc).
      if al_value alloc < minVal then (al_value alloc, Some alloc) else (minVal, minAlloc)) (Fin MaxFloat32, None) cs)"
proof (induction cs rule: rev_induct)
  case Nil
  then show ?case by (simp add: least_so_far_def)
next
  case (snoc x xs)
  let ?f = "\<lambda>(minVal, minAlloc) (k, alloc).
      if al_value alloc < minVal then (al_value alloc, Some alloc) else (minVal, minAlloc)"
  obtain k c where x: "x = (k, c)" by fastforce
  obtain m r where mr: "foldl ?f (Fin MaxFloat32, None) xs = (m, r)" by fastforce
  have IH: "least_so_far xs (m, r)" using snoc mr by simp
  obtain y z where yz: "m = Fin y" "al_value c = Fin z"
    using IH snoc.prems x by (auto simp: least_so_far_def elim!: is_finE)
  have lt: "\<forall>c'\<in>snd ` set xs. Fin z \<le> al_value c'" if "z < y"
  proof
    fix c' assume c': "c' \<in> snd ` set xs"
    with snoc.prems obtain w where "al_value c' = Fin w" by (auto elim!: is_finE)
    with IH c' yz that show "Fin z \<le> al_value c'" by (force simp: least_so_far_def)
  qed
  have "y \<le> MaxFloat32" using IH yz by (auto simp: least_so_far_def split: option.splits)
  with IH mr x yz lt show ?case by (auto simp: least_so_far_def split: option.splits)
qed

lemma select_min_correct:
  assumes "\<forall>c\<in>snd ` set cs. is_fin (al_value c)"
  shows "case select_min cs of
      None \<Rightarrow> \<forall>c\<in>snd ` set cs. Fin MaxFloat32 \<le> al_value c
    | Some a \<Rightarrow> a \<in> snd ` set cs \<and> al_value a < Fin MaxFloat32 \<and> (\<forall>c\<in>snd ` set cs. al_value a \<le> al_value c)"
  using least_so_far_foldl [OF assms] unfolding select_min_def least_so_far_def
  by (simp split: prod.splits option.splits)

text \<open>C13: with unlimited accelerators every server gets a best candidate: the chosen allocation is one
  of its candidates and none has a smaller value; a server is left without an allocation only if
  no candidate has a value below the largest float.\<close>

theorem unlimited_optimal:
  assumes "(n, v) \<in> set (servers sys)" and "\<forall>c\<in>snd ` set (sr_allAllocations v). is_fin (al_value c)"
  shows "\<exists>v'. (n, v') \<in> set (servers (SolveUnlimited sys)) \<and> sr_allAllocations v' = sr_allAllocations v \<and>
    (case sr_allocation v' of
       None \<Rightarrow> \<forall>c\<in>snd ` set (sr_allAllocations v). Fin MaxFloat32 \<le> al_value c
     | Some a \<Rightarrow> a \<in> snd ` set (sr_allAllocations v) \<and> al_value a < Fin MaxFloat32 \<and>
         (\<forall>c\<in>snd ` set (sr_allAllocations v). al_value a \<le> al_value c))"
proof -
  let ?v = "RemoveAllocation v"
  let ?v' = "case select_min (sr_allAllocations ?v) of None \<Rightarrow> ?v | Some a \<Rightarrow> SetAllocation ?v a"
  have mem: "(n, ?v') \<in> set (servers (SolveUnlimited sys))"
    using assms(1) by (force simp: SolveUnlimited_def Let_def)
  have al: "sr_allAllocations ?v = sr_allAllocations v" by (simp add: RemoveAllocation_def)
  have "sr_allAllocations ?v' = sr_allAllocations v" "sr_allocation ?v' = select_min (sr_allAllocations v)"
    by (auto simp: al SetAllocation_def UpdateDesiredAlloc_def RemoveAllocation_def split: option.splits)
  with mem select_min_correct [OF assms(2)] show ?thesis by (intro exI [of _ ?v']) simp
qed

theorem unlimited_optimal_witness:
  "\<exists>v'. (''s'', v') \<in> set (servers (SolveUnlimited tight_system)) \<and> sr_allocation v' \<noteq> None"
proof -
  let ?v = "the (GetServer tight_system ''s'')"
  have v: "(''s'', ?v) \<in> set (servers tight_system)"
    and al: "sr_allAllocations ?v = [(''g'', zero_Allocation\<lparr>al_accelerator := ''g'', al_numReplicas := 12,
      al_cost := Fin 60, al_value := Fin 60\<rparr>)]"
    by (simp_all add: tight_system_def put_server_def sample_system_def sample_spec_def set_spec_defs Let_def GetServer_def)
  from unlimited_optimal [OF v] obtain v' where v': "(''s'', v') \<in> set (servers (SolveUnlimited tight_system))"
    "case sr_allocation v' of None \<Rightarrow> \<forall>c\<in>snd ` set (sr_allAllocations ?v). Fin MaxFloat32 \<le> al_value c | Some a \<Rightarrow> True"
    by (fastforce simp: al split: option.splits)
  have "\<not> Fin MaxFloat32 \<le> Fin 60" by (simp add: MaxFloat32_def)
  with v' al have "sr_allocation v' \<noteq> None" by (auto split: option.splits)
  with v'(1) show ?thesis by blast
qed

end
