(* ===== verification/Inferno_Ample.thy ===== *)
theory Inferno_Ample
  imports Inferno_Solver
begin

text \<open>
  The greedy allocation (\<^verbatim>\<open>pkg/solver/greedy.go\<close>) when the capacity is enough for the best candidate of
  every server: it finds what the solver for unlimited accelerators finds, under every policy and
  for every order of the servers. The theorem relates the two solvers of \<open>Inferno_Solver\<close>.
\<close>

section \<open>Enough capacity\<close>

definition first_need :: "System \<Rightarrow> serverEntry \<Rightarrow> (Server \<times> string \<times> int) option" where
  "first_need sys e = candidate_need sys (se_serverName e) (se_current e)"

text \<open>The units of a type that the current candidates of the entries ask for.\<close>

definition demand :: "System \<Rightarrow> string \<Rightarrow> serverEntry list \<Rightarrow> int" where
  "demand sys t es = (\<Sum>e\<leftarrow>es. case first_need sys e of None \<Rightarrow> 0 | Some (_, t', n) \<Rightarrow> if t' = t then n else 0)"

text \<open>Entries of distinct servers, at their first candidate, that together fit.\<close>

definition fits :: "System \<Rightarrow> serverEntry list \<Rightarrow> available \<Rightarrow> bool" where
  "fits sys es av \<longleftrightarrow> distinct (map se_serverName es) \<and>
     (\<forall>e\<in>set es. se_allocations e \<noteq> [] \<and> se_curIndex e = 0 \<and> (\<exists>v t n. first_need sys e = Some (v, t, n) \<and> 0 \<le> n)) \<and>
     (\<forall>t. demand sys t es \<le> mget0 0 av t)"

definition ample :: "System \<Rightarrow> bool" where
  "ample sys \<longleftrightarrow> (case make_entries sys of (s1, es) \<Rightarrow>
     (\<forall>e\<in>set es. \<exists>v t n. first_need s1 e = Some (v, t, n) \<and> 0 \<le> n) \<and>
     (\<forall>t. demand s1 t es \<le> mget0 0 (capacity sys) t))"

lemma demand_simps [simp]:
  "demand sys t [] = 0"
  "demand sys t (e # es) =
     (case first_need sys e of None \<Rightarrow> 0 | Some (_, t', n) \<Rightarrow> if t' = t then n else 0) + demand sys t es"
  by (simp_all add: demand_def)

lemma demand_cong: "(\<And>e. e \<in> set es \<Longrightarrow> first_need sys' e = first_need sys e) \<Longrightarrow> demand sys' t es = demand sys t es"
  by (induction es) auto

lemma demand_nonneg:
  "\<forall>e\<in>set es. \<exists>v t n. first_need sys e = Some (v, t, n) \<and> 0 \<le> n \<Longrightarrow> 0 \<le> demand sys t es"
  by (induction es) auto

lemma demand_perm: "mset es = mset es' \<Longrightarrow> demand sys t es = demand sys t es'"
  by (simp add: demand_def flip: sum_mset_sum_list)

lemma fits_perm: "mset es = mset es' \<Longrightarrow> fits sys es av \<Longrightarrow> fits sys es' av"
proof -
  assume p: "mset es = mset es'"
  have "distinct (map se_serverName es) = distinct (map se_serverName es')"
    by (rule mset_eq_imp_distinct_iff) (simp add: p)
  then show "fits sys es av \<Longrightarrow> fits sys es' av"
    using mset_eq_setD [OF p] demand_perm [OF p] by (simp add: fits_def)
qed

lemma first_need_put_server:
  "se_serverName e \<noteq> n \<Longrightarrow> first_need (put_server sys n v) e = first_need sys e"
  by (simp add: first_need_def candidate_need_def put_server_def GetServer_def GetModel_def GetAccelerator_def
    split: option.split)

section \<open>Every entry gets its first candidate\<close>

text \<open>What the servers of some entries are given.\<close>

definition given :: "serverEntry list \<Rightarrow> System \<Rightarrow> System \<Rightarrow> bool" where
  "given es sys sys' \<longleftrightarrow> (\<forall>n. mget (servers sys') n =
     (case map_of (map (\<lambda>e. (se_serverName e, se_current e)) es) n of
        None \<Rightarrow> mget (servers sys) n
      | Some a \<Rightarrow> map_option (\<lambda>v. SetAllocation v a) (mget (servers sys) n)))"

lemma given_Nil [simp]: "given [] sys sys"
  by (simp add: given_def)

lemma given_append:
  assumes "given es sys sys1" and "given es' sys1 sys2" and "se_serverName ` set es \<inter> se_serverName ` set es' = {}"
  shows "given (es @ es') sys sys2"
proof -
  have "map_of (map (\<lambda>e. (se_serverName e, se_current e)) es') n = None \<or>
      map_of (map (\<lambda>e. (se_serverName e, se_current e)) es) n = None" for n
    using assms(3) by (auto simp: map_of_eq_None_iff image_image)
  note disj = this
  show ?thesis
    unfolding given_def
  proof
    fix n
    show "mget (servers sys2) n = (case map_of (map (\<lambda>e. (se_serverName e, se_current e)) (es @ es')) n of
        None \<Rightarrow> mget (servers sys) n | Some a \<Rightarrow> map_option (\<lambda>v. SetAllocation v a) (mget (servers sys) n))"
      using assms(1,2) [unfolded given_def, rule_format, of n] disj [of n]
      by (auto simp: map_add_def split: option.splits)
  qed
qed

lemma allocate_loop_fits:
  assumes "fits sys (es @ rest) av"
  shows "\<exists>av' sys'. allocate_loop ord un es av sys = Some (un, av', sys') \<and> fits sys' rest av' \<and> given es sys sys'"
  using assms
proof (induction es arbitrary: av sys)
  case Nil
  then show ?case by simp
next
  case (Cons e es)
  let ?n = "se_serverName e"
  obtain v t need where nd: "first_need sys e = Some (v, t, need)" "0 \<le> need" and e: "se_allocations e \<noteq> []" "se_curIndex e = 0"
    using Cons.prems by (auto simp: fits_def)
  have fresh: "?n \<notin> se_serverName ` set (es @ rest)" using Cons.prems by (auto simp: fits_def)
  have later: "\<forall>x\<in>set (es @ rest). \<exists>v t n. first_need sys x = Some (v, t, n) \<and> 0 \<le> n" using Cons.prems by (simp add: fits_def)
  have all: "demand sys t' ((e # es) @ rest) \<le> mget0 0 av t'" for t' using Cons.prems by (simp only: fits_def)
  have dem: "need + demand sys t (es @ rest) \<le> mget0 0 av t" using all [of t] nd(1) by simp
  have v: "GetServer sys ?n = Some v"
    using nd(1) by (auto simp: first_need_def candidate_need_def Let_def split: option.splits)
  let ?sys = "put_server sys ?n (SetAllocation v (se_current e))" and ?av = "mput t (mget0 0 av t - need) av"
  have same: "first_need ?sys x = first_need sys x" if "x \<in> set (es @ rest)" for x
    by (rule first_need_put_server) (use fresh imageI [OF that, of se_serverName] in metis)
  have "demand ?sys t' (es @ rest) \<le> mget0 0 ?av t'" for t'
  proof -
    have "demand ?sys t' (es @ rest) = demand sys t' (es @ rest)" by (rule demand_cong) (rule same)
    with all [of t'] nd(1) dem show ?thesis by (auto simp: mget0_def split: if_splits)
  qed
  then have "fits ?sys (es @ rest) ?av"
    using Cons.prems same by (simp add: fits_def)
  from Cons.IH [OF this] obtain av' sys' where r: "allocate_loop ord un es ?av ?sys = Some (un, av', sys')"
      "fits sys' rest av'" "given es ?sys sys'" by blast
  have "need \<le> mget0 0 av t" using dem demand_nonneg [OF later, of t] by linarith
  then have "allocate_loop ord un (e # es) av sys = Some (un, av', sys')"
    using e nd(1) r(1) by (simp add: first_need_def)
  moreover have "given [e] sys ?sys" using v by (simp add: given_def put_server_def GetServer_def)
  then have "given (e # es) sys sys'" using given_append [of "[e]" sys ?sys es sys'] r(3) fresh by auto
  ultimately show ?case using r(2) by blast
qed

lemma bestEffort_Nil [simp]: "bestEffort p [] av sys = Some (av, sys)"
proof -
  have "allocateEqually [] av sys = Some (av, sys)"
    by (simp add: allocateEqually_def make_tickets_def grant_tickets_def round_robin.simps)
  then show ?thesis
    by (cases "SaturatedAllocationPolicyEnum p") (simp_all add: bestEffort_def allocateMaximally_def)
qed

lemma solve_group_fits:
  assumes "fits sys (es @ rest) av"
  shows "\<exists>av' sys'. solve_group p (av, sys) es = Some (av', sys') \<and> fits sys' rest av' \<and> given es sys sys'"
  using allocate_loop_fits [OF assms, of orderFunc "[]"] by (auto simp: solve_group_def allocate_def)

lemma solve_groups_fits:
  assumes "fits sys (concat gs) av"
  shows "\<exists>av' sys'. ofoldl (solve_group p) (av, sys) gs = Some (av', sys') \<and> given (concat gs) sys sys'"
  using assms
proof (induction gs arbitrary: av sys)
  case Nil
  then show ?case by simp
next
  case (Cons g gs)
  obtain av1 s1 where g: "solve_group p (av, sys) g = Some (av1, s1)" "fits s1 (concat gs) av1" "given g sys s1"
    using solve_group_fits [of sys g "concat gs" av p] Cons.prems by auto
  obtain av2 s2 where r: "ofoldl (solve_group p) (av1, s1) gs = Some (av2, s2)" "given (concat gs) s1 s2"
    using Cons.IH [OF g(2)] by blast
  have "se_serverName ` set g \<inter> se_serverName ` set (concat gs) = {}"
    using Cons.prems unfolding fits_def by (auto simp: image_iff)
  from given_append [OF g(3) r(2) this] show ?case using g(1) r(1) by simp
qed

section \<open>The two solvers agree\<close>

definition chosen :: "System \<Rightarrow> string \<Rightarrow> Allocation option" where
  "chosen sys n = Option.bind (mget (servers sys) n) sr_allocation"

definition finite_values :: "System \<Rightarrow> bool" where
  "finite_values sys \<longleftrightarrow> (\<forall>v\<in>snd ` set (servers sys). \<forall>c\<in>snd ` set (sr_allAllocations v).
     is_fin (al_value c) \<and> al_value c < Fin MaxFloat32)"

lemma SetAllocation_allocation [simp]: "sr_allocation (SetAllocation v a) = Some a"
  by (simp add: SetAllocation_def UpdateDesiredAlloc_def split: option.split)

lemma sorted_by_value: "comparator (\<lambda>a b. cmp_float (al_value (snd a)) (al_value (snd b)))"
  by unfold_locales (use cf.cmp_anti cf.cmp_trans in blast)+

text \<open>The first candidate of an entry has the least value.\<close>

lemma first_candidate_least:
  assumes "sr_allAllocations v \<noteq> []" and "\<forall>c\<in>snd ` set (sr_allAllocations v). is_fin (al_value c)"
  shows "se_current (make_entry sys n v) \<in> snd ` set (sr_allAllocations v) \<and>
    (\<forall>c\<in>snd ` set (sr_allAllocations v). al_value (se_current (make_entry sys n v)) \<le> al_value c)"
proof -
  let ?cmp = "\<lambda>a b. cmp_float (al_value (snd a)) (al_value (snd b))"
  define xs where "xs = sort_func ?cmp (sr_allAllocations v)"
  have set: "set xs = set (sr_allAllocations v)" by (simp add: xs_def)
  then obtain x ys where x: "xs = x # ys" using assms(1) by (cases xs) auto
  have srt: "sorted_wrt (\<lambda>a b. ?cmp a b \<le> 0) xs" unfolding xs_def by (rule comparator.sorted_sort_func [OF sorted_by_value])
  have c: "se_current (make_entry sys n v) = snd x"
    using x by (simp add: se_current_def make_entry_def Let_def flip: xs_def)
  have "al_value (snd x) \<le> al_value (snd y)" if "y \<in> set xs" for y
  proof -
    have "?cmp x y \<le> 0" using srt that x cf.cmp_refl by auto
    moreover have "is_fin (al_value (snd x))" "is_fin (al_value (snd y))" using assms(2) set that x by auto
    ultimately show ?thesis by (auto simp: cmp_float_cases elim!: is_finE)
  qed
  moreover have "x \<in> set (sr_allAllocations v)" using set x by auto
  ultimately show ?thesis using set by (auto simp: c)
qed

lemma value_not_le: "is_fin x \<Longrightarrow> x < Fin r \<Longrightarrow> \<not> Fin r \<le> x"
  and value_antisym: "is_fin x \<Longrightarrow> is_fin y \<Longrightarrow> x \<le> y \<Longrightarrow> y \<le> x \<Longrightarrow> x = y"
  by (auto elim!: is_finE)

text \<open>The unlimited solver, in terms of the chosen allocation.\<close>

lemma chosen_unlimited: "chosen (SolveUnlimited sys) n = Option.bind (mget (servers sys) n) (\<lambda>v. select_min (sr_allAllocations v))"
proof -
  have "mget (servers (SolveUnlimited sys)) n = map_option (\<lambda>v. let v = RemoveAllocation v
      in case select_min (sr_allAllocations v) of None \<Rightarrow> v | Some a \<Rightarrow> SetAllocation v a) (mget (servers sys) n)"
    by (simp add: SolveUnlimited_def map_of_map Let_def)
  then show ?thesis
    by (cases "mget (servers sys) n") (auto simp: chosen_def RemoveAllocation_def Let_def split: option.split)
qed

text \<open>The greedy solver.\<close>

lemma chosen_greedy:
  assumes "wf_map (servers sys)" and "ample sys"
  shows "\<exists>sys'. SolveGreedy spec sys = Some sys' \<and> (\<forall>n. chosen sys' n = (case mget (servers sys) n of
      None \<Rightarrow> None
    | Some v \<Rightarrow> if sr_allAllocations v = [] then None else Some (se_current (make_entry sys n (RemoveAllocation v)))))"
proof -
  obtain s1 es where me: "make_entries sys = (s1, es)" by fastforce
  let ?es = "sort_func orderFunc es"
  have e: "s1 = sys\<lparr>servers := map (\<lambda>(n, v). (n, RemoveAllocation v)) (servers sys)\<rparr>"
    "es = map (\<lambda>(n, v). make_entry sys n (RemoveAllocation v)) (filter (\<lambda>(n, v). sr_allAllocations v \<noteq> []) (servers sys))"
    using me by (auto simp: make_entries_def)
  have al: "se_allocations x \<noteq> [] \<and> se_curIndex x = 0" if "x \<in> set es" for x
  proof -
    obtain n v where "x = make_entry sys n (RemoveAllocation v)" "sr_allAllocations v \<noteq> []" using \<open>x \<in> set es\<close> by (auto simp: e(2))
    moreover from this(2) have "sort_func c (sr_allAllocations v) \<noteq> []" for c by (metis length_0_conv length_sort_func)
    ultimately show ?thesis by (simp add: make_entry_def Let_def RemoveAllocation_def)
  qed
  have dist: "distinct (map se_serverName es)" using entries_fresh [OF assms(1) me] by (simp add: fresh_def)
  have "fits s1 es (capacity sys)" using assms(2) al dist me by (simp add: ample_def fits_def)
  then have f: "fits s1 ?es (capacity sys)" using fits_perm [of es ?es] by simp
  have "\<exists>av' sys'. (if os_DelayedBestEffort spec then solve_group (os_SaturationPolicy spec) (capacity sys, s1) ?es
      else ofoldl (solve_group (os_SaturationPolicy spec)) (capacity sys, s1) (makePriorityGroups ?es)) = Some (av', sys') \<and>
    given ?es s1 sys'"
    using solve_group_fits [of s1 ?es "[]" "capacity sys"] solve_groups_fits [of s1 "makePriorityGroups ?es" "capacity sys"] f
    by (cases "os_DelayedBestEffort spec") fastforce+
  then obtain sys' where s: "SolveGreedy spec sys = Some sys'" "given ?es s1 sys'"
    by (auto simp: SolveGreedy_def me Let_def)
  have look: "mget (servers s1) n = map_option RemoveAllocation (mget (servers sys) n)" for n by (simp add: e(1) map_of_map)
  have ent: "map_of (map (\<lambda>x. (se_serverName x, se_current x)) ?es) n =
      (if sr_allAllocations v = [] then None else Some (se_current (make_entry sys n (RemoveAllocation v))))"
    if v: "mget (servers sys) n = Some v" for n v
  proof (cases "sr_allAllocations v = []")
    case True
    have "se_serverName x \<noteq> n" if x: "x \<in> set es" for x
    proof
      assume "se_serverName x = n"
      then obtain u where "(n, u) \<in> set (servers sys)" "sr_allAllocations u \<noteq> []"
        using x by (auto simp: e(2) make_entry_def Let_def)
      then have "mget (servers sys) n = Some u" using assms(1) by (simp add: wf_map_mget)
      with v True \<open>sr_allAllocations u \<noteq> []\<close> show False by simp
    qed
    then have "n \<notin> se_serverName ` set es" by blast
    then show ?thesis using True by (simp add: map_of_eq_None_iff image_image)
  next
    case False
    let ?x = "make_entry sys n (RemoveAllocation v)"
    have "?x \<in> set ?es" using False map_of_SomeD [OF v] by (force simp: e(2))
    moreover have "distinct (map se_serverName ?es)" using f by (simp add: fits_def)
    moreover have "se_serverName ?x = n" by (simp add: make_entry_def Let_def)
    ultimately have "map_of (map (\<lambda>x. (se_serverName x, se_current x)) ?es) n = Some (se_current ?x)"
      by (intro map_of_is_SomeI) (force simp: comp_def)+
    then show ?thesis using False by simp
  qed
  have "chosen sys' n = (case mget (servers sys) n of None \<Rightarrow> None
      | Some v \<Rightarrow> if sr_allAllocations v = [] then None else Some (se_current (make_entry sys n (RemoveAllocation v))))" for n
    using s(2) ent [of n] look [of n]
    by (cases "mget (servers sys) n") (simp_all add: given_def chosen_def RemoveAllocation_def split: option.split)
  with s(1) show ?thesis by blast
qed

text \<open>C14: With enough capacity the limited and the unlimited solver find equally good allocations. If the
  units of every accelerator type suffice for the best candidate of every server, the greedy solver
  returns, under every saturation policy and with or without delayed best effort, and every server
  gets a candidate of the same value as with unlimited accelerators, or no allocation if and only if
  it has none there: the order of the servers, the priority groups and the best-effort phase make
  no difference.\<close>

theorem greedy_ample_equals_unlimited:
  assumes "wf_map (servers sys)" and "ample sys" and "finite_values sys"
  shows "\<exists>sys'. SolveGreedy spec sys = Some sys' \<and>
    (\<forall>n. map_option al_value (chosen sys' n) = map_option al_value (chosen (SolveUnlimited sys) n) \<and>
      (case chosen sys' n of None \<Rightarrow> True | Some a \<Rightarrow> \<exists>v. mget (servers sys) n = Some v \<and> a \<in> snd ` set (sr_allAllocations v)))"
proof -
  obtain sys' where s: "SolveGreedy spec sys = Some sys'" and g: "\<And>n. chosen sys' n = (case mget (servers sys) n of
      None \<Rightarrow> None
    | Some v \<Rightarrow> if sr_allAllocations v = [] then None else Some (se_current (make_entry sys n (RemoveAllocation v))))"
    using chosen_greedy [OF assms(1,2), of spec] by blast
  have "map_option al_value (chosen sys' n) = map_option al_value (chosen (SolveUnlimited sys) n) \<and>
      (case chosen sys' n of None \<Rightarrow> True | Some a \<Rightarrow> \<exists>v. mget (servers sys) n = Some v \<and> a \<in> snd ` set (sr_allAllocations v))" for n
  proof (cases "mget (servers sys) n")
    case None
    then show ?thesis by (simp add: g chosen_unlimited)
  next
    case (Some v)
    have fin: "\<forall>c\<in>snd ` set (sr_allAllocations v). is_fin (al_value c) \<and> al_value c < Fin MaxFloat32"
      using assms(3) map_of_SomeD [OF Some] by (force simp: finite_values_def)
    show ?thesis
    proof (cases "sr_allAllocations v = []")
      case True
      with Some show ?thesis by (simp add: g chosen_unlimited select_min_def)
    next
      case False
      let ?a = "se_current (make_entry sys n (RemoveAllocation v))"
      have a: "?a \<in> snd ` set (sr_allAllocations v)" "\<forall>c\<in>snd ` set (sr_allAllocations v). al_value ?a \<le> al_value c"
        using first_candidate_least [of "RemoveAllocation v" sys n] False fin by (simp_all add: RemoveAllocation_def)
      obtain b where b: "select_min (sr_allAllocations v) = Some b" "b \<in> snd ` set (sr_allAllocations v)"
          "\<forall>c\<in>snd ` set (sr_allAllocations v). al_value b \<le> al_value c"
        using select_min_correct [of "sr_allAllocations v"] fin a(1) value_not_le by (auto split: option.splits)
      have "al_value ?a = al_value b" using a b fin value_antisym by blast
      with Some False a(1) b(1) show ?thesis by (simp add: g chosen_unlimited)
    qed
  qed
  with s show ?thesis by blast
qed

text \<open>A server with two candidates of one type, of which the cheaper one comes second in the map, and
  enough units for it.\<close>

definition roomy_system :: System where
  "roomy_system =
     (let s = sample_system; v = the (GetServer s ''s'');
          a = zero_Allocation\<lparr>al_accelerator := ''g'', al_numReplicas := 12, al_cost := Fin 60, al_value := Fin 60\<rparr>;
          b = a\<lparr>al_numReplicas := 2, al_cost := Fin 10, al_value := Fin 10\<rparr>
      in put_server s ''s'' (v\<lparr>sr_allAllocations := [(''h'', a), (''g'', b)]\<rparr>))"

theorem greedy_ample_equals_unlimited_witness:
  "\<exists>sys'. SolveGreedy \<lparr>os_Unlimited = False, os_DelayedBestEffort = False, os_SaturationPolicy = ''RoundRobin''\<rparr> roomy_system = Some sys' \<and>
    map_option al_value (chosen sys' ''s'') = Some (Fin 10)"
proof -
  note defs = roomy_system_def put_server_def sample_system_def sample_spec_def set_spec_defs Let_def GetServer_def
  let ?c = "\<lambda>k n c. (k, zero_Allocation\<lparr>al_accelerator := ''g'', al_numReplicas := n, al_cost := Fin c, al_value := Fin c\<rparr>)"
  obtain v where sv: "servers roomy_system = [(''s'', v)]" "sr_allAllocations v = [?c ''h'' 12 60, ?c ''g'' 2 10]"
    by (simp add: defs)
  have m: "Fin 60 < Fin MaxFloat32" "Fin 10 < Fin MaxFloat32" by (simp_all add: MaxFloat32_def)
  have "ample roomy_system"
    by (simp add: ample_def make_entries_def make_entry_def demand_def first_need_def candidate_need_def se_current_def sort_func_def
      cmp_float_def RemoveAllocation_def GetModel_def GetAccelerator_def NumInstances_def mget0_def zero_Allocation_def sample_perf_def defs)
  moreover have "wf_map (servers roomy_system)" "finite_values roomy_system"
    using m by (simp_all add: sv wf_map_def finite_values_def)
  ultimately obtain sys' where s: "SolveGreedy \<lparr>os_Unlimited = False, os_DelayedBestEffort = False, os_SaturationPolicy = ''RoundRobin''\<rparr> roomy_system = Some sys'"
    "map_option al_value (chosen sys' ''s'') = map_option al_value (chosen (SolveUnlimited roomy_system) ''s'')"
    using greedy_ample_equals_unlimited by blast
  have "map_option al_value (chosen (SolveUnlimited roomy_system) ''s'') = Some (Fin 10)"
    using m by (simp add: chosen_unlimited sv select_min_def)
  with s show ?thesis by auto
qed

end
