(* ===== verification/Inferno_Priority.thy ===== *)
theory Inferno_Priority
  imports Inferno_Ample
begin

text \<open>
  Priorities in the greedy allocation (\<^verbatim>\<open>pkg/solver/greedy.go\<close>) when best effort is not delayed: each
  priority group is allocated and given its best effort before the next group is looked at. The
  theorem compares the solution with the one that leaves out all servers below some priority.
\<close>

section \<open>Solving down to a priority\<close>

text \<open>The greedy solution with the entries of the servers up to a priority value; smaller values are served first.\<close>

definition SolveGreedy_upto :: "int \<Rightarrow> OptimizerSpec \<Rightarrow> System \<Rightarrow> System option" where
  "SolveGreedy_upto p spec sys =
     (let available = capacity sys;
          (sys, entries) = make_entries sys;
          entries = filter (\<lambda>e. se_priority e \<le> p) (sort_func orderFunc entries)
      in map_option snd (ofoldl (solve_group (os_SaturationPolicy spec)) (available, sys) (makePriorityGroups entries)))"

lemma entries_sorted: "sorted_wrt (\<lambda>a b. se_priority a \<le> se_priority b) (sort_func orderFunc es)"
  by (rule sorted_wrt_mono_rel [OF _ entries.sorted_sort_func]) (auto simp: orderFunc_cases)

lemma filter_sorted_split:
  "sorted_wrt (\<lambda>a b. se_priority a \<le> se_priority b) es \<Longrightarrow>
    es = filter (\<lambda>e. se_priority e \<le> p) es @ filter (\<lambda>e. \<not> se_priority e \<le> p) es"
proof (induction es)
  case (Cons e es)
  show ?case
  proof (cases "se_priority e \<le> p")
    case True
    with Cons show ?thesis by simp
  next
    case False
    with Cons.prems have "filter (\<lambda>e. se_priority e \<le> p) es = []" by (fastforce simp: filter_empty_conv)
    with Cons False show ?thesis by simp
  qed
qed simp

text \<open>Entries of different priorities are in different groups.\<close>

lemma makePriorityGroups_append:
  "\<forall>a\<in>set hi. \<forall>b\<in>set lo. se_priority a \<noteq> se_priority b \<Longrightarrow>
    makePriorityGroups (hi @ lo) = makePriorityGroups hi @ makePriorityGroups lo"
proof (induction hi rule: makePriorityGroups.induct)
  case (2 e es)
  let ?P = "\<lambda>x. se_priority x = se_priority e"
  have lo: "takeWhile ?P lo = []" "dropWhile ?P lo = lo" using "2.prems" by (cases lo; auto)+
  have "takeWhile ?P (es @ lo) = takeWhile ?P es" "dropWhile ?P (es @ lo) = dropWhile ?P es @ lo"
    by (induction es) (simp_all add: lo)
  moreover have "\<forall>a\<in>set (dropWhile ?P es). \<forall>b\<in>set lo. se_priority a \<noteq> se_priority b"
    using "2.prems" by (meson list.set_intros(2) set_dropWhileD)
  from "2.IH" [OF this] have "makePriorityGroups (dropWhile ?P es @ lo) = makePriorityGroups (dropWhile ?P es) @ makePriorityGroups lo" .
  ultimately show ?case by simp
qed simp

section \<open>Lower priorities make no difference\<close>

text \<open>C15: When best effort is not delayed, servers are not affected by servers of lower priority. The
  greedy solver returns, and a server gets the same allocation, best-effort shares included, as when
  the candidates of all servers of lower priority are left out, under every saturation policy: what
  the lower priorities ask for, and how many there are, makes no difference.\<close>

theorem priority_isolation:
  assumes "wf_map (servers sys)" and "wf_map (capacity sys)" and "\<forall>t. 0 \<le> mget0 0 (capacity sys) t"
    and "\<not> os_DelayedBestEffort spec"
  shows "\<exists>sys' high. SolveGreedy spec sys = Some sys' \<and> SolveGreedy_upto p spec sys = Some high \<and>
    (\<forall>n v. mget (servers sys) n = Some v \<longrightarrow> Server_Priority sys v \<le> p \<longrightarrow> chosen sys' n = chosen high n)"
proof -
  let ?cap = "mget0 0 (capacity sys)" and ?solve = "solve_group (os_SaturationPolicy spec)"
  obtain s1 es where me: "make_entries sys = (s1, es)" by fastforce
  define hi lo where "hi = filter (\<lambda>e. se_priority e \<le> p) (sort_func orderFunc es)"
    and "lo = filter (\<lambda>e. \<not> se_priority e \<le> p) (sort_func orderFunc es)"
  have split: "sort_func orderFunc es = hi @ lo"
    unfolding hi_def lo_def by (rule filter_sorted_split [OF entries_sorted])
  have "se_priority a \<noteq> se_priority b" if "a \<in> set hi" "b \<in> set lo" for a b using that by (auto simp: hi_def lo_def)
  then have groups: "makePriorityGroups (hi @ lo) = makePriorityGroups hi @ makePriorityGroups lo"
    using makePriorityGroups_append by blast
  note f = entries_fresh [OF assms(1) me]
  have acc: "account ?cap (capacity sys) s1" using f assms(1-3) by (auto simp: account_def)
  have fr: "fresh s1 (hi @ lo)" using f fresh_perm [of es "hi @ lo" s1] by (simp flip: split)
  have "index_ok (hi @ lo)" using f by (simp add: index_ok_def flip: split)
  then have ix: "\<forall>g\<in>set (makePriorityGroups hi). index_ok g" "\<forall>g\<in>set (makePriorityGroups lo). index_ok g"
    using makePriorityGroups_subset by (fastforce simp: index_ok_def)+
  obtain av2 s2 where h: "ofoldl ?solve (capacity sys, s1) (makePriorityGroups hi) = Some (av2, s2)" "account ?cap av2 s2"
      "frame (se_serverName ` set hi) s1 s2"
    using grp.groups_ok [OF acc _ ix(1), of "os_SaturationPolicy spec"] fr by (auto simp: fresh_append case_prod_unfold)
  have "fresh s2 lo" using fresh_frame [OF _ h(3), of lo] fr by (simp add: fresh_append)
  then obtain av3 s3 where l: "ofoldl ?solve (av2, s2) (makePriorityGroups lo) = Some (av3, s3)"
      "frame (se_serverName ` set lo) s2 s3"
    using grp.groups_ok [OF h(2) _ ix(2), of "os_SaturationPolicy spec"] by (auto simp: case_prod_unfold)
  have "SolveGreedy spec sys = Some s3" using assms(4) h(1) l(1) by (simp add: SolveGreedy_def me Let_def split groups)
  moreover have "SolveGreedy_upto p spec sys = Some s2" using h(1) by (simp add: SolveGreedy_upto_def me Let_def hi_def)
  moreover have "chosen s3 n = chosen s2 n" if v: "mget (servers sys) n = Some v" "Server_Priority sys v \<le> p" for n v
  proof -
    have "n \<notin> se_serverName ` set lo"
    proof
      assume "n \<in> se_serverName ` set lo"
      then obtain x where x: "x \<in> set es" "\<not> se_priority x \<le> p" "se_serverName x = n" by (auto simp: lo_def)
      then obtain u where u: "(n, u) \<in> set (servers sys)" "x = make_entry sys n (RemoveAllocation u)"
        using me by (auto simp: make_entries_def make_entry_def Let_def)
      then have "u = v" using v(1) assms(1) by (metis option.inject wf_map_mget)
      with u(2) x(2) v(2) show False by (simp add: make_entry_def Let_def Server_Priority_def RemoveAllocation_def)
    qed
    with l(2) show ?thesis by (simp add: frame_def chosen_def GetServer_def)
  qed
  ultimately show ?thesis by blast
qed

text \<open>A server of the highest priority whose candidate does not fit, and one without a service class, hence of the
  lowest priority, that would take the units.\<close>

definition contended_system :: System where
  "contended_system =
     (let v = the (GetServer tight_system ''s'');
          a = zero_Allocation\<lparr>al_accelerator := ''g'', al_numReplicas := 8, al_cost := Fin 40, al_value := Fin 40\<rparr>
      in put_server tight_system ''t'' (v\<lparr>sr_name := ''t'', sr_serviceClassName := ''none'', sr_allAllocations := [(''g'', a)]\<rparr>))"

theorem priority_isolation_witness:
  "\<exists>sys' high. SolveGreedy \<lparr>os_Unlimited = False, os_DelayedBestEffort = False, os_SaturationPolicy = ''PriorityExhaustive''\<rparr>
      contended_system = Some sys' \<and>
    SolveGreedy_upto 1 \<lparr>os_Unlimited = False, os_DelayedBestEffort = False, os_SaturationPolicy = ''PriorityExhaustive''\<rparr>
      contended_system = Some high \<and> chosen sys' ''s'' = chosen high ''s''"
proof -
  note defs = contended_system_def tight_system_def put_server_def sample_system_def sample_spec_def set_spec_defs Let_def GetServer_def
  let ?spec = "\<lparr>os_Unlimited = False, os_DelayedBestEffort = False, os_SaturationPolicy = ''PriorityExhaustive''\<rparr>"
  have wf: "wf_map (servers contended_system)" "wf_map (capacity contended_system)"
    "\<forall>t. 0 \<le> mget0 0 (capacity contended_system) t"
    by (simp_all add: defs wf_map_def mget0_def)
  obtain v where v: "mget (servers contended_system) ''s'' = Some v" "Server_Priority contended_system v \<le> 1"
    by (simp add: defs Server_Priority_def GetServiceClass_def DefaultHighPriority_def DefaultLowPriority_def)
  have "\<not> os_DelayedBestEffort ?spec" by simp
  from priority_isolation [OF wf this, of 1] v show ?thesis by blast
qed

end
