(* ===== verification/Go_Strconv.thy ===== *)
theory Go_Strconv
  imports Go_Prelude "HOL-Library.Word"
begin

text \<open>
  Conversions of the Go language and of \<^verbatim>\<open>strconv\<close> that the controller uses:
  \<^item> \<open>FormatFloat2\<close> is \<^verbatim>\<open>strconv.FormatFloat(x, 'f', 2, 64)\<close>: two decimals, rounded half to even;
  \<^item> \<open>ParseFloat\<close> is \<^verbatim>\<open>strconv.ParseFloat\<close> on decimal texts (a sign, digits with at most one
    point, an exponent) and on the names of the infinities and NaN, with the bit size given as the
    largest finite value; \<open>None\<close> is a syntax or range error. Hexadecimal texts and digit separators
    are not read;
  \<^item> \<open>int_of_float\<close> and \<open>int32\<close> are the conversions \<^verbatim>\<open>int(x)\<close> of a float and \<^verbatim>\<open>int32(i)\<close> of an
    integer, which wraps around.
  The main fact is the round trip: a text written by \<open>FormatFloat2\<close> is read back as the value rounded
  to two decimals.
\<close>

section \<open>Integers\<close>

definition int32 :: "int \<Rightarrow> int" where
  "int32 i = sint (word_of_int i :: 32 word)"

lemma int32_small [simp]: "- (2 ^ 31) \<le> i \<Longrightarrow> i < 2 ^ 31 \<Longrightarrow> int32 i = i"
  by (simp add: int32_def signed_of_int signed_take_bit_int_eq_self)

lemma int32_range: "- (2 ^ 31) \<le> int32 i \<and> int32 i < 2 ^ 31"
  using sint_ge [of "word_of_int i :: 32 word"] sint_lt [of "word_of_int i :: 32 word"]
  by (simp add: int32_def)

text \<open>Truncation towards zero. Go leaves the conversion of NaN and of values out of range open; on
  amd64 it gives the least \<^verbatim>\<open>int64\<close>.\<close>

definition int_of_float :: "gofloat \<Rightarrow> int" where
  "int_of_float x =
     (case x of
        Fin r \<Rightarrow> let i = (if 0 \<le> r then \<lfloor>r\<rfloor> else \<lceil>r\<rceil>) in if - (2 ^ 63) \<le> i \<and> i < 2 ^ 63 then i else - (2 ^ 63)
      | _ \<Rightarrow> - (2 ^ 63))"

section \<open>Decimal digits\<close>

definition digit_char :: "nat \<Rightarrow> char" where
  "digit_char d = char_of (48 + d)"

definition is_digit :: "char \<Rightarrow> bool" where
  "is_digit c \<longleftrightarrow> 48 \<le> (of_char c :: nat) \<and> of_char c \<le> (57 :: nat)"

definition digit_val :: "char \<Rightarrow> nat" where
  "digit_val c = of_char c - 48"

fun nat_digits :: "nat \<Rightarrow> string" where
  "nat_digits n = (if n < 10 then [digit_char n] else nat_digits (n div 10) @ [digit_char (n mod 10)])"

declare nat_digits.simps [simp del]

definition digits_val :: "string \<Rightarrow> nat" where
  "digits_val s = foldl (\<lambda>n c. 10 * n + digit_val c) 0 s"

lemma digit_char_val [simp]: "d < 10 \<Longrightarrow> digit_val (digit_char d) = d"
  by (simp add: digit_char_def digit_val_def)

lemma digit_char_is_digit [simp]: "d < 10 \<Longrightarrow> is_digit (digit_char d)"
  by (simp add: digit_char_def is_digit_def)

lemma digits_val_snoc [simp]: "digits_val (s @ [c]) = 10 * digits_val s + digit_val c"
  by (simp add: digits_val_def)

lemma digits_val_Nil [simp]: "digits_val [] = 0"
  by (simp add: digits_val_def)

lemma nat_digits_val [simp]: "digits_val (nat_digits n) = n"
proof (induction n rule: nat_digits.induct)
  case (1 n)
  then show ?case
    using digits_val_snoc [of "[]" "digit_char n"]
    by (subst nat_digits.simps) (simp del: digits_val_snoc add: digits_val_snoc [of "nat_digits (n div 10)"])
qed

lemma nat_digits_digits: "c \<in> set (nat_digits n) \<Longrightarrow> is_digit c"
proof (induction n rule: nat_digits.induct)
  case (1 n)
  then show ?case by (subst (asm) (2) nat_digits.simps) (auto split: if_splits)
qed

lemma nat_digits_ne [simp]: "nat_digits n \<noteq> []"
  by (subst nat_digits.simps) simp

section \<open>Formatting\<close>

definition round_half_even :: "real \<Rightarrow> int" where
  "round_half_even x =
     (let f = \<lfloor>x\<rfloor>; d = x - real_of_int f
      in if d < 1 / 2 then f else if d > 1 / 2 then f + 1 else if even f then f else f + 1)"

definition fixed2 :: "nat \<Rightarrow> string" where
  "fixed2 n = nat_digits (n div 100) @ ''.'' @ [digit_char (n div 10 mod 10), digit_char (n mod 10)]"

definition FormatFloat2 :: "gofloat \<Rightarrow> string" where
  "FormatFloat2 x =
     (case x of
        Fin r \<Rightarrow> (if r < 0 then ''-'' else '''') @ fixed2 (nat (round_half_even (100 * \<bar>r\<bar>)))
      | PInf \<Rightarrow> ''+Inf'' | NInf \<Rightarrow> ''-Inf'' | NaN \<Rightarrow> ''NaN'')"

text \<open>The value that the text denotes.\<close>

definition round2 :: "real \<Rightarrow> real" where
  "round2 r = sgn r * real_of_int (round_half_even (100 * \<bar>r\<bar>)) / 100"

section \<open>Parsing\<close>

definition lower :: "char \<Rightarrow> char" where
  "lower c = (if 65 \<le> (of_char c :: nat) \<and> of_char c \<le> (90 :: nat) then char_of ((of_char c :: nat) + 32) else c)"

text \<open>An optional sign, then the rest.\<close>

definition parse_sign :: "string \<Rightarrow> bool \<times> string" where
  "parse_sign s = (case s of [] \<Rightarrow> (False, [])
     | c # r \<Rightarrow> if c = CHR ''-'' then (True, r) else if c = CHR ''+'' then (False, r) else (False, s))"

definition parse_exponent :: "string \<Rightarrow> int option" where
  "parse_exponent s = (case s of [] \<Rightarrow> Some 0
     | c # r \<Rightarrow> if lower c = CHR ''e'' then
         let (neg, ds) = parse_sign r
         in if ds \<noteq> [] \<and> list_all is_digit ds
            then Some (if neg then - int (digits_val ds) else int (digits_val ds)) else None
       else None)"

definition pow10 :: "int \<Rightarrow> real" where
  "pow10 e = (if 0 \<le> e then 10 ^ nat e else 1 / 10 ^ nat (- e))"

definition parse_decimal :: "string \<Rightarrow> real option" where
  "parse_decimal s =
     (let ip = takeWhile is_digit s; r1 = dropWhile is_digit s;
          (fp, r2) = (case r1 of [] \<Rightarrow> ([], [])
             | c # r \<Rightarrow> if c = CHR ''.'' then (takeWhile is_digit r, dropWhile is_digit r) else ([], r1))
      in if ip = [] \<and> fp = [] then None
         else case parse_exponent r2 of None \<Rightarrow> None
           | Some e \<Rightarrow> Some (real (digits_val (ip @ fp)) * pow10 (e - int (length fp))))"

definition ParseFloat :: "real \<Rightarrow> string \<Rightarrow> gofloat option" where
  "ParseFloat maxFloat s =
     (let (neg, r) = parse_sign s
      in if map lower r = ''inf'' \<or> map lower r = ''infinity'' then Some (if neg then NInf else PInf)
         else if map lower s = ''nan'' then Some NaN
         else case parse_decimal r of None \<Rightarrow> None
           | Some x \<Rightarrow> if x > maxFloat then None else Some (Fin (if neg then - x else x)))"

section \<open>Round trip\<close>

lemma round_half_even_bound: "\<bar>real_of_int (round_half_even x) - x\<bar> \<le> 1 / 2"
proof -
  have f: "real_of_int \<lfloor>x\<rfloor> \<le> x" "x < real_of_int \<lfloor>x\<rfloor> + 1" by linarith+
  then show ?thesis by (auto simp: round_half_even_def Let_def)
qed

lemma round_half_even_nonneg: "0 \<le> x \<Longrightarrow> 0 \<le> round_half_even x"
  by (auto simp: round_half_even_def Let_def intro: le_floor_iff [THEN iffD2])

lemma round2_close: "\<bar>round2 r - r\<bar> \<le> 1 / 200"
proof -
  define n where "n = real_of_int (round_half_even (100 * \<bar>r\<bar>))"
  have b: "\<bar>n - 100 * \<bar>r\<bar>\<bar> \<le> 1 / 2" unfolding n_def by (rule round_half_even_bound)
  have r: "round2 r = sgn r * n / 100" by (simp add: round2_def n_def)
  consider "r = 0" | "0 < r" | "r < 0" by linarith
  then show ?thesis
  proof cases
    case 2
    then have "round2 r = n / 100" "\<bar>r\<bar> = r" using r by simp_all
    then show ?thesis using b by linarith
  next
    case 3
    then have "round2 r = - n / 100" "\<bar>r\<bar> = - r" using r by simp_all
    then show ?thesis using b by linarith
  qed (simp add: round2_def)
qed

lemma takeWhile_digits: "(\<And>c. c \<in> set xs \<Longrightarrow> is_digit c) \<Longrightarrow> \<not> is_digit d \<Longrightarrow>
    takeWhile is_digit (xs @ d # ys) = xs \<and> dropWhile is_digit (xs @ d # ys) = d # ys"
  by (induction xs) simp_all

lemma point_not_digit [simp]: "\<not> is_digit CHR ''.''"
  by (simp add: is_digit_def)

lemma digits_val_append2:
  "a < 10 \<Longrightarrow> b < 10 \<Longrightarrow> digits_val (s @ [digit_char a, digit_char b]) = 100 * digits_val s + 10 * a + b"
  using digits_val_snoc [of "s @ [digit_char a]" "digit_char b"] digits_val_snoc [of s "digit_char a"] by simp

lemma div_mod_100: "100 * (n div 100) + 10 * (n div 10 mod 10) + n mod 10 = (n :: nat)"
proof -
  have "n div 100 = n div 10 div 10" using div_mult2_eq [of n 10 10] by simp
  then show ?thesis using div_mult_mod_eq [of n 10] div_mult_mod_eq [of "n div 10" 10] by linarith
qed

lemma parse_fixed2: "parse_decimal (fixed2 n) = Some (real n / 100)"
proof -
  let ?i = "nat_digits (n div 100)" and ?f = "[digit_char (n div 10 mod 10), digit_char (n mod 10)]"
  have t: "takeWhile is_digit (fixed2 n) = ?i" "dropWhile is_digit (fixed2 n) = CHR ''.'' # ?f"
    using takeWhile_digits [of ?i "CHR ''.''" ?f, OF nat_digits_digits] by (simp_all add: fixed2_def)
  have "digits_val (?i @ ?f) = n"
    using digits_val_append2 [of "n div 10 mod 10" "n mod 10" ?i] div_mod_100 [of n] by simp
  then show ?thesis
    by (simp add: parse_decimal_def t parse_exponent_def pow10_def)
qed

text \<open>The first character of a formatted number is a digit, so it is neither a sign nor a name.\<close>

lemma fixed2_head: "\<exists>c r. fixed2 n = c # r \<and> is_digit c"
proof -
  obtain c r where "nat_digits (n div 100) = c # r" by (cases "nat_digits (n div 100)") simp_all
  moreover from this have "is_digit c" using nat_digits_digits [of c "n div 100"] by simp
  ultimately show ?thesis by (simp add: fixed2_def)
qed

lemma digit_head:
  "is_digit c \<Longrightarrow> c \<noteq> CHR ''-'' \<and> c \<noteq> CHR ''+'' \<and> lower c \<noteq> CHR ''i'' \<and> lower c \<noteq> CHR ''n''"
  by (auto simp: is_digit_def lower_def)

lemma ParseFloat_digits:
  assumes "s = c # t" and "is_digit c" and "parse_decimal s = Some x"
  shows "ParseFloat mx s = (if x > mx then None else Some (Fin x))"
    and "ParseFloat mx (CHR ''-'' # s) = (if x > mx then None else Some (Fin (- x)))"
  using assms digit_head [OF assms(2)]
  by (simp_all add: ParseFloat_def parse_sign_def Let_def lower_def)

lemma ParseFloat_FormatFloat2:
  assumes "\<bar>round2 r\<bar> \<le> mx"
  shows "ParseFloat mx (FormatFloat2 (Fin r)) = Some (Fin (round2 r))"
proof -
  define n where "n = round_half_even (100 * \<bar>r\<bar>)"
  obtain c s where cs: "fixed2 (nat n) = c # s" "is_digit c" using fixed2_head by blast
  have n: "0 \<le> n" unfolding n_def by (rule round_half_even_nonneg) simp
  then have p: "parse_decimal (fixed2 (nat n)) = Some (real_of_int n / 100)"
    using parse_fixed2 [of "nat n"] by simp
  have z: "r = 0 \<Longrightarrow> n = 0" by (simp add: n_def round_half_even_def)
  have r: "round2 r = sgn r * real_of_int n / 100" by (simp add: round2_def n_def)
  have le: "\<not> mx < real_of_int n / 100" using assms n z by (cases "r = 0") (auto simp: r abs_mult)
  have f: "FormatFloat2 (Fin r) = (if r < 0 then CHR ''-'' # fixed2 (nat n) else fixed2 (nat n))"
    by (simp add: FormatFloat2_def n_def)
  have "ParseFloat mx (FormatFloat2 (Fin r)) = Some (Fin (if r < 0 then - real_of_int n / 100 else real_of_int n / 100))"
    unfolding f using ParseFloat_digits [OF cs p, of mx] le by simp
  also have "(if r < 0 then - real_of_int n / 100 else real_of_int n / 100) = round2 r"
    unfolding r using z by (cases r "0 :: real" rule: linorder_cases) simp_all
  finally show ?thesis .
qed

end
