(* ===== verification/Wva_Api.thy ===== *)
theory Wva_Api
  imports Go_Strconv
begin

text \<open>
  The custom resource of the controller (\<^verbatim>\<open>api/v1alpha1\<close>): the VariantAutoscaling object with its
  spec and status, the condition and reason names, and the operations on conditions. Of the object
  metadata the model keeps what the controller reads: name, namespace, labels, generation and
  deletion timestamp. The condition list functions of \<^verbatim>\<open>k8s.io/apimachinery\<close> are arguments; what the
  controller relies on is stated as \<open>condition_store\<close>. Times and durations are nanoseconds; the zero
  time is 0.
\<close>

type_synonym Time = int
type_synonym Duration = int

definition Millisecond :: Duration where "Millisecond = 1000000"

definition Second :: Duration where "Second = 1000 * Millisecond"

definition Minute :: Duration where "Minute = 60 * Second"

section \<open>Types\<close>

record PerfParms =
  pp_DecodeParms :: "(string, string) gomap"
  pp_PrefillParms :: "(string, string) gomap"

record AcceleratorProfile =
  ap_Acc :: string
  ap_AccCount :: int
  ap_PerfParms :: PerfParms
  ap_MaxBatchSize :: int

text \<open>\<^verbatim>\<open>ModelProfile\<close> wraps the list of accelerator profiles.\<close>

record VariantAutoscalingSpec =
  vsp_ModelID :: string
  vsp_ModelProfile :: "AcceleratorProfile list"
  vsp_VariantCost :: string

record LoadProfile =
  lp_ArrivalRate :: string
  lp_AvgInputTokens :: string
  lp_AvgOutputTokens :: string

record CrAllocation =
  cr_Accelerator :: string
  cr_NumReplicas :: int
  cr_MaxBatch :: int
  cr_VariantCost :: string
  cr_ITLAverage :: string
  cr_TTFTAverage :: string
  cr_Load :: LoadProfile

record OptimizedAlloc =
  oa_LastRunTime :: Time
  oa_Accelerator :: string
  oa_NumReplicas :: int

record ActuationStatus =
  act_Applied :: bool

record Condition =
  cn_Type :: string
  cn_Status :: string
  cn_ObservedGeneration :: int
  cn_LastTransitionTime :: Time
  cn_Reason :: string
  cn_Message :: message

record VariantAutoscalingStatus =
  st_CurrentAlloc :: CrAllocation
  st_DesiredOptimizedAlloc :: OptimizedAlloc
  st_Actuation :: ActuationStatus
  st_Conditions :: "Condition list"

record VariantAutoscaling =
  wa_Name :: string
  wa_Namespace :: string
  wa_Labels :: "(string, string) gomap"
  wa_Generation :: int
  wa_DeletionTimestamp :: "Time option"
  wa_Spec :: VariantAutoscalingSpec
  wa_Status :: VariantAutoscalingStatus

definition zero_CrAllocation :: CrAllocation where
  "zero_CrAllocation = \<lparr>cr_Accelerator = '''', cr_NumReplicas = 0, cr_MaxBatch = 0, cr_VariantCost = '''',
     cr_ITLAverage = '''', cr_TTFTAverage = '''',
     cr_Load = \<lparr>lp_ArrivalRate = '''', lp_AvgInputTokens = '''', lp_AvgOutputTokens = ''''\<rparr>\<rparr>"

text \<open>The zero value of the struct, which the code passes to a read.\<close>

definition zero_VariantAutoscaling :: VariantAutoscaling where
  "zero_VariantAutoscaling = \<lparr>wa_Name = '''', wa_Namespace = '''', wa_Labels = [], wa_Generation = 0,
     wa_DeletionTimestamp = None,
     wa_Spec = \<lparr>vsp_ModelID = '''', vsp_ModelProfile = [], vsp_VariantCost = ''''\<rparr>,
     wa_Status = \<lparr>st_CurrentAlloc = zero_CrAllocation,
       st_DesiredOptimizedAlloc = \<lparr>oa_LastRunTime = 0, oa_Accelerator = '''', oa_NumReplicas = 0\<rparr>,
       st_Actuation = \<lparr>act_Applied = False\<rparr>, st_Conditions = []\<rparr>\<rparr>"

definition TypeMetricsAvailable :: string where "TypeMetricsAvailable = ''MetricsAvailable''"
definition TypeOptimizationReady :: string where "TypeOptimizationReady = ''OptimizationReady''"

definition ReasonMetricsFound :: string where "ReasonMetricsFound = ''MetricsFound''"
definition ReasonMetricsMissing :: string where "ReasonMetricsMissing = ''MetricsMissing''"
definition ReasonMetricsStale :: string where "ReasonMetricsStale = ''MetricsStale''"
definition ReasonPrometheusError :: string where "ReasonPrometheusError = ''PrometheusError''"
definition ReasonOptimizationSucceeded :: string where
  "ReasonOptimizationSucceeded = ''OptimizationSucceeded''"

definition ConditionTrue :: string where "ConditionTrue = ''True''"
definition ConditionFalse :: string where "ConditionFalse = ''False''"

text \<open>The label every part of the controller reads the accelerator from.\<close>

definition acceleratorLabel :: string where
  "acceleratorLabel = ''inference.optimization/acceleratorName''"

section \<open>Conditions\<close>

text \<open>\<^verbatim>\<open>meta.SetStatusCondition\<close>, \<^verbatim>\<open>meta.FindStatusCondition\<close> and the two tests of the status.\<close>

record ConditionApi =
  capi_Set :: "Condition list \<Rightarrow> Condition \<Rightarrow> Condition list"
  capi_Find :: "Condition list \<Rightarrow> string \<Rightarrow> Condition option"
  capi_IsTrue :: "Condition list \<Rightarrow> string \<Rightarrow> bool"
  capi_IsFalse :: "Condition list \<Rightarrow> string \<Rightarrow> bool"

definition SetCondition ::
  "ConditionApi \<Rightarrow> Time \<Rightarrow> VariantAutoscaling \<Rightarrow> string \<Rightarrow> string \<Rightarrow> string \<Rightarrow> message \<Rightarrow> VariantAutoscaling" where
  "SetCondition api now va conditionType status reason msg =
     (let condition = \<lparr>cn_Type = conditionType, cn_Status = status, cn_ObservedGeneration = wa_Generation va,
            cn_LastTransitionTime = now, cn_Reason = reason, cn_Message = msg\<rparr>
      in va\<lparr>wa_Status := (wa_Status va)\<lparr>st_Conditions := capi_Set api (st_Conditions (wa_Status va)) condition\<rparr>\<rparr>)"

definition GetCondition :: "ConditionApi \<Rightarrow> VariantAutoscaling \<Rightarrow> string \<Rightarrow> Condition option" where
  "GetCondition api va conditionType = capi_Find api (st_Conditions (wa_Status va)) conditionType"

definition IsConditionTrue :: "ConditionApi \<Rightarrow> VariantAutoscaling \<Rightarrow> string \<Rightarrow> bool" where
  "IsConditionTrue api va conditionType = capi_IsTrue api (st_Conditions (wa_Status va)) conditionType"

definition IsConditionFalse :: "ConditionApi \<Rightarrow> VariantAutoscaling \<Rightarrow> string \<Rightarrow> bool" where
  "IsConditionFalse api va conditionType = capi_IsFalse api (st_Conditions (wa_Status va)) conditionType"

text \<open>The documented behaviour of the condition functions: setting a condition makes it the one found
  under its type, with its status, generation, reason and message (the transition time may be kept
  when the status does not change), and leaves the other types alone; the tests compare the status
  of the condition found.\<close>

definition condition_store :: "ConditionApi \<Rightarrow> bool" where
  "condition_store api \<longleftrightarrow>
     (\<forall>cs c. \<exists>c'. capi_Find api (capi_Set api cs c) (cn_Type c) = Some c' \<and>
        c' = c\<lparr>cn_LastTransitionTime := cn_LastTransitionTime c'\<rparr>) \<and>
     (\<forall>cs c t. t \<noteq> cn_Type c \<longrightarrow> capi_Find api (capi_Set api cs c) t = capi_Find api cs t) \<and>
     (\<forall>cs t. capi_IsTrue api cs t \<longleftrightarrow>
        (case capi_Find api cs t of None \<Rightarrow> False | Some c \<Rightarrow> cn_Status c = ConditionTrue)) \<and>
     (\<forall>cs t. capi_IsFalse api cs t \<longleftrightarrow>
        (case capi_Find api cs t of None \<Rightarrow> False | Some c \<Rightarrow> cn_Status c = ConditionFalse))"

lemma SetCondition_frame [simp]:
  "wa_Name (SetCondition api now va t s r m) = wa_Name va"
  "wa_Namespace (SetCondition api now va t s r m) = wa_Namespace va"
  "wa_Labels (SetCondition api now va t s r m) = wa_Labels va"
  "wa_Generation (SetCondition api now va t s r m) = wa_Generation va"
  "wa_Spec (SetCondition api now va t s r m) = wa_Spec va"
  "st_CurrentAlloc (wa_Status (SetCondition api now va t s r m)) = st_CurrentAlloc (wa_Status va)"
  "st_DesiredOptimizedAlloc (wa_Status (SetCondition api now va t s r m)) = st_DesiredOptimizedAlloc (wa_Status va)"
  "st_Actuation (wa_Status (SetCondition api now va t s r m)) = st_Actuation (wa_Status va)"
  by (simp_all add: SetCondition_def Let_def)

lemma GetCondition_SetCondition:
  assumes "condition_store api"
  shows "\<exists>c. GetCondition api (SetCondition api now va t s r m) t = Some c \<and> cn_Status c = s \<and> cn_Reason c = r \<and>
      cn_Message c = m \<and> cn_ObservedGeneration c = wa_Generation va"
    and "t' \<noteq> t \<Longrightarrow> GetCondition api (SetCondition api now va t s r m) t' = GetCondition api va t'"
proof -
  let ?c = "\<lparr>cn_Type = t, cn_Status = s, cn_ObservedGeneration = wa_Generation va,
            cn_LastTransitionTime = now, cn_Reason = r, cn_Message = m\<rparr>"
  obtain c' where "capi_Find api (capi_Set api (st_Conditions (wa_Status va)) ?c) (cn_Type ?c) = Some c'"
      "c' = ?c\<lparr>cn_LastTransitionTime := cn_LastTransitionTime c'\<rparr>"
    using assms unfolding condition_store_def by blast
  moreover from this(2) have "cn_Status c' = s" "cn_Reason c' = r" "cn_Message c' = m"
      "cn_ObservedGeneration c' = wa_Generation va"
    by (metis Condition.select_convs Condition.update_convs(4))+
  ultimately show "\<exists>c. GetCondition api (SetCondition api now va t s r m) t = Some c \<and> cn_Status c = s \<and>
      cn_Reason c = r \<and> cn_Message c = m \<and> cn_ObservedGeneration c = wa_Generation va"
    by (simp add: GetCondition_def SetCondition_def Let_def)
  show "GetCondition api (SetCondition api now va t s r m) t' = GetCondition api va t'" if "t' \<noteq> t"
    using assms that by (simp add: condition_store_def GetCondition_def SetCondition_def Let_def)
qed

text \<open>A store that keeps one condition per type.\<close>

definition list_conditions :: ConditionApi where
  "list_conditions =
     (let fnd = (\<lambda>cs t. find (\<lambda>c. cn_Type c = t) cs);
          tst = (\<lambda>v cs t. case fnd cs t of None \<Rightarrow> False | Some c \<Rightarrow> cn_Status c = v)
      in \<lparr>capi_Set = (\<lambda>cs c. c # filter (\<lambda>d. cn_Type d \<noteq> cn_Type c) cs), capi_Find = fnd,
          capi_IsTrue = tst ConditionTrue, capi_IsFalse = tst ConditionFalse\<rparr>)"

lemma find_filter_other: "t \<noteq> u \<Longrightarrow> find (\<lambda>c. f c = t) (filter (\<lambda>d. f d \<noteq> u) cs) = find (\<lambda>c. f c = t) cs"
  by (induction cs) auto

lemma list_conditions_store: "condition_store list_conditions"
  by (auto simp: condition_store_def list_conditions_def Let_def find_filter_other)

end
