(* ===== verification/Wva_Client.thy ===== *)
theory Wva_Client
  imports Wva_Api
begin

text \<open>
  Access to the Kubernetes API (the retry helpers of \<^verbatim>\<open>internal/utils/utils.go\<close>). The client of
  \<^verbatim>\<open>controller-runtime\<close> and the polling loop of \<^verbatim>\<open>k8s.io/apimachinery/pkg/util/wait\<close> are arguments: every
  call takes and returns the state of the outside world, of arbitrary type, so that an answer may
  depend on everything that happened before. The contract of the polling loop is \<open>documented_wait\<close>.
  The lemmas say what a successful call has done and which errors are retried.
\<close>

section \<open>The client\<close>

text \<open>API errors by the classes the code tests for.\<close>

datatype kerror = NotFound message | Invalid message | Forbidden message | Conflict message | OtherError message

primrec kmessage :: "kerror \<Rightarrow> message" where
  "kmessage (NotFound m) = m" | "kmessage (Invalid m) = m" | "kmessage (Forbidden m) = m"
| "kmessage (Conflict m) = m" | "kmessage (OtherError m) = m"

record Backoff =
  bo_Duration :: Duration
  bo_Factor :: gofloat
  bo_Jitter :: gofloat
  bo_Steps :: nat

definition StandardBackoff :: Backoff where
  "StandardBackoff = \<lparr>bo_Duration = 100 * Millisecond, bo_Factor = Fin 2, bo_Jitter = Fin (1 / 10), bo_Steps = 5\<rparr>"

definition ReconcileBackoff :: Backoff where
  "ReconcileBackoff = \<lparr>bo_Duration = 500 * Millisecond, bo_Factor = Fin 2, bo_Jitter = Fin 0, bo_Steps = 5\<rparr>"

definition PrometheusBackoff :: Backoff where
  "PrometheusBackoff = \<lparr>bo_Duration = 5 * Second, bo_Factor = Fin 2, bo_Jitter = Fin (1 / 10), bo_Steps = 6\<rparr>"

text \<open>A call on an object: it may fail, fills the object, and moves the world. A condition of a polling
  loop returns an error, done, or not yet; the loop returns the nil error or an error. The object
  that the Go closure captures is part of the state.\<close>

type_synonym ('w, 'o) call = "'o \<Rightarrow> 'w \<Rightarrow> kerror option \<times> 'o \<times> 'w"
type_synonym ('w, 'o) poll_condition = "'o \<times> 'w \<Rightarrow> (kerror + bool) \<times> 'o \<times> 'w"
type_synonym ('w, 'o) waiter = "Backoff \<Rightarrow> ('w, 'o) poll_condition \<Rightarrow> 'o \<times> 'w \<Rightarrow> kerror option \<times> 'o \<times> 'w"

definition get_condition :: "('w, 'o) call \<Rightarrow> ('w, 'o) poll_condition" where
  "get_condition get s =
     (let (err, obj, w) = get (fst s) (snd s)
      in case err of
           Some (NotFound m) \<Rightarrow> (Inl (NotFound m), obj, w)
         | Some e \<Rightarrow> (Inr False, obj, w)
         | None \<Rightarrow> (Inr True, obj, w))"

definition GetResourceWithBackoff ::
  "('w, 'o) waiter \<Rightarrow> ('w, 'o) call \<Rightarrow> 'o \<Rightarrow> Backoff \<Rightarrow> 'w \<Rightarrow> kerror option \<times> 'o \<times> 'w" where
  "GetResourceWithBackoff wait get obj backoff w = wait backoff (get_condition get) (obj, w)"

definition update_condition :: "('w, 'o) call \<Rightarrow> ('w, 'o) poll_condition" where
  "update_condition update s =
     (let (err, obj, w) = update (fst s) (snd s)
      in case err of
           Some (Invalid m) \<Rightarrow> (Inl (Invalid m), obj, w)
         | Some (Forbidden m) \<Rightarrow> (Inl (Forbidden m), obj, w)
         | Some (Conflict m) \<Rightarrow> (Inr False, obj, w)
         | Some e \<Rightarrow> (Inr False, obj, w)
         | None \<Rightarrow> (Inr True, obj, w))"

definition UpdateStatusWithBackoff ::
  "('w, 'o) waiter \<Rightarrow> ('w, 'o) call \<Rightarrow> 'o \<Rightarrow> Backoff \<Rightarrow> 'w \<Rightarrow> kerror option \<times> 'o \<times> 'w" where
  "UpdateStatusWithBackoff wait update obj backoff w = wait backoff (update_condition update) (obj, w)"

definition locking_condition :: "('w, 'o) call \<Rightarrow> ('w, 'o) call \<Rightarrow> ('o \<Rightarrow> 'o) \<Rightarrow> ('w, 'o) poll_condition" where
  "locking_condition get update mutate s =
     (let (err, obj, w) = get (fst s) (snd s)
      in case err of
           Some (NotFound m) \<Rightarrow> (Inl (NotFound m), obj, w)
         | Some e \<Rightarrow> (Inr False, obj, w)
         | None \<Rightarrow> update_condition update (mutate obj, w))"

definition UpdateStatusWithOptimisticLocking ::
  "('w, 'o) waiter \<Rightarrow> ('w, 'o) call \<Rightarrow> ('w, 'o) call \<Rightarrow> 'o \<Rightarrow> ('o \<Rightarrow> 'o) \<Rightarrow> Backoff \<Rightarrow> 'w \<Rightarrow>
   kerror option \<times> 'o \<times> 'w" where
  "UpdateStatusWithOptimisticLocking wait get update obj mutate backoff w =
     wait backoff (locking_condition get update mutate) (obj, w)"

section \<open>Objects and the typed helpers\<close>

record LabelSelector =
  ls_MatchLabels :: "(string, string) gomap"
  ls_MatchExpressions :: "(string \<times> string \<times> string list) list"

record Deployment =
  dp_Name :: string
  dp_Namespace :: string
  dp_SpecReplicas :: "int option"
  dp_StatusReplicas :: int
  dp_Selector :: LabelSelector

definition zero_Deployment :: Deployment where
  "zero_Deployment = \<lparr>dp_Name = '''', dp_Namespace = '''', dp_SpecReplicas = None, dp_StatusReplicas = 0,
     dp_Selector = \<lparr>ls_MatchLabels = [], ls_MatchExpressions = []\<rparr>\<rparr>"

text \<open>The data of a config map. A selector in the form the client lists by is its text.\<close>

type_synonym ConfigMap = "(string, string) gomap"

record 'w Client =
  cl_GetDeployment :: "string \<Rightarrow> string \<Rightarrow> ('w, Deployment) call"
  cl_GetConfigMap :: "string \<Rightarrow> string \<Rightarrow> ('w, ConfigMap) call"
  cl_GetVariantAutoscaling :: "string \<Rightarrow> string \<Rightarrow> ('w, VariantAutoscaling) call"
  cl_UpdateVariantAutoscalingStatus :: "('w, VariantAutoscaling) call"
  cl_ListVariantAutoscalings :: "'w \<Rightarrow> (kerror + VariantAutoscaling list) \<times> 'w"
  cl_LabelSelectorAsSelector :: "LabelSelector \<Rightarrow> kerror + string"
  cl_ListPods :: "string \<Rightarrow> string \<Rightarrow> 'w \<Rightarrow> (kerror + string list) \<times> 'w"
  cl_WaitDeployment :: "('w, Deployment) waiter"
  cl_WaitConfigMap :: "('w, ConfigMap) waiter"
  cl_WaitVariantAutoscaling :: "('w, VariantAutoscaling) waiter"

definition GetDeploymentWithBackoff ::
  "'w Client \<Rightarrow> string \<Rightarrow> string \<Rightarrow> 'w \<Rightarrow> kerror option \<times> Deployment \<times> 'w" where
  "GetDeploymentWithBackoff c name namespace w =
     GetResourceWithBackoff (cl_WaitDeployment c) (cl_GetDeployment c name namespace) zero_Deployment StandardBackoff w"

definition GetConfigMapWithBackoff ::
  "'w Client \<Rightarrow> string \<Rightarrow> string \<Rightarrow> 'w \<Rightarrow> kerror option \<times> ConfigMap \<times> 'w" where
  "GetConfigMapWithBackoff c name namespace w =
     GetResourceWithBackoff (cl_WaitConfigMap c) (cl_GetConfigMap c name namespace) [] StandardBackoff w"

definition GetVariantAutoscalingWithBackoff ::
  "'w Client \<Rightarrow> string \<Rightarrow> string \<Rightarrow> 'w \<Rightarrow> kerror option \<times> VariantAutoscaling \<times> 'w" where
  "GetVariantAutoscalingWithBackoff c name namespace w =
     GetResourceWithBackoff (cl_WaitVariantAutoscaling c) (cl_GetVariantAutoscaling c name namespace)
       zero_VariantAutoscaling StandardBackoff w"

section \<open>The polling loop\<close>

text \<open>The documented behaviour of \<^verbatim>\<open>wait.ExponentialBackoffWithContext\<close>: it checks the condition up to
  \<^verbatim>\<open>Steps\<close> times (fewer when the context ends), stops at the first error or success, and returns an
  error of its own when the checks are used up.\<close>

fun poll :: "nat \<Rightarrow> ('w, 'o) poll_condition \<Rightarrow> 'o \<times> 'w \<Rightarrow> kerror option \<times> 'o \<times> 'w" where
  "poll 0 cond s = (Some (OtherError (sprintf ''timed out waiting for the condition'' [])), s)"
| "poll (Suc n) cond s =
     (case cond s of
        (Inl e, s') \<Rightarrow> (Some e, s')
      | (Inr True, s') \<Rightarrow> (None, s')
      | (Inr False, s') \<Rightarrow> poll n cond s')"

definition documented_wait :: "('w, 'o) waiter \<Rightarrow> bool" where
  "documented_wait wait \<longleftrightarrow> (\<forall>b cond s. \<exists>n\<le>bo_Steps b. wait b cond s = poll n cond s)"

lemma documented_wait_poll: "documented_wait (\<lambda>b. poll (bo_Steps b))"
  by (auto simp: documented_wait_def)

text \<open>A polling loop that ends well ends with a check that reported success.\<close>

lemma poll_success: "poll n cond s = (None, t) \<Longrightarrow> \<exists>s'. cond s' = (Inr True, t)"
  by (induction n arbitrary: s) (auto split: prod.splits sum.splits bool.splits)

lemma poll_error: "poll n cond s = (Some e, t) \<Longrightarrow>
    (\<exists>s'. cond s' = (Inl e, t)) \<or> e = OtherError (sprintf ''timed out waiting for the condition'' [])"
  by (induction n arbitrary: s) (auto split: prod.splits sum.splits bool.splits)

text \<open>A property of the state that every check keeps is kept by the loop.\<close>

lemma poll_inv: "I s \<Longrightarrow> (\<And>s. I s \<Longrightarrow> I (snd (cond s))) \<Longrightarrow> I (snd (poll n cond s))"
proof (induction n arbitrary: s)
  case (Suc n)
  obtain r t where c: "cond s = (r, t)" by (cases "cond s") auto
  have "I t" using Suc.prems(2) [OF Suc.prems(1)] by (simp add: c)
  then show ?case using Suc.IH [of t] Suc.prems(2) by (auto simp: c split: sum.splits bool.splits)
qed simp

text \<open>A stronger property may hold between the checks than after the last one.\<close>

lemma poll_inv_between:
  assumes "J s" and "\<And>s. J s \<Longrightarrow> I s" and "\<And>s. J s \<Longrightarrow> I (snd (cond s))"
    and "\<And>s s'. J s \<Longrightarrow> cond s = (Inr False, s') \<Longrightarrow> J s'"
  shows "I (snd (poll n cond s))"
  using assms(1)
proof (induction n arbitrary: s)
  case 0
  then show ?case using assms(2) by simp
next
  case (Suc n)
  obtain r t where c: "cond s = (r, t)" by (cases "cond s") auto
  have "I t" using assms(3) [OF Suc.prems] by (simp add: c)
  moreover have "r = Inr False \<Longrightarrow> J t" using assms(4) [OF Suc.prems] c by simp
  ultimately show ?case using Suc.IH [of t] by (auto simp: c split: sum.splits bool.splits)
qed

lemma wait_success:
  "documented_wait wait \<Longrightarrow> wait b cond s = (None, t) \<Longrightarrow> \<exists>s'. cond s' = (Inr True, t)"
  by (metis documented_wait_def poll_success)

lemma wait_inv:
  assumes "documented_wait wait" and "I s" and "\<And>s. I s \<Longrightarrow> I (snd (cond s))"
  shows "I (snd (wait b cond s))"
proof -
  obtain n where "wait b cond s = poll n cond s" using assms(1) unfolding documented_wait_def by blast
  with poll_inv [of I, OF assms(2,3)] show ?thesis by simp
qed

lemma get_condition_success: "get_condition get s = (Inr True, t) \<longleftrightarrow> get (fst s) (snd s) = (None, t)"
  by (auto simp: get_condition_def Let_def split: prod.splits option.splits kerror.splits)

lemma update_condition_success: "update_condition up s = (Inr True, t) \<longleftrightarrow> up (fst s) (snd s) = (None, t)"
  by (auto simp: update_condition_def Let_def split: prod.splits option.splits kerror.splits)

text \<open>An update with retries makes its calls with the object it was given, if a failed call leaves the
  object alone.\<close>

definition failed_update_keeps :: "('w, 'o) call \<Rightarrow> bool" where
  "failed_update_keeps up \<longleftrightarrow> (\<forall>obj w e obj' w'. up obj w = (Some e, obj', w') \<longrightarrow> obj' = obj)"

lemma update_with_backoff_keeps:
  assumes "documented_wait wait" and "I w" and "failed_update_keeps up" and "\<And>v. I v \<Longrightarrow> I (snd (snd (up obj v)))"
  shows "I (snd (snd (UpdateStatusWithBackoff wait up obj b w)))"
proof -
  obtain n where n: "UpdateStatusWithBackoff wait up obj b w = poll n (update_condition up) (obj, w)"
    using assms(1) unfolding documented_wait_def UpdateStatusWithBackoff_def by blast
  have "I (snd (snd (poll n (update_condition up) (obj, w))))"
  proof (rule poll_inv_between [where J = "\<lambda>s. fst s = obj \<and> I (snd s)" and I = "\<lambda>s. I (snd s)"])
    fix s :: "'a \<times> 'b" assume s: "fst s = obj \<and> I (snd s)"
    then have "I (snd (snd (up (fst s) (snd s))))" using assms(4) by simp
    then show "I (snd (snd (update_condition up s)))"
      by (auto simp: update_condition_def Let_def split: prod.splits option.splits kerror.splits)
    show "fst s' = obj \<and> I (snd s')" if "update_condition up s = (Inr False, s')" for s'
    proof -
      obtain e obj' v' where u: "up (fst s) (snd s) = (e, obj', v')" by (metis prod_cases3)
      with that have "e \<noteq> None" "s' = (obj', v')"
        by (auto simp: update_condition_def split: option.splits kerror.splits)
      moreover from this u have "obj' = fst s" using assms(3) unfolding failed_update_keeps_def by blast
      moreover have "I v'" using assms(4) [of "snd s"] s u by simp
      ultimately show ?thesis using s by simp
    qed
  qed (use assms(2) in simp_all)
  then show ?thesis by (simp add: n)
qed

text \<open>A property of the world that the reads keep is kept by the reads with retries.\<close>

definition documented_client :: "'w Client \<Rightarrow> bool" where
  "documented_client c \<longleftrightarrow> documented_wait (cl_WaitDeployment c) \<and> documented_wait (cl_WaitConfigMap c) \<and>
     documented_wait (cl_WaitVariantAutoscaling c)"

definition reads_keep :: "'w Client \<Rightarrow> ('w \<Rightarrow> bool) \<Rightarrow> bool" where
  "reads_keep c I \<longleftrightarrow> (\<forall>w. I w \<longrightarrow>
     (\<forall>n ns d. I (snd (snd (cl_GetDeployment c n ns d w)))) \<and>
     (\<forall>n ns m. I (snd (snd (cl_GetConfigMap c n ns m w)))) \<and>
     (\<forall>n ns v. I (snd (snd (cl_GetVariantAutoscaling c n ns v w)))) \<and>
     I (snd (cl_ListVariantAutoscalings c w)) \<and> (\<forall>ns sel. I (snd (cl_ListPods c ns sel w))))"

lemma get_with_backoff_keeps:
  assumes "documented_wait wait" and "I w" and "\<And>obj w. I w \<Longrightarrow> I (snd (snd (get obj w)))"
  shows "I (snd (snd (GetResourceWithBackoff wait get obj b w)))"
  unfolding GetResourceWithBackoff_def
proof (rule wait_inv [OF assms(1), where I = "\<lambda>s. I (snd s)"])
  fix s :: "'a \<times> 'b" assume "I (snd s)"
  then have "I (snd (snd (get (fst s) (snd s))))" by (rule assms(3))
  then show "I (snd (snd (get_condition get s)))"
    by (auto simp: get_condition_def Let_def split: prod.splits option.splits kerror.splits)
qed (simp add: assms(2))

lemma client_reads_keep:
  assumes "documented_client c" and "reads_keep c I" and "I w"
  shows "I (snd (snd (GetDeploymentWithBackoff c n ns w)))"
    and "I (snd (snd (GetConfigMapWithBackoff c n ns w)))"
    and "I (snd (snd (GetVariantAutoscalingWithBackoff c n ns w)))"
    and "I (snd (cl_ListVariantAutoscalings c w))" and "I (snd (cl_ListPods c ns sel w))"
proof -
  have k: "I v \<Longrightarrow> I (snd (snd (cl_GetDeployment c m ms d v)))" "I v \<Longrightarrow> I (snd (snd (cl_GetConfigMap c m ms e v)))"
      "I v \<Longrightarrow> I (snd (snd (cl_GetVariantAutoscaling c m ms f v)))" for v m ms d e f
    using assms(2) by (simp_all add: reads_keep_def)
  note wait = assms(1) [unfolded documented_client_def]
  show "I (snd (snd (GetDeploymentWithBackoff c n ns w)))"
    unfolding GetDeploymentWithBackoff_def by (rule get_with_backoff_keeps) (use wait assms(3) k(1) in simp_all)
  show "I (snd (snd (GetConfigMapWithBackoff c n ns w)))"
    unfolding GetConfigMapWithBackoff_def by (rule get_with_backoff_keeps) (use wait assms(3) k(2) in simp_all)
  show "I (snd (snd (GetVariantAutoscalingWithBackoff c n ns w)))"
    unfolding GetVariantAutoscalingWithBackoff_def
    by (rule get_with_backoff_keeps) (use wait assms(3) k(3) in simp_all)
  show "I (snd (cl_ListVariantAutoscalings c w))" "I (snd (cl_ListPods c ns sel w))"
    using assms(2,3) by (simp_all add: reads_keep_def)
qed

section \<open>Properties\<close>

text \<open>A read with retries that reports success has returned the object of a read that succeeded, and
  made no call after it. A missing object is reported at once, without a second read, and no other
  error of the API is reported as such: only a missing object or the exhaustion of the
  retries.\<close>

lemma get_with_backoff_sound:
  assumes "documented_wait wait"
  shows "(case GetResourceWithBackoff wait get obj b w of
      (None, obj', w') \<Rightarrow> \<exists>o1 w1. get o1 w1 = (None, obj', w')
    | (Some e, obj', w') \<Rightarrow> (\<exists>m. e = NotFound m \<and> (\<exists>o1 w1. get o1 w1 = (Some e, obj', w'))) \<or>
        e = OtherError (sprintf ''timed out waiting for the condition'' [])) \<and>
    (get obj w = (Some (NotFound m), o2, w2) \<longrightarrow>
      GetResourceWithBackoff wait get obj b w \<in>
        {(Some (NotFound m), o2, w2), (Some (OtherError (sprintf ''timed out waiting for the condition'' [])), obj, w)})"
proof -
  obtain n where n: "GetResourceWithBackoff wait get obj b w = poll n (get_condition get) (obj, w)"
    using assms unfolding documented_wait_def GetResourceWithBackoff_def by blast
  have err: "get_condition get s = (Inl e, t) \<Longrightarrow> \<exists>m. e = NotFound m \<and> get (fst s) (snd s) = (Some e, t)" for s e t
    by (auto simp: get_condition_def Let_def split: prod.splits option.splits kerror.splits)
  have "case poll n (get_condition get) (obj, w) of
      (None, obj', w') \<Rightarrow> \<exists>o1 w1. get o1 w1 = (None, obj', w')
    | (Some e, obj', w') \<Rightarrow> (\<exists>m. e = NotFound m \<and> (\<exists>o1 w1. get o1 w1 = (Some e, obj', w'))) \<or>
        e = OtherError (sprintf ''timed out waiting for the condition'' [])"
    using poll_success [of n "get_condition get" "(obj, w)"] poll_error [of n "get_condition get" "(obj, w)"] err
    by (fastforce simp: get_condition_success split: prod.splits option.splits)
  moreover have "get obj w = (Some (NotFound m), o2, w2) \<longrightarrow> poll n (get_condition get) (obj, w) \<in>
        {(Some (NotFound m), o2, w2), (Some (OtherError (sprintf ''timed out waiting for the condition'' [])), obj, w)}"
    by (cases n) (auto simp: get_condition_def)
  ultimately show ?thesis unfolding n by blast
qed


text \<open>A server with one versioned object, modified once by someone else after the first read.\<close>

definition versioned_get :: "(nat \<times> nat, nat \<times> nat \<times> string) call" where
  "versioned_get obj w = (None, (fst w, snd w, ''read''), (if snd w = 0 then (fst w + 1, 1) else w))"

definition versioned_update :: "(nat \<times> nat, nat \<times> nat \<times> string) call" where
  "versioned_update obj w = (if fst obj = fst w then (None, obj, (fst w + 1, snd w))
     else (Some (Conflict (sprintf ''version'' [])), obj, w))"


end
