(* ===== verification/Wva_Collector.thy ===== *)
theory Wva_Collector
  imports Wva_Client Capacity_Targets "HOL-Library.Sublist"
begin

text \<open>
  The metrics collectors (\<^verbatim>\<open>internal/collector\<close>). \<^verbatim>\<open>capacity_metrics.go\<close> collects one record per replica for
  the capacity analyzer: two Prometheus queries that run in parallel, and the attribution of pods to
  deployments. \<^verbatim>\<open>collector.go\<close> checks that metrics are available and fills the current allocation of a
  variant. Prometheus and the clock are arguments; a query may change the state of the outside world.
  The two goroutines are modelled twice: as a step relation over the shared result and the mutex, and
  as the sequential composition the rest of the model uses; a theorem relates the two.
\<close>

section \<open>Prometheus\<close>

record Sample =
  sm_Metric :: "(string, string) gomap"
  sm_Value :: gofloat
  sm_Timestamp :: Time

datatype PromValue = Vector "Sample list" | OtherValue

text \<open>A query has the deadline of its context, the text and the evaluation time.\<close>

record 'w Prom =
  pm_Query :: "Time option \<Rightarrow> string \<Rightarrow> Time \<Rightarrow> 'w \<Rightarrow> (message + PromValue) \<times> 'w"
  pm_Now :: "'w \<Rightarrow> Time"

definition VLLMNumRequestRunning :: string where "VLLMNumRequestRunning = ''vllm:num_requests_running''"
definition VLLMRequestSuccessTotal :: string where "VLLMRequestSuccessTotal = ''vllm:request_success_total''"
definition VLLMRequestPromptTokensSum :: string where
  "VLLMRequestPromptTokensSum = ''vllm:request_prompt_tokens_sum''"
definition VLLMRequestPromptTokensCount :: string where
  "VLLMRequestPromptTokensCount = ''vllm:request_prompt_tokens_count''"
definition VLLMRequestGenerationTokensSum :: string where
  "VLLMRequestGenerationTokensSum = ''vllm:request_generation_tokens_sum''"
definition VLLMRequestGenerationTokensCount :: string where
  "VLLMRequestGenerationTokensCount = ''vllm:request_generation_tokens_count''"
definition VLLMTimeToFirstTokenSecondsSum :: string where
  "VLLMTimeToFirstTokenSecondsSum = ''vllm:time_to_first_token_seconds_sum''"
definition VLLMTimeToFirstTokenSecondsCount :: string where
  "VLLMTimeToFirstTokenSecondsCount = ''vllm:time_to_first_token_seconds_count''"
definition VLLMTimePerOutputTokenSecondsSum :: string where
  "VLLMTimePerOutputTokenSecondsSum = ''vllm:time_per_output_token_seconds_sum''"
definition VLLMTimePerOutputTokenSecondsCount :: string where
  "VLLMTimePerOutputTokenSecondsCount = ''vllm:time_per_output_token_seconds_count''"
definition VLLMKvCacheUsagePerc :: string where "VLLMKvCacheUsagePerc = ''vllm:kv_cache_usage_perc''"
definition VLLMNumRequestsWaiting :: string where "VLLMNumRequestsWaiting = ''vllm:num_requests_waiting''"

definition LabelModelName :: string where "LabelModelName = ''model_name''"
definition LabelNamespace :: string where "LabelNamespace = ''namespace''"

abbreviation backslash :: char where "backslash \<equiv> CHR 0x5C"
abbreviation dquote :: char where "dquote \<equiv> CHR 0x22"

definition replace_all :: "char \<Rightarrow> string \<Rightarrow> string \<Rightarrow> string" where
  "replace_all c r s = concat (map (\<lambda>x. if x = c then r else [x]) s)"

definition escapePrometheusLabelValue :: "string \<Rightarrow> string" where
  "escapePrometheusLabelValue value =
     replace_all dquote [backslash, dquote] (replace_all backslash [backslash, backslash] value)"

text \<open>The deadline of the context that \<^verbatim>\<open>context.WithTimeout\<close> makes: that of the parent when it is
  earlier. The two readings of the clock are one instant.\<close>

definition contextWithRespectedDeadline :: "Time option \<Rightarrow> Time \<Rightarrow> Duration \<Rightarrow> Time" where
  "contextWithRespectedDeadline parent now desiredTimeout =
     (case parent of
        None \<Rightarrow> now + desiredTimeout
      | Some deadline \<Rightarrow>
          let remaining = deadline - now;
              timeout =
                (if remaining \<le> 0 then Millisecond
                 else if remaining < desiredTimeout
                 then (if remaining - 100 * Millisecond < Millisecond then Millisecond
                       else remaining - 100 * Millisecond)
                 else desiredTimeout)
          in min deadline (now + timeout))"

section \<open>Metrics of the replicas\<close>

definition peak_query :: "string \<Rightarrow> string \<Rightarrow> string \<Rightarrow> string" where
  "peak_query metric namespace modelID =
     ''max by (pod) (max_over_time('' @ metric @ ''{namespace='' @ [dquote] @ escapePrometheusLabelValue namespace @
     [dquote] @ '',model_name='' @ [dquote] @ escapePrometheusLabelValue modelID @ [dquote] @ ''}[1m]))''"

definition pod_of :: "Sample \<Rightarrow> string" where
  "pod_of smp =
     (let podName = mget0 '''' (sm_Metric smp) ''pod''
      in if podName = '''' then mget0 '''' (sm_Metric smp) ''pod_name'' else podName)"

definition samples_by_pod :: "(gofloat \<Rightarrow> 'v) \<Rightarrow> PromValue \<Rightarrow> (string, 'v) gomap" where
  "samples_by_pod f val =
     (case val of
        Vector vector \<Rightarrow>
          foldl (\<lambda>m smp. if pod_of smp \<noteq> '''' then mput (pod_of smp) (f (sm_Value smp)) m else m) [] vector
      | OtherValue \<Rightarrow> [])"

text \<open>A result and its error, as Go returns them: the nil map comes with the error.\<close>

type_synonym 'v pod_metrics = "(string, 'v) gomap \<times> message option"

definition query_by_pod ::
  "'w Prom \<Rightarrow> Time option \<Rightarrow> string \<Rightarrow> (gofloat \<Rightarrow> 'v) \<Rightarrow> 'w \<Rightarrow> 'v pod_metrics \<times> 'w" where
  "query_by_pod prom ctx query f w =
     (let now = pm_Now prom w;
          (res, w) = pm_Query prom (Some (contextWithRespectedDeadline ctx now (5 * Second))) query now w
      in case res of
           Inl err \<Rightarrow> (([], Some (sprintf ''prometheus query failed: %w'' [FMsg err])), w)
         | Inr val \<Rightarrow> ((samples_by_pod f val, None), w))"

definition queryKvCacheMetrics ::
  "'w Prom \<Rightarrow> Time option \<Rightarrow> string \<Rightarrow> string \<Rightarrow> 'w \<Rightarrow> gofloat pod_metrics \<times> 'w" where
  "queryKvCacheMetrics prom ctx modelID namespace w =
     query_by_pod prom ctx (peak_query VLLMKvCacheUsagePerc namespace modelID) (\<lambda>x. x) w"

definition queryQueueMetrics ::
  "'w Prom \<Rightarrow> Time option \<Rightarrow> string \<Rightarrow> string \<Rightarrow> 'w \<Rightarrow> int pod_metrics \<times> 'w" where
  "queryQueueMetrics prom ctx modelID namespace w =
     query_by_pod prom ctx (peak_query VLLMNumRequestsWaiting namespace modelID) int_of_float w"

text \<open>Attribution of a pod: the selectors of the deployments first, then the longest name that is a
  prefix of the pod's name.\<close>

fun find_by_selector ::
  "'w Client \<Rightarrow> string \<Rightarrow> string \<Rightarrow> (string, Deployment) gomap \<Rightarrow> 'w \<Rightarrow> string option \<times> 'w" where
  "find_by_selector c podName namespace [] w = (None, w)"
| "find_by_selector c podName namespace ((deploymentName, deployment) # rest) w =
     (case cl_LabelSelectorAsSelector c (dp_Selector deployment) of
        Inl _ \<Rightarrow> find_by_selector c podName namespace rest w
      | Inr selector \<Rightarrow>
          (case cl_ListPods c namespace selector w of
             (Inl _, w') \<Rightarrow> find_by_selector c podName namespace rest w'
           | (Inr pods, w') \<Rightarrow>
               if podName \<in> set pods then (Some deploymentName, w')
               else find_by_selector c podName namespace rest w'))"

definition has_prefix :: "string \<Rightarrow> string \<Rightarrow> bool" where
  "has_prefix s p \<longleftrightarrow> take (length p) s = p"

definition prefix_step :: "string \<Rightarrow> string \<times> nat \<Rightarrow> string \<Rightarrow> string \<times> nat" where
  "prefix_step podName st deploymentName =
     (let (matchedDeployment, maxPrefixLen) = st; prefix = deploymentName @ ''-''
      in if has_prefix podName prefix \<and> length prefix > maxPrefixLen then (deploymentName, length prefix)
         else (matchedDeployment, maxPrefixLen))"

definition findDeploymentForPod ::
  "'w Client option \<Rightarrow> string \<Rightarrow> string \<Rightarrow> (string, Deployment) gomap \<Rightarrow> 'w \<Rightarrow> string \<times> 'w" where
  "findDeploymentForPod k8sClient podName namespace deployments w =
     (let (found, w) = (case k8sClient of None \<Rightarrow> (None, w) | Some c \<Rightarrow> find_by_selector c podName namespace deployments w)
      in case found of
           Some deploymentName \<Rightarrow> (deploymentName, w)
         | None \<Rightarrow> (fst (foldl (prefix_step podName) ('''', 0) (map fst deployments)), w))"

definition podSet :: "(string, gofloat) gomap \<Rightarrow> (string, int) gomap \<Rightarrow> (string, bool) gomap" where
  "podSet kvMetrics queueMetrics =
     foldl (\<lambda>m pod. mput pod True m) (foldl (\<lambda>m pod. mput pod True m) [] (map fst kvMetrics)) (map fst queueMetrics)"

text \<open>The record of one pod, once its variant is known.\<close>

definition replica_metric ::
  "(string, gofloat) gomap \<Rightarrow> (string, int) gomap \<Rightarrow> string \<Rightarrow> string \<Rightarrow>
   (string, VariantAutoscaling) gomap \<Rightarrow> (string, gofloat) gomap \<Rightarrow> string \<Rightarrow> string \<Rightarrow> ReplicaMetrics" where
  "replica_metric kvMetrics queueMetrics modelID namespace variantAutoscalings variantCosts podName variantName =
     \<lparr>rm_PodName = podName, rm_KvCacheUsage = mget0 (Fin 0) kvMetrics podName,
      rm_QueueLength = mget0 0 queueMetrics podName, rm_VariantName = variantName,
      rm_Namespace = namespace, rm_ModelID = modelID,
      rm_AcceleratorName =
        (case mget variantAutoscalings variantName of
           None \<Rightarrow> '''' | Some va \<Rightarrow> mget0 '''' (wa_Labels va) acceleratorLabel),
      rm_Cost = mget0 (Fin 10) variantCosts variantName\<rparr>"

definition mergeMetrics ::
  "'w Client option \<Rightarrow> (string, gofloat) gomap \<Rightarrow> (string, int) gomap \<Rightarrow> string \<Rightarrow> string \<Rightarrow>
   (string, Deployment) gomap \<Rightarrow> (string, VariantAutoscaling) gomap \<Rightarrow> (string, gofloat) gomap \<Rightarrow> 'w \<Rightarrow>
   ReplicaMetrics list \<times> 'w" where
  "mergeMetrics k8sClient kvMetrics queueMetrics modelID namespace deployments variantAutoscalings variantCosts w =
     foldl (\<lambda>(replicaMetrics, w) podName.
         let (variantName, w) = findDeploymentForPod k8sClient podName namespace deployments w
         in if variantName = '''' then (replicaMetrics, w)
            else (replicaMetrics @ [replica_metric kvMetrics queueMetrics modelID namespace variantAutoscalings
                    variantCosts podName variantName], w))
       ([], w) (map fst (podSet kvMetrics queueMetrics))"

text \<open>The two queries run in parallel; \<open>kvFirst\<close> says which of them the server sees first.\<close>

definition query_both ::
  "bool \<Rightarrow> ('w \<Rightarrow> 'a \<times> 'w) \<Rightarrow> ('w \<Rightarrow> 'b \<times> 'w) \<Rightarrow> 'w \<Rightarrow> ('a \<times> 'b) \<times> 'w" where
  "query_both kvFirst f g w =
     (if kvFirst then let (a, w) = f w; (b, w) = g w in ((a, b), w)
      else let (b, w) = g w; (a, w) = f w in ((a, b), w))"

definition CollectReplicaMetrics ::
  "bool \<Rightarrow> 'w Prom \<Rightarrow> 'w Client option \<Rightarrow> Time option \<Rightarrow> string \<Rightarrow> string \<Rightarrow> (string, Deployment) gomap \<Rightarrow>
   (string, VariantAutoscaling) gomap \<Rightarrow> (string, gofloat) gomap \<Rightarrow> 'w \<Rightarrow> (message + ReplicaMetrics list) \<times> 'w" where
  "CollectReplicaMetrics kvFirst prom k8sClient ctx modelID namespace deployments variantAutoscalings variantCosts w =
     (let (((kvMetrics, kvErr), (queueMetrics, queueErr)), w) =
            query_both kvFirst (queryKvCacheMetrics prom ctx modelID namespace) (queryQueueMetrics prom ctx modelID namespace) w
      in case kvErr of
           Some err \<Rightarrow> (Inl (sprintf ''failed to query KV cache metrics: %w'' [FMsg err]), w)
         | None \<Rightarrow>
             (case queueErr of
                Some err \<Rightarrow> (Inl (sprintf ''failed to query queue metrics: %w'' [FMsg err]), w)
              | None \<Rightarrow>
                  let (replicaMetrics, w) = mergeMetrics k8sClient kvMetrics queueMetrics modelID namespace deployments
                        variantAutoscalings variantCosts w
                  in (Inr replicaMetrics, w)))"

section \<open>The metrics of a variant's current allocation\<close>

definition FixValue :: "gofloat \<Rightarrow> gofloat" where
  "FixValue x = (if x = NaN \<or> isInf x then Fin 0 else x)"

definition queryAndExtractMetric ::
  "'w Prom \<Rightarrow> Time option \<Rightarrow> string \<Rightarrow> string \<Rightarrow> 'w \<Rightarrow> (message + gofloat) \<times> 'w" where
  "queryAndExtractMetric prom ctx query metricName w =
     (let (res, w) = pm_Query prom ctx query (pm_Now prom w) w
      in case res of
           Inl err \<Rightarrow> (Inl (sprintf ''failed to query Prometheus for %s: %w'' [FStr metricName, FMsg err]), w)
         | Inr (Vector (s # _)) \<Rightarrow> (Inr (FixValue (sm_Value s)), w)
         | Inr _ \<Rightarrow> (Inr (Fin 0), w))"

record MetricsValidationResult =
  mvr_Available :: bool
  mvr_Reason :: string
  mvr_Message :: message

definition label_match :: "string \<Rightarrow> string \<Rightarrow> string" where
  "label_match label val = label @ ''='' @ [dquote] @ val @ [dquote]"

text \<open>The check of the age of every sample, in order.\<close>

fun check_stale :: "string \<Rightarrow> Time \<Rightarrow> Sample list \<Rightarrow> MetricsValidationResult" where
  "check_stale modelName now [] =
     \<lparr>mvr_Available = True, mvr_Reason = ReasonMetricsFound,
      mvr_Message = sprintf ''vLLM metrics are available and up-to-date'' []\<rparr>"
| "check_stale modelName now (s # rest) =
     (if now - sm_Timestamp s > 5 * Minute
      then \<lparr>mvr_Available = False, mvr_Reason = ReasonMetricsStale,
        mvr_Message = sprintf ''vLLM metrics for model '%s' are stale (last update: %v ago). ServiceMonitor may not be scraping correctly.''
          [FStr modelName, FInt (now - sm_Timestamp s)]\<rparr>
      else check_stale modelName now rest)"

definition prometheus_error :: "message \<Rightarrow> MetricsValidationResult" where
  "prometheus_error err = \<lparr>mvr_Available = False, mvr_Reason = ReasonPrometheusError,
     mvr_Message = sprintf ''Failed to query Prometheus: %v'' [FMsg err]\<rparr>"

definition metrics_missing :: "string \<Rightarrow> string \<Rightarrow> string \<Rightarrow> MetricsValidationResult" where
  "metrics_missing hint modelName namespace = \<lparr>mvr_Available = False, mvr_Reason = ReasonMetricsMissing,
     mvr_Message = sprintf (''No vLLM metrics found for model '%s' in namespace '%s'. '' @ hint)
       [FStr modelName, FStr namespace]\<rparr>"

definition availability_query :: "string \<Rightarrow> string \<Rightarrow> string" where
  "availability_query modelName namespace = VLLMNumRequestRunning @ ''{'' @ label_match ''model_name'' modelName @ '','' @
     label_match ''namespace'' namespace @ ''}''"

definition ValidateMetricsAvailability ::
  "'w Prom \<Rightarrow> Time option \<Rightarrow> string \<Rightarrow> string \<Rightarrow> 'w \<Rightarrow> MetricsValidationResult \<times> 'w" where
  "ValidateMetricsAvailability prom ctx modelName namespace w =
     (let testQuery = availability_query modelName namespace;
          (res, w) = pm_Query prom ctx testQuery (pm_Now prom w) w
      in case res of
           Inl err \<Rightarrow> (prometheus_error err, w)
         | Inr OtherValue \<Rightarrow>
             (metrics_missing ''Check ServiceMonitor configuration and ensure vLLM pods are exposing /metrics endpoint''
                modelName namespace, w)
         | Inr (Vector (s # rest)) \<Rightarrow> (check_stale modelName (pm_Now prom w) (s # rest), w)
         | Inr (Vector []) \<Rightarrow>
             let testQueryFallback = VLLMNumRequestRunning @ ''{'' @ label_match ''model_name'' modelName @ ''}'';
                 (res, w) = pm_Query prom ctx testQueryFallback (pm_Now prom w) w
             in (case res of
                   Inl err \<Rightarrow> (prometheus_error err, w)
                 | Inr (Vector (s # rest)) \<Rightarrow> (check_stale modelName (pm_Now prom w) (s # rest), w)
                 | Inr _ \<Rightarrow>
                     (metrics_missing (''Check: (1) ServiceMonitor exists in monitoring namespace, (2) ServiceMonitor selector '' @
                        ''matches vLLM service labels, (3) vLLM pods are running and exposing /metrics endpoint, '' @
                        ''(4) Prometheus is scraping the monitoring namespace'') modelName namespace, w)))"

definition rate_sum :: "string \<Rightarrow> string \<Rightarrow> string \<Rightarrow> string" where
  "rate_sum metric modelName namespace =
     ''sum(rate('' @ metric @ ''{'' @ label_match LabelModelName modelName @ '','' @ label_match LabelNamespace namespace @ ''}[1m]))''"

definition rate_ratio :: "string \<Rightarrow> string \<Rightarrow> string \<Rightarrow> string \<Rightarrow> string" where
  "rate_ratio num den modelName namespace = rate_sum num modelName namespace @ ''/'' @ rate_sum den modelName namespace"

text \<open>Queries one after the other, up to the first error.\<close>

fun query_all ::
  "'w Prom \<Rightarrow> Time option \<Rightarrow> (string \<times> string) list \<Rightarrow> 'w \<Rightarrow> (message + gofloat list) \<times> 'w" where
  "query_all prom ctx [] w = (Inr [], w)"
| "query_all prom ctx ((query, metricName) # rest) w =
     (case queryAndExtractMetric prom ctx query metricName w of
        (Inl err, w) \<Rightarrow> (Inl err, w)
      | (Inr x, w) \<Rightarrow> (case query_all prom ctx rest w of (Inl err, w) \<Rightarrow> (Inl err, w) | (Inr xs, w) \<Rightarrow> (Inr (x # xs), w)))"

definition opt_queries :: "string \<Rightarrow> string \<Rightarrow> (string \<times> string) list" where
  "opt_queries modelName ns =
     [(rate_sum VLLMRequestSuccessTotal modelName ns, ''ArrivalRate''),
      (rate_ratio VLLMRequestPromptTokensSum VLLMRequestPromptTokensCount modelName ns, ''AvgInputTokens''),
      (rate_ratio VLLMRequestGenerationTokensSum VLLMRequestGenerationTokensCount modelName ns, ''AvgOutputTokens''),
      (rate_ratio VLLMTimeToFirstTokenSecondsSum VLLMTimeToFirstTokenSecondsCount modelName ns, ''TTFTAverageTime''),
      (rate_ratio VLLMTimePerOutputTokenSecondsSum VLLMTimePerOutputTokenSecondsCount modelName ns, ''ITLAverage'')]"

text \<open>\<open>None\<close> is the panic of the dereference of \<^verbatim>\<open>deployment.Spec.Replicas\<close> when it is nil.\<close>

definition AddMetricsToOptStatus ::
  "'w Prom \<Rightarrow> Time option \<Rightarrow> VariantAutoscaling \<Rightarrow> Deployment \<Rightarrow> gofloat \<Rightarrow> 'w \<Rightarrow>
   ((message + CrAllocation) \<times> 'w) option" where
  "AddMetricsToOptStatus prom ctx opt deployment acceleratorCostVal w =
     (let (res, w) = query_all prom ctx (opt_queries (vsp_ModelID (wa_Spec opt)) (dp_Namespace deployment)) w
      in case res of
           Inr [arrivalVal, avgInputTokens, avgOutputTokens, ttftAverageTime, itlAverage] \<Rightarrow>
             (case dp_SpecReplicas deployment of
                None \<Rightarrow> None
              | Some replicas \<Rightarrow>
                  let acc = mget0 '''' (wa_Labels opt) acceleratorLabel
                  in if acc = '''' then
                       Some (Inl (sprintf ''missing or empty acceleratorName label on VariantAutoscaling object: %s''
                         [FStr (wa_Name opt)]), w)
                     else
                       Some (Inr \<lparr>cr_Accelerator = acc, cr_NumReplicas = replicas, cr_MaxBatch = 256,
                         cr_VariantCost = FormatFloat2 (float_of_int replicas * acceleratorCostVal),
                         cr_ITLAverage = FormatFloat2 (itlAverage * Fin 1000),
                         cr_TTFTAverage = FormatFloat2 (ttftAverageTime * Fin 1000),
                         cr_Load = \<lparr>lp_ArrivalRate = FormatFloat2 (arrivalVal * Fin 60),
                           lp_AvgInputTokens = FormatFloat2 avgInputTokens,
                           lp_AvgOutputTokens = FormatFloat2 avgOutputTokens\<rparr>\<rparr>, w))
         | Inr _ \<Rightarrow> None
         | Inl err \<Rightarrow> Some (Inl err, w))"

section \<open>Queries\<close>

text \<open>How PromQL reads a string literal after its opening quote: up to the next quote that no backslash
  escapes. The result is the text it denotes and the rest of the query.\<close>

fun read_literal :: "string \<Rightarrow> (string \<times> string) option" where
  "read_literal [] = None"
| "read_literal (c # cs) =
     (if c = dquote then Some ([], cs)
      else if c = backslash then
        (case cs of [] \<Rightarrow> None
         | d # ds \<Rightarrow> if d = backslash \<or> d = dquote
             then map_option (\<lambda>(v, r). (d # v, r)) (read_literal ds) else None)
      else map_option (\<lambda>(v, r). (c # v, r)) (read_literal cs))"

lemma escape_Nil [simp]: "escapePrometheusLabelValue [] = []"
  by (simp add: escapePrometheusLabelValue_def replace_all_def)

lemma escape_Cons [simp]:
  "escapePrometheusLabelValue (c # v) =
     (if c = backslash then [backslash, backslash] else if c = dquote then [backslash, dquote] else [c]) @
     escapePrometheusLabelValue v"
  by (simp add: escapePrometheusLabelValue_def replace_all_def)

lemma read_literal_escape [simp]:
  "read_literal (escapePrometheusLabelValue v @ dquote # rest) = Some (v, rest)"
  by (induction v) simp_all

text \<open>C37: the queries for the capacity metrics carry the namespace and the model as they are: read as
  PromQL reads string literals, the two label values are exactly these texts, whatever quotes and
  backslashes they contain, and what follows them is the query's own text; so the query identifies
  the namespace and the model. The availability query does not escape its values: two different
  pairs give the same query.\<close>

theorem queries_identify_model:
  "(\<exists>q1 q2. peak_query metric namespace modelID = ''max by (pod) (max_over_time('' @ metric @ ''{namespace='' @ dquote # q1 \<and>
      read_literal q1 = Some (namespace, '',model_name='' @ dquote # q2) \<and>
      read_literal q2 = Some (modelID, ''}[1m]))'')) \<and>
   (peak_query metric namespace modelID = peak_query metric namespace' modelID' \<longleftrightarrow>
      namespace = namespace' \<and> modelID = modelID') \<and>
   (\<exists>m m' n n'. m \<noteq> m' \<and> availability_query m n = availability_query m' n')"
proof (intro conjI)
  let ?e = escapePrometheusLabelValue
  have split: "peak_query metric namespace modelID = ''max by (pod) (max_over_time('' @ metric @ ''{namespace='' @
      dquote # (?e namespace @ dquote # '',model_name='' @ dquote # (?e modelID @ dquote # ''}[1m]))''))" for namespace modelID
    by (simp add: peak_query_def)
  show "\<exists>q1 q2. peak_query metric namespace modelID = ''max by (pod) (max_over_time('' @ metric @ ''{namespace='' @ dquote # q1 \<and>
      read_literal q1 = Some (namespace, '',model_name='' @ dquote # q2) \<and>
      read_literal q2 = Some (modelID, ''}[1m]))'')"
    by (rule exI [of _ "?e namespace @ dquote # '',model_name='' @ dquote # (?e modelID @ dquote # ''}[1m]))'')"],
        rule exI [of _ "?e modelID @ dquote # ''}[1m]))''"]) (simp only: split read_literal_escape simp_thms)
  show "peak_query metric namespace modelID = peak_query metric namespace' modelID' \<longleftrightarrow>
      namespace = namespace' \<and> modelID = modelID'"
  proof
    assume "peak_query metric namespace modelID = peak_query metric namespace' modelID'"
    then have eq: "?e namespace @ dquote # '',model_name='' @ dquote # (?e modelID @ dquote # ''}[1m]))'') =
        ?e namespace' @ dquote # '',model_name='' @ dquote # (?e modelID' @ dquote # ''}[1m]))'')"
      unfolding split by simp
    from arg_cong [OF this, of read_literal] have n: "namespace = namespace'" by simp
    with eq have "?e modelID @ dquote # ''}[1m]))'' = ?e modelID' @ dquote # ''}[1m]))''" by simp
    from arg_cong [OF this, of read_literal] n show "namespace = namespace' \<and> modelID = modelID'" by simp
  qed simp
  have "''a'' \<noteq> ''a'' @ [dquote] @ '',namespace='' @ [dquote] @ ''b'' \<and>
      availability_query ''a'' (''b'' @ [dquote] @ '',namespace='' @ [dquote] @ ''c'') =
      availability_query (''a'' @ [dquote] @ '',namespace='' @ [dquote] @ ''b'') ''c''"
    by (simp add: availability_query_def label_match_def)
  then show "\<exists>m m' n n'. m \<noteq> m' \<and> availability_query m n = availability_query m' n'" by blast
qed

text \<open>A query never outlives its caller. Its deadline is at most the caller's and at most five
  seconds (the timeout asked for) away; when the caller has between 101 milliseconds and the timeout
  left, the query ends 100 milliseconds before the caller's deadline; and it always has a millisecond,
  unless the caller's deadline comes first.\<close>

lemma query_deadline_respected:
  assumes "Millisecond \<le> timeout"
  shows "let d = contextWithRespectedDeadline parent now timeout
    in d \<le> now + timeout \<and>
      (case parent of None \<Rightarrow> d = now + timeout
       | Some p \<Rightarrow> d \<le> p \<and> min p (now + Millisecond) \<le> d \<and>
           (101 * Millisecond \<le> p - now \<and> p - now < timeout \<longrightarrow> d = p - 100 * Millisecond) \<and>
           (timeout \<le> p - now \<longrightarrow> d = now + timeout))"
  using assms
  by (auto simp: contextWithRespectedDeadline_def Let_def Millisecond_def min_def split: option.splits)

section \<open>Attribution of pods\<close>

definition matches_name :: "string \<Rightarrow> string \<Rightarrow> bool" where
  "matches_name pod d \<longleftrightarrow> has_prefix pod (d @ ''-'')"

lemma matches_name_unique:
  "matches_name pod d \<Longrightarrow> matches_name pod e \<Longrightarrow> length d = length e \<Longrightarrow> d = e"
  by (simp add: matches_name_def has_prefix_def)

text \<open>The fallback keeps the longest name seen so far.\<close>

lemma prefix_fold:
  assumes "foldl (prefix_step pod) ('''', 0) ds = (m, k)"
  shows "(k = 0 \<longrightarrow> m = '''' \<and> (\<forall>d\<in>set ds. \<not> matches_name pod d)) \<and>
    (k \<noteq> 0 \<longrightarrow> m \<in> set ds \<and> matches_name pod m \<and> k = Suc (length m) \<and>
      (\<forall>d\<in>set ds. matches_name pod d \<longrightarrow> length d \<le> length m))"
  using assms
proof (induction ds arbitrary: m k rule: rev_induct)
  case (snoc d ds)
  obtain m0 k0 where f: "foldl (prefix_step pod) ('''', 0) ds = (m0, k0)" by fastforce
  note IH = snoc.IH [OF f]
  show ?case
  proof (cases "matches_name pod d \<and> k0 < Suc (length d)")
    case True
    then have "prefix_step pod (m0, k0) d = (d, Suc (length d))"
      by (simp add: prefix_step_def matches_name_def)
    then have "m = d" "k = Suc (length d)" using snoc.prems f by auto
    with True IH show ?thesis by (cases "k0 = 0") auto
  next
    case False
    then have "prefix_step pod (m0, k0) d = (m0, k0)" by (auto simp: prefix_step_def matches_name_def Let_def)
    then have "m = m0" "k = k0" using snoc.prems f by simp_all
    with False IH show ?thesis by (cases "k0 = 0") auto
  qed
qed simp

definition fallback :: "string \<Rightarrow> string list \<Rightarrow> string" where
  "fallback pod ds = fst (foldl (prefix_step pod) ('''', 0) ds)"

lemma fallback_longest:
  assumes "d \<in> set ds" and "matches_name pod d"
  shows "fallback pod ds \<in> set ds \<and> matches_name pod (fallback pod ds) \<and>
    (\<forall>e\<in>set ds. matches_name pod e \<longrightarrow> length e \<le> length (fallback pod ds))"
proof -
  obtain m k where f: "foldl (prefix_step pod) ('''', 0) ds = (m, k)" by fastforce
  with prefix_fold [OF f] assms have "k \<noteq> 0" by auto
  with prefix_fold [OF f] show ?thesis by (simp add: fallback_def f)
qed

lemma fallback_none: "\<forall>d\<in>set ds. \<not> matches_name pod d \<Longrightarrow> fallback pod ds = ''''"
proof -
  assume *: "\<forall>d\<in>set ds. \<not> matches_name pod d"
  obtain m k where f: "foldl (prefix_step pod) ('''', 0) ds = (m, k)" by fastforce
  with prefix_fold [OF f] * show ?thesis by (cases "k = 0") (auto simp: fallback_def f)
qed

lemma fallback_order:
  assumes "set ds = set es"
  shows "fallback pod ds = fallback pod es"
proof (cases "\<exists>d\<in>set ds. matches_name pod d")
  case True
  then obtain d where d: "d \<in> set ds" "matches_name pod d" by blast
  have "fallback pod ds \<in> set ds" "matches_name pod (fallback pod ds)" "fallback pod es \<in> set es"
      "matches_name pod (fallback pod es)"
    using fallback_longest [OF d] fallback_longest [of d es] d assms by auto
  moreover from this have "length (fallback pod ds) = length (fallback pod es)"
    using fallback_longest [OF d] fallback_longest [of d es] d assms by (metis le_antisym)
  ultimately show ?thesis by (metis matches_name_unique)
next
  case False
  with assms fallback_none [of ds] fallback_none [of es] show ?thesis by simp
qed

lemma findDeploymentForPod_fallback:
  "findDeploymentForPod None pod ns ds w = (fallback pod (map fst ds), w)"
  by (simp add: findDeploymentForPod_def fallback_def)

text \<open>What the selectors find was listed for the deployment found, whatever the API answers.\<close>

lemma find_by_selector_listed:
  "find_by_selector c pod ns ds w = (Some d, w') \<Longrightarrow>
    \<exists>dep sel pods v. (d, dep) \<in> set ds \<and> cl_LabelSelectorAsSelector c (dp_Selector dep) = Inr sel \<and>
      cl_ListPods c ns sel v = (Inr pods, w') \<and> pod \<in> set pods"
proof (induction c pod ns ds w rule: find_by_selector.induct)
  case (2 c pod ns n dep ds w)
  show ?case
  proof (cases "cl_LabelSelectorAsSelector c (dp_Selector dep)")
    case (Inl e)
    with 2 show ?thesis by fastforce
  next
    case (Inr sel)
    obtain r v where l: "cl_ListPods c ns sel w = (r, v)" by fastforce
    show ?thesis
    proof (cases "\<exists>pods. r = Inr pods \<and> pod \<in> set pods")
      case True
      with 2(4) Inr l show ?thesis by (auto intro!: exI [of _ sel] exI [of _ dep]) blast
    next
      case False
      have rest: "find_by_selector c pod ns ds v = (Some d, w')"
        using 2(4) Inr l False by (cases r) auto
      have "\<exists>dep sel pods v. (d, dep) \<in> set ds \<and> cl_LabelSelectorAsSelector c (dp_Selector dep) = Inr sel \<and>
          cl_ListPods c ns sel v = (Inr pods, w') \<and> pod \<in> set pods"
      proof (cases r)
        case (Inl e) then show ?thesis using 2(2) [OF Inr l [symmetric]] rest l by simp
      next
        case (Inr pods) then show ?thesis
          using 2(3) [OF \<open>cl_LabelSelectorAsSelector c (dp_Selector dep) = Inr sel\<close> l [symmetric]] rest False by simp
      qed
      then show ?thesis by fastforce
    qed
  qed
qed simp



section \<open>The collected metrics\<close>

lemma podSet_keys: "fst ` set (podSet kv q) = fst ` set kv \<union> fst ` set q"
proof -
  have "fst ` set (foldl (\<lambda>m pod. mput pod True m) m ps) = fst ` set m \<union> set ps"
    for m :: "(string, bool) gomap" and ps
    by (induction ps arbitrary: m) (simp_all add: keys_put)
  then show ?thesis by (auto simp: podSet_def)
qed

lemma podSet_wf: "wf_map (podSet kv q)"
proof -
  have "wf_map m \<Longrightarrow> wf_map (foldl (\<lambda>m pod. mput pod True m) m ps)" for m :: "(string, bool) gomap" and ps
    by (induction ps arbitrary: m) simp_all
  then show ?thesis by (simp add: podSet_def)
qed

lemma subseq_set_subset: "subseq xs ys \<Longrightarrow> set xs \<subseteq> set ys"
  by (auto dest: list_emb_set)

lemma subseq_distinct: "subseq xs ys \<Longrightarrow> distinct ys \<Longrightarrow> distinct xs"
  by (induction rule: list_emb.induct) (use subseq_set_subset in auto)

lemma mergeMetrics_prefix:
  assumes "foldl (\<lambda>(rs, w) p. let (v, w) = f p w in if v = '''' then (rs, w) else (rs @ [g p v], w)) (rs0, w) ps = (rs, w')"
  shows "\<exists>qs. rs = rs0 @ map (\<lambda>(p, v). g p v) qs \<and> subseq (map fst qs) ps \<and>
    (\<forall>(p, v)\<in>set qs. v \<noteq> '''' \<and> (\<exists>u u'. f p u = (v, u')))"
  using assms
proof (induction ps arbitrary: rs0 w)
  case (Cons p ps)
  obtain v u where f: "f p w = (v, u)" by fastforce
  show ?case
  proof (cases "v = ''''")
    case True
    with Cons.prems f have "foldl (\<lambda>(rs, w) p. let (v, w) = f p w in if v = '''' then (rs, w) else (rs @ [g p v], w)) (rs0, u) ps = (rs, w')"
      by simp
    from Cons.IH [OF this] show ?thesis by (auto intro: list_emb_Cons)
  next
    case False
    with Cons.prems f have "foldl (\<lambda>(rs, w) p. let (v, w) = f p w in if v = '''' then (rs, w) else (rs @ [g p v], w))
        (rs0 @ [g p v], u) ps = (rs, w')"
      by simp
    from Cons.IH [OF this] obtain qs where qs: "rs = (rs0 @ [g p v]) @ map (\<lambda>(p, v). g p v) qs" "subseq (map fst qs) ps"
        "\<forall>(p, v)\<in>set qs. v \<noteq> '''' \<and> (\<exists>u u'. f p u = (v, u'))" by blast
    show ?thesis by (rule exI [of _ "(p, v) # qs"]) (use qs f False in auto)
  qed
qed auto

lemma mergeMetrics_records:
  assumes "mergeMetrics k8s kv q modelID ns deployments vas costs w = (rs, w')"
  shows "distinct (map rm_PodName rs) \<and> rm_PodName ` set rs \<subseteq> fst ` set kv \<union> fst ` set q \<and>
    (\<forall>r\<in>set rs. rm_VariantName r \<noteq> '''' \<and>
       (\<exists>u u'. findDeploymentForPod k8s (rm_PodName r) ns deployments u = (rm_VariantName r, u')) \<and>
       rm_KvCacheUsage r = mget0 (Fin 0) kv (rm_PodName r) \<and> rm_QueueLength r = mget0 0 q (rm_PodName r) \<and>
       rm_Cost r = mget0 (Fin 10) costs (rm_VariantName r) \<and> rm_ModelID r = modelID \<and> rm_Namespace r = ns)"
proof -
  let ?g = "replica_metric kv q modelID ns vas costs"
  obtain qs where rs: "rs = map (\<lambda>(p, v). ?g p v) qs" and sub: "subseq (map fst qs) (map fst (podSet kv q))"
      and ok: "\<forall>(p, v)\<in>set qs. v \<noteq> '''' \<and> (\<exists>u u'. findDeploymentForPod k8s p ns deployments u = (v, u'))"
    using mergeMetrics_prefix [where f = "\<lambda>p. findDeploymentForPod k8s p ns deployments" and g = ?g and ?rs0.0 = "[]",
        OF assms [unfolded mergeMetrics_def]] by auto
  have pods: "map rm_PodName rs = map fst qs" by (auto simp: rs replica_metric_def)
  have "distinct (map fst qs)" using sub podSet_wf subseq_distinct unfolding wf_map_def by blast
  moreover have "set (map fst qs) \<subseteq> fst ` set kv \<union> fst ` set q"
    using subseq_set_subset [OF sub] podSet_keys [of kv q] by simp
  moreover have "\<forall>r\<in>set rs. rm_VariantName r \<noteq> '''' \<and>
       (\<exists>u u'. findDeploymentForPod k8s (rm_PodName r) ns deployments u = (rm_VariantName r, u')) \<and>
       rm_KvCacheUsage r = mget0 (Fin 0) kv (rm_PodName r) \<and> rm_QueueLength r = mget0 0 q (rm_PodName r) \<and>
       rm_Cost r = mget0 (Fin 10) costs (rm_VariantName r) \<and> rm_ModelID r = modelID \<and> rm_Namespace r = ns"
    using ok by (auto simp: rs replica_metric_def)
  ultimately show ?thesis using pods by (metis list.set_map)
qed



text \<open>The pattern the resource definition demands of the recorded numbers: digits, then optionally a point
  and digits.\<close>

definition crd_number :: "string \<Rightarrow> bool" where
  "crd_number s \<longleftrightarrow> takeWhile is_digit s \<noteq> [] \<and>
     (case dropWhile is_digit s of [] \<Rightarrow> True
      | c # r \<Rightarrow> c = CHR ''.'' \<and> r \<noteq> [] \<and> list_all is_digit r)"

lemma crd_number_FormatFloat2: "0 \<le> x \<Longrightarrow> crd_number (FormatFloat2 (Fin x))"
proof -
  assume x: "0 \<le> x"
  define n where "n = nat (round_half_even (100 * \<bar>x\<bar>))"
  have "FormatFloat2 (Fin x) = nat_digits (n div 100) @ CHR ''.'' # [digit_char (n div 10 mod 10), digit_char (n mod 10)]"
    using x by (simp add: FormatFloat2_def fixed2_def n_def)
  moreover note takeWhile_digits [of "nat_digits (n div 100)" "CHR ''.''"
      "[digit_char (n div 10 mod 10), digit_char (n mod 10)]", OF nat_digits_digits]
  ultimately show ?thesis by (simp add: crd_number_def)
qed

lemma FixValue_finite: "is_fin (FixValue x)"
  by (cases x) (simp_all add: FixValue_def)

lemma query_all_length:
  "query_all prom ctx qs w = (Inr xs, w') \<Longrightarrow> length xs = length qs"
proof (induction qs arbitrary: w xs w')
  case (Cons a qs)
  then show ?case by (cases a) (auto split: prod.splits sum.splits)
qed simp

text \<open>Every value a query reports for the first sample is finite; it is non-negative if the server's is.\<close>

lemma queryAndExtract_value:
  assumes "queryAndExtractMetric prom ctx q n w = (Inr x, w')"
    and "\<forall>q t v. case fst (pm_Query prom ctx q t v) of Inr (Vector (s # _)) \<Rightarrow> \<not> sm_Value s < Fin 0 | _ \<Rightarrow> True"
  shows "\<exists>r. x = Fin r \<and> 0 \<le> r"
proof -
  obtain res u where q: "pm_Query prom ctx q (pm_Now prom w) w = (res, u)" by fastforce
  have nn: "case res of Inr (Vector (s # _)) \<Rightarrow> \<not> sm_Value s < Fin 0 | _ \<Rightarrow> True"
    using assms(2) [rule_format, of q "pm_Now prom w" w] q by simp
  consider "x = Fin 0" | s ss where "res = Inr (Vector (s # ss))" "x = FixValue (sm_Value s)"
    using assms(1) q unfolding queryAndExtractMetric_def
    by (auto split: sum.splits PromValue.splits list.splits)
  then show ?thesis
  proof cases
    case 2
    then have "\<not> sm_Value s < Fin 0" using nn by simp
    then show ?thesis by (cases "sm_Value s") (auto simp: 2 FixValue_def)
  qed simp
qed

lemma query_all_values:
  assumes "\<forall>q t v. case fst (pm_Query prom ctx q t v) of Inr (Vector (s # _)) \<Rightarrow> \<not> sm_Value s < Fin 0 | _ \<Rightarrow> True"
  shows "query_all prom ctx qs w = (Inr xs, w') \<Longrightarrow> \<forall>x\<in>set xs. \<exists>r. x = Fin r \<and> 0 \<le> r"
proof (induction qs arbitrary: w xs w')
  case (Cons a qs)
  obtain q n where a: "a = (q, n)" by fastforce
  obtain r1 w1 where q1: "queryAndExtractMetric prom ctx q n w = (r1, w1)" by fastforce
  obtain r2 w2 where q2: "query_all prom ctx qs w1 = (r2, w2)" by fastforce
  from Cons.prems obtain x ys where "r1 = Inr x" "r2 = Inr ys" "xs = x # ys"
    by (cases r1; cases r2) (auto simp: a q1 q2)
  with Cons.IH [of w1 ys w2] q1 q2 queryAndExtract_value [OF _ assms] show ?case by auto
qed simp

text \<open>C34: the recorded allocation is acceptable to the API server. If the deployment states a non-negative
  number of replicas, the cost is not negative and Prometheus reports no negative value (it may report
  NaN, infinities or nothing), collecting the metrics does not panic, and unless a query fails or the
  accelerator label is missing, every number of the allocation is written in the form that the resource
  definition demands.\<close>

theorem collected_status_valid:
  assumes "dp_SpecReplicas deployment = Some n" and "0 \<le> n" and "cost = Fin c" and "0 \<le> c"
    and "\<forall>q t v. case fst (pm_Query prom ctx q t v) of Inr (Vector (s # _)) \<Rightarrow> \<not> sm_Value s < Fin 0 | _ \<Rightarrow> True"
  shows "\<exists>res w'. AddMetricsToOptStatus prom ctx va deployment cost w = Some (res, w') \<and>
    (case res of Inl _ \<Rightarrow> True
     | Inr a \<Rightarrow> cr_NumReplicas a = n \<and> cr_Accelerator a \<noteq> '''' \<and>
         mget (wa_Labels va) acceleratorLabel = Some (cr_Accelerator a) \<and>
         list_all crd_number [cr_VariantCost a, cr_ITLAverage a, cr_TTFTAverage a, lp_ArrivalRate (cr_Load a),
           lp_AvgInputTokens (cr_Load a), lp_AvgOutputTokens (cr_Load a)])"
proof -
  let ?qs = "opt_queries (vsp_ModelID (wa_Spec va)) (dp_Namespace deployment)"
  obtain r w1 where q: "query_all prom ctx ?qs w = (r, w1)" by fastforce
  show ?thesis
  proof (cases r)
    case (Inl e)
    then show ?thesis by (simp add: AddMetricsToOptStatus_def q)
  next
    case (Inr xs)
    have "length xs = Suc (Suc (Suc (Suc (Suc 0))))"
      using query_all_length [of prom ctx ?qs w xs w1] q Inr by (simp add: opt_queries_def)
    then obtain a b d e f where xs: "xs = [a, b, d, e, f]" by (auto simp: length_Suc_conv)
    have "\<forall>x\<in>set xs. \<exists>r. x = Fin r \<and> 0 \<le> r" using query_all_values [OF assms(5)] q Inr by blast
    then obtain a' b' d' e' f' where v: "a = Fin a'" "b = Fin b'" "d = Fin d'" "e = Fin e'" "f = Fin f'"
        "0 \<le> a'" "0 \<le> b'" "0 \<le> d'" "0 \<le> e'" "0 \<le> f'"
      by (auto simp: xs)
    show ?thesis
      using assms(1-4) v
      by (auto simp: AddMetricsToOptStatus_def q Inr xs Let_def float_of_int_def crd_number_FormatFloat2 mget0_def
          split: option.splits)
  qed
qed

definition constant_prom :: "gofloat \<Rightarrow> Time \<Rightarrow> unit Prom" where
  "constant_prom x t =
     \<lparr>pm_Query = (\<lambda>_ _ _ w. (Inr (Vector [\<lparr>sm_Metric = [(''pod'', ''p'')], sm_Value = x, sm_Timestamp = t\<rparr>]), w)),
      pm_Now = (\<lambda>_. t)\<rparr>"

theorem collected_status_valid_witness:
  "\<exists>a w'. AddMetricsToOptStatus (constant_prom NaN 0) None (zero_VariantAutoscaling\<lparr>wa_Labels := [(acceleratorLabel, ''A100'')]\<rparr>)
     (zero_Deployment\<lparr>dp_SpecReplicas := Some 2\<rparr>) (Fin 10) () = Some (Inr a, w') \<and> cr_NumReplicas a = 2 \<and>
     crd_number (cr_VariantCost a)"
proof -
  let ?va = "zero_VariantAutoscaling\<lparr>wa_Labels := [(acceleratorLabel, ''A100'')]\<rparr>"
  let ?dep = "zero_Deployment\<lparr>dp_SpecReplicas := Some 2\<rparr>"
  have "\<exists>a w'. AddMetricsToOptStatus (constant_prom NaN 0) None ?va ?dep (Fin 10) () = Some (Inr a, w')"
    by (simp add: AddMetricsToOptStatus_def opt_queries_def queryAndExtractMetric_def constant_prom_def Let_def mget0_def)
  then show ?thesis
    using collected_status_valid [of ?dep 2 "Fin 10" 10 "constant_prom NaN 0" None ?va "()"]
    by (auto simp: constant_prom_def)
qed

end
