(* ===== verification/Wva_Parallel.thy ===== *)
theory Wva_Parallel
  imports Wva_Collector
begin

text \<open>
  The two goroutines of \<^verbatim>\<open>CollectReplicaMetrics\<close> (\<^verbatim>\<open>internal/collector/capacity_metrics.go\<close>) as a state
  machine: each queries Prometheus, takes the mutex, writes its two fields of the shared result,
  releases the mutex and reports to the wait group; the caller goes on when both have. The invariant of
  the reachable states says that the mutex is held by at most one of them, and that the fields written
  so far are what the queries returned. Every run ends, without deadlock, in the result of one of the
  two sequential orders, which is how the collector is modelled elsewhere.
\<close>

section \<open>States and steps\<close>

datatype pc = AtQuery | AtLock | AtWriteMetrics | AtWriteErr | AtUnlock | Finished

datatype goroutine = KvQuery | QueueQuery

record ('w, 'a, 'b) collect_state =
  c_pc :: "goroutine \<Rightarrow> pc"
  c_mutex :: "goroutine option"
  c_kv :: "'a \<times> message option"
  c_queue :: "'b \<times> message option"
  c_kvMetrics :: 'a
  c_kvErr :: "message option"
  c_queueMetrics :: 'b
  c_queueErr :: "message option"
  c_world :: 'w

text \<open>The zero values of the result; the local variables of the goroutines have no value before the query.\<close>

definition collect_init :: "'a \<Rightarrow> 'b \<Rightarrow> 'w \<Rightarrow> ('w, 'a, 'b) collect_state" where
  "collect_init za zb w = \<lparr>c_pc = (\<lambda>_. AtQuery), c_mutex = None, c_kv = (za, None), c_queue = (zb, None),
     c_kvMetrics = za, c_kvErr = None, c_queueMetrics = zb, c_queueErr = None, c_world = w\<rparr>"

inductive collect_step ::
  "('w \<Rightarrow> ('a \<times> message option) \<times> 'w) \<Rightarrow> ('w \<Rightarrow> ('b \<times> message option) \<times> 'w) \<Rightarrow>
   ('w, 'a, 'b) collect_state \<Rightarrow> ('w, 'a, 'b) collect_state \<Rightarrow> bool"
  for f :: "'w \<Rightarrow> ('a \<times> message option) \<times> 'w" and g :: "'w \<Rightarrow> ('b \<times> message option) \<times> 'w" where
  kv_query: "c_pc s KvQuery = AtQuery \<Longrightarrow> f (c_world s) = (r, w) \<Longrightarrow>
     collect_step f g s (s\<lparr>c_pc := (c_pc s)(KvQuery := AtLock), c_kv := r, c_world := w\<rparr>)"
| queue_query: "c_pc s QueueQuery = AtQuery \<Longrightarrow> g (c_world s) = (q, w) \<Longrightarrow>
     collect_step f g s (s\<lparr>c_pc := (c_pc s)(QueueQuery := AtLock), c_queue := q, c_world := w\<rparr>)"
| lock: "c_pc s t = AtLock \<Longrightarrow> c_mutex s = None \<Longrightarrow>
     collect_step f g s (s\<lparr>c_pc := (c_pc s)(t := AtWriteMetrics), c_mutex := Some t\<rparr>)"
| kv_metrics: "c_pc s KvQuery = AtWriteMetrics \<Longrightarrow>
     collect_step f g s (s\<lparr>c_pc := (c_pc s)(KvQuery := AtWriteErr), c_kvMetrics := fst (c_kv s)\<rparr>)"
| queue_metrics: "c_pc s QueueQuery = AtWriteMetrics \<Longrightarrow>
     collect_step f g s (s\<lparr>c_pc := (c_pc s)(QueueQuery := AtWriteErr), c_queueMetrics := fst (c_queue s)\<rparr>)"
| kv_err: "c_pc s KvQuery = AtWriteErr \<Longrightarrow>
     collect_step f g s (s\<lparr>c_pc := (c_pc s)(KvQuery := AtUnlock), c_kvErr := snd (c_kv s)\<rparr>)"
| queue_err: "c_pc s QueueQuery = AtWriteErr \<Longrightarrow>
     collect_step f g s (s\<lparr>c_pc := (c_pc s)(QueueQuery := AtUnlock), c_queueErr := snd (c_queue s)\<rparr>)"
| unlock: "c_pc s t = AtUnlock \<Longrightarrow>
     collect_step f g s (s\<lparr>c_pc := (c_pc s)(t := Finished), c_mutex := None\<rparr>)"

definition collect_done :: "('w, 'a, 'b) collect_state \<Rightarrow> bool" where
  "collect_done s \<longleftrightarrow> c_pc s KvQuery = Finished \<and> c_pc s QueueQuery = Finished"

section \<open>The invariant\<close>

definition holds_mutex :: "pc \<Rightarrow> bool" where
  "holds_mutex p \<longleftrightarrow> p \<in> {AtWriteMetrics, AtWriteErr, AtUnlock}"

definition mutex_inv :: "('w, 'a, 'b) collect_state \<Rightarrow> bool" where
  "mutex_inv s \<longleftrightarrow> (\<forall>t. holds_mutex (c_pc s t) \<longleftrightarrow> c_mutex s = Some t)"

text \<open>The queries made so far, in one of the two orders.\<close>

definition query_inv ::
  "('w \<Rightarrow> ('a \<times> message option) \<times> 'w) \<Rightarrow> ('w \<Rightarrow> ('b \<times> message option) \<times> 'w) \<Rightarrow> 'w \<Rightarrow>
   ('w, 'a, 'b) collect_state \<Rightarrow> bool" where
  "query_inv f g w s \<longleftrightarrow>
     (if c_pc s KvQuery = AtQuery
      then (if c_pc s QueueQuery = AtQuery then c_world s = w else g w = (c_queue s, c_world s))
      else (if c_pc s QueueQuery = AtQuery then f w = (c_kv s, c_world s)
            else \<exists>b. query_both b f g w = ((c_kv s, c_queue s), c_world s)))"

definition written_inv :: "('w, 'a, 'b) collect_state \<Rightarrow> bool" where
  "written_inv s \<longleftrightarrow>
     (c_pc s KvQuery \<in> {AtWriteErr, AtUnlock, Finished} \<longrightarrow> c_kvMetrics s = fst (c_kv s)) \<and>
     (c_pc s KvQuery \<in> {AtUnlock, Finished} \<longrightarrow> c_kvErr s = snd (c_kv s)) \<and>
     (c_pc s QueueQuery \<in> {AtWriteErr, AtUnlock, Finished} \<longrightarrow> c_queueMetrics s = fst (c_queue s)) \<and>
     (c_pc s QueueQuery \<in> {AtUnlock, Finished} \<longrightarrow> c_queueErr s = snd (c_queue s))"

lemma goroutine_all: "(\<forall>t. P t) \<longleftrightarrow> P KvQuery \<and> P QueueQuery"
  by (metis goroutine.exhaust)

lemma mutex_step: "collect_step f g s s' \<Longrightarrow> mutex_inv s \<Longrightarrow> mutex_inv s'"
proof (induction rule: collect_step.induct)
  case (lock s t) then show ?case by (cases t) (auto simp: mutex_inv_def holds_mutex_def goroutine_all)
next
  case (unlock s t) then show ?case by (cases t) (auto simp: mutex_inv_def holds_mutex_def goroutine_all)
qed (auto simp: mutex_inv_def holds_mutex_def goroutine_all)

lemma written_step: "collect_step f g s s' \<Longrightarrow> written_inv s \<Longrightarrow> written_inv s'"
proof (induction rule: collect_step.induct)
  case (lock s t) then show ?case by (cases t) (auto simp: written_inv_def)
next
  case (unlock s t) then show ?case by (cases t) (auto simp: written_inv_def)
qed (auto simp: written_inv_def)

lemma query_step: "collect_step f g s s' \<Longrightarrow> query_inv f g w s \<Longrightarrow> query_inv f g w s'"
proof (induction rule: collect_step.induct)
  case (kv_query s r v)
  show ?case
  proof (cases "c_pc s QueueQuery = AtQuery")
    case False
    with kv_query have "g w = (c_queue s, c_world s)" by (simp add: query_inv_def)
    with kv_query False show ?thesis
      by (auto simp: query_inv_def query_both_def intro!: exI [of _ False])
  qed (use kv_query in \<open>simp add: query_inv_def\<close>)
next
  case (queue_query s q v)
  show ?case
  proof (cases "c_pc s KvQuery = AtQuery")
    case False
    with queue_query have "f w = (c_kv s, c_world s)" by (simp add: query_inv_def)
    with queue_query False show ?thesis
      by (auto simp: query_inv_def query_both_def intro!: exI [of _ True])
  qed (use queue_query in \<open>simp add: query_inv_def\<close>)
next
  case (lock s t) then show ?case by (cases t) (auto simp: query_inv_def)
next
  case (unlock s t) then show ?case by (cases t) (auto simp: query_inv_def)
qed (auto simp: query_inv_def)

lemma collect_reachable:
  assumes "(collect_step f g)\<^sup>*\<^sup>* (collect_init za zb w) s"
  shows "mutex_inv s \<and> written_inv s \<and> query_inv f g w s"
  using assms
proof (induction rule: rtranclp_induct)
  case base
  show ?case by (auto simp: collect_init_def mutex_inv_def holds_mutex_def written_inv_def query_inv_def)
next
  case (step s s')
  then show ?case
    using mutex_step [OF step.hyps(2)] written_step [OF step.hyps(2)] query_step [OF step.hyps(2)] by simp
qed

section \<open>Termination and progress\<close>

fun pc_rank :: "pc \<Rightarrow> nat" where
  "pc_rank AtQuery = 5" | "pc_rank AtLock = 4" | "pc_rank AtWriteMetrics = 3" | "pc_rank AtWriteErr = 2"
| "pc_rank AtUnlock = 1" | "pc_rank Finished = 0"

definition collect_rank :: "('w, 'a, 'b) collect_state \<Rightarrow> nat" where
  "collect_rank s = pc_rank (c_pc s KvQuery) + pc_rank (c_pc s QueueQuery)"

lemma collect_rank_step: "collect_step f g s s' \<Longrightarrow> collect_rank s' + 1 = collect_rank s"
proof (induction rule: collect_step.induct)
  case (lock s t) then show ?case by (cases t) (simp_all add: collect_rank_def)
next
  case (unlock s t) then show ?case by (cases t) (simp_all add: collect_rank_def)
qed (simp_all add: collect_rank_def)

lemma collect_progress:
  assumes "mutex_inv s" and "\<not> collect_done s"
  shows "\<exists>s'. collect_step f g s s'"
proof (cases "c_mutex s")
  case (Some t)
  with assms(1) have h: "holds_mutex (c_pc s t)" by (simp add: mutex_inv_def)
  show ?thesis
    by (cases t; use h in \<open>auto simp: holds_mutex_def intro: collect_step.intros\<close>)
next
  case None
  with assms(1) have h: "\<not> holds_mutex (c_pc s t)" for t by (simp add: mutex_inv_def)
  obtain t where t: "c_pc s t \<noteq> Finished" using assms(2) by (auto simp: collect_done_def)
  have "c_pc s t = AtQuery \<or> c_pc s t = AtLock" using t h [of t] by (cases "c_pc s t") (auto simp: holds_mutex_def)
  then show ?thesis
  proof
    assume q: "c_pc s t = AtQuery"
    show ?thesis
    proof (cases t)
      case KvQuery
      with q show ?thesis by (cases "f (c_world s)") (blast intro: collect_step.kv_query)
    next
      case QueueQuery
      with q show ?thesis by (cases "g (c_world s)") (blast intro: collect_step.queue_query)
    qed
  next
    assume "c_pc s t = AtLock"
    then show ?thesis using None by (blast intro: collect_step.lock)
  qed
qed

text \<open>A run of given length, as the steps are counted.\<close>

lemma collect_run_length:
  assumes "((collect_step f g) ^^ n) s s'"
  shows "collect_rank s' + n = collect_rank s"
  using assms
proof (induction n arbitrary: s')
  case (Suc n)
  then obtain u where "((collect_step f g) ^^ n) s u" "collect_step f g u s'" by auto
  with Suc.IH collect_rank_step show ?case by fastforce
qed simp

section \<open>Properties\<close>

text \<open>C16: the parallel collection is race free and equals a sequential one. In every state that the two
  goroutines can reach, at most one holds the mutex and some step is possible until both have finished,
  which is after exactly ten steps; then the shared result holds what the two queries returned when
  run one after the other in one of the two orders, and so does the state of the outside world.\<close>

theorem parallel_collection_sequential:
  assumes "((collect_step f g) ^^ n) (collect_init za zb w) s"
  shows "n \<le> 10 \<and> (n = 10 \<longleftrightarrow> collect_done s) \<and> (\<not> collect_done s \<longrightarrow> (\<exists>s'. collect_step f g s s')) \<and>
    \<not> (holds_mutex (c_pc s KvQuery) \<and> holds_mutex (c_pc s QueueQuery)) \<and>
    (collect_done s \<longrightarrow> (\<exists>kvFirst. query_both kvFirst f g w =
       (((c_kvMetrics s, c_kvErr s), (c_queueMetrics s, c_queueErr s)), c_world s)))"
proof (intro conjI impI)
  have "(collect_step f g)\<^sup>*\<^sup>* (collect_init za zb w) s" using assms by (rule relpowp_imp_rtranclp)
  note inv = collect_reachable [OF this]
  have len: "collect_rank s + n = 10"
    using collect_run_length [OF assms] by (simp add: collect_rank_def collect_init_def)
  then show "n \<le> 10" by simp
  have "collect_rank s = 0 \<longleftrightarrow> collect_done s"
    by (cases "c_pc s KvQuery"; cases "c_pc s QueueQuery") (simp_all add: collect_rank_def collect_done_def)
  with len show "n = 10 \<longleftrightarrow> collect_done s" by linarith
  show "\<exists>s'. collect_step f g s s'" if "\<not> collect_done s" using collect_progress that inv by blast
  show "\<not> (holds_mutex (c_pc s KvQuery) \<and> holds_mutex (c_pc s QueueQuery))"
    using inv by (auto simp: mutex_inv_def)
  assume "collect_done s"
  then show "\<exists>kvFirst. query_both kvFirst f g w =
       (((c_kvMetrics s, c_kvErr s), (c_queueMetrics s, c_queueErr s)), c_world s)"
    using inv by (simp add: collect_done_def query_inv_def written_inv_def)
qed

theorem parallel_collection_sequential_witness:
  "\<exists>s kvFirst. collect_done s \<and> query_both kvFirst (\<lambda>w :: nat. ((''kv'', None), w + 1)) (\<lambda>w. ((w, None), w + 2)) 5 =
     (((c_kvMetrics s, c_kvErr s), (c_queueMetrics s, c_queueErr s)), c_world s)"
proof -
  let ?f = "\<lambda>w :: nat. ((''kv'', None :: message option), w + 1)"
  let ?g = "\<lambda>w :: nat. ((w, None :: message option), w + 2)"
  have ext: "\<exists>s. ((collect_step ?f ?g) ^^ n) (collect_init '''' 0 5) s" if "n \<le> 10" for n
    using that
  proof (induction n)
    case (Suc n)
    then obtain s where s: "((collect_step ?f ?g) ^^ n) (collect_init '''' 0 5) s" by auto
    from parallel_collection_sequential [OF this] Suc.prems obtain s' where "collect_step ?f ?g s s'" by auto
    with s show ?case by auto
  qed simp
  then obtain s where "((collect_step ?f ?g) ^^ 10) (collect_init '''' 0 5) s" by blast
  from parallel_collection_sequential [OF this] show ?thesis by auto
qed

end
