(* ===== verification/Wva_Actuator.thy ===== *)
theory Wva_Actuator
  imports Wva_Client
begin

text \<open>
  The output of the controller: the gauges that external autoscalers read (\<^verbatim>\<open>internal/metrics/metrics.go\<close>)
  and the actuator that sets them (\<^verbatim>\<open>internal/actuator/actuator.go\<close>). The effect of an emission is the list
  of the calls it makes on the gauges, in order: metric, labels and value. The registry of
  \<^verbatim>\<open>client_golang\<close> is an argument.
\<close>

section \<open>Metrics\<close>

definition InfernoReplicaScalingTotal :: string where "InfernoReplicaScalingTotal = ''inferno_replica_scaling_total''"
definition InfernoDesiredReplicas :: string where "InfernoDesiredReplicas = ''inferno_desired_replicas''"
definition InfernoCurrentReplicas :: string where "InfernoCurrentReplicas = ''inferno_current_replicas''"
definition InfernoDesiredRatio :: string where "InfernoDesiredRatio = ''inferno_desired_ratio''"

definition LabelVariantName :: string where "LabelVariantName = ''variant_name''"
definition MetricLabelNamespace :: string where "MetricLabelNamespace = ''namespace''"
definition LabelDirection :: string where "LabelDirection = ''direction''"
definition LabelReason :: string where "LabelReason = ''reason''"
definition LabelAcceleratorType :: string where "LabelAcceleratorType = ''accelerator_type''"

text \<open>The package variables, which are nil until \<^verbatim>\<open>InitMetrics\<close> assigns them: which of them are set.\<close>

record MetricsVars =
  mv_replicaScalingTotal :: bool
  mv_desiredReplicas :: bool
  mv_currentReplicas :: bool
  mv_desiredRatio :: bool

fun register_all :: "(string \<Rightarrow> message option) \<Rightarrow> (string \<times> string) list \<Rightarrow> message option" where
  "register_all register [] = None"
| "register_all register ((metric, var) # rest) =
     (case register metric of
        Some err \<Rightarrow> Some (sprintf (''failed to register '' @ var @ '' metric: %w'') [FMsg err])
      | None \<Rightarrow> register_all register rest)"

definition InitMetrics :: "(string \<Rightarrow> message option) \<Rightarrow> MetricsVars \<Rightarrow> message option \<times> MetricsVars" where
  "InitMetrics register vars =
     (register_all register [(InfernoReplicaScalingTotal, ''replicaScalingTotal''), (InfernoDesiredReplicas, ''desiredReplicas''),
        (InfernoCurrentReplicas, ''currentReplicas''), (InfernoDesiredRatio, ''desiredRatio'')],
      vars\<lparr>mv_replicaScalingTotal := True, mv_desiredReplicas := True, mv_currentReplicas := True, mv_desiredRatio := True\<rparr>)"

text \<open>The emitter has no state.\<close>

definition InitMetricsAndEmitter :: "(string \<Rightarrow> message option) \<Rightarrow> MetricsVars \<Rightarrow> (message + unit) \<times> MetricsVars" where
  "InitMetricsAndEmitter register vars =
     (let (err, vars) = InitMetrics register vars
      in case err of Some e \<Rightarrow> (Inl e, vars) | None \<Rightarrow> (Inr (), vars))"

datatype emission =
    SetGauge string "(string \<times> string) list" gofloat
  | IncCounter string "(string \<times> string) list"

definition EmitReplicaScalingMetrics ::
  "MetricsVars \<Rightarrow> VariantAutoscaling \<Rightarrow> string \<Rightarrow> string \<Rightarrow> message option \<times> emission list" where
  "EmitReplicaScalingMetrics vars va direction reason =
     (let labels = [(LabelVariantName, wa_Name va), (MetricLabelNamespace, wa_Namespace va),
                    (LabelDirection, direction), (LabelReason, reason)]
      in if \<not> mv_replicaScalingTotal vars then (Some (sprintf ''replicaScalingTotal metric not initialized'' []), [])
         else (None, [IncCounter InfernoReplicaScalingTotal labels]))"

definition replica_labels :: "VariantAutoscaling \<Rightarrow> string \<Rightarrow> (string \<times> string) list" where
  "replica_labels va acceleratorType =
     [(LabelVariantName, wa_Name va), (MetricLabelNamespace, wa_Namespace va), (LabelAcceleratorType, acceleratorType)]"

definition EmitReplicaMetrics ::
  "MetricsVars \<Rightarrow> VariantAutoscaling \<Rightarrow> int \<Rightarrow> int \<Rightarrow> string \<Rightarrow> message option \<times> emission list" where
  "EmitReplicaMetrics vars va current desired acceleratorType =
     (let baseLabels = replica_labels va acceleratorType
      in if \<not> mv_currentReplicas vars \<or> \<not> mv_desiredReplicas vars \<or> \<not> mv_desiredRatio vars
         then (Some (sprintf ''replica metrics not initialized'' []), [])
         else (None,
           [SetGauge InfernoCurrentReplicas baseLabels (float_of_int current),
            SetGauge InfernoDesiredReplicas baseLabels (float_of_int desired),
            SetGauge InfernoDesiredRatio baseLabels
              (if current = 0 then float_of_int desired else float_of_int desired / float_of_int current)]))"

section \<open>Actuator\<close>

definition GetCurrentDeploymentReplicas ::
  "'w Client \<Rightarrow> VariantAutoscaling \<Rightarrow> 'w \<Rightarrow> (message + int) \<times> 'w" where
  "GetCurrentDeploymentReplicas c va w =
     (let (err, deploy, w) = GetDeploymentWithBackoff c (wa_Name va) (wa_Namespace va) w
      in (case err of
            Some e \<Rightarrow> Inl (sprintf ''failed to get Deployment %s/%s: %w''
              [FStr (wa_Namespace va), FStr (wa_Name va), FMsg (kmessage e)])
          | None \<Rightarrow>
              if dp_StatusReplicas deploy \<ge> 0 then Inr (dp_StatusReplicas deploy)
              else case dp_SpecReplicas deploy of Some n \<Rightarrow> Inr n | None \<Rightarrow> Inr 1, w))"

definition EmitMetrics ::
  "'w Client \<Rightarrow> MetricsVars \<Rightarrow> VariantAutoscaling \<Rightarrow> 'w \<Rightarrow> message option \<times> emission list \<times> 'w" where
  "EmitMetrics c vars va w =
     (let status = wa_Status va; desired = st_DesiredOptimizedAlloc status
      in if oa_NumReplicas desired \<ge> 0 then
           let (res, w) = GetCurrentDeploymentReplicas c va w;
               currentReplicas = (case res of Inl _ \<Rightarrow> int32 (cr_NumReplicas (st_CurrentAlloc status)) | Inr n \<Rightarrow> n);
               (err, es) = EmitReplicaMetrics vars va currentReplicas (int32 (oa_NumReplicas desired)) (oa_Accelerator desired)
           in (None, es, w)
         else (None, [], w))"

section \<open>Properties\<close>

text \<open>The value an autoscaler reads after the emissions: that of the last call on the gauge with these labels.\<close>

definition gauge_after :: "emission list \<Rightarrow> string \<Rightarrow> (string \<times> string) list \<Rightarrow> gofloat option" where
  "gauge_after es metric labels =
     fold (\<lambda>e v. case e of SetGauge m l x \<Rightarrow> if m = metric \<and> l = labels then Some x else v | IncCounter _ _ \<Rightarrow> v) es None"

lemmas metric_names = InfernoReplicaScalingTotal_def InfernoDesiredReplicas_def InfernoCurrentReplicas_def
  InfernoDesiredRatio_def

lemma metric_names_distinct [simp]:
  "InfernoCurrentReplicas \<noteq> InfernoDesiredReplicas" "InfernoCurrentReplicas \<noteq> InfernoDesiredRatio"
  "InfernoDesiredReplicas \<noteq> InfernoDesiredRatio" "InfernoDesiredReplicas \<noteq> InfernoCurrentReplicas"
  "InfernoDesiredRatio \<noteq> InfernoCurrentReplicas" "InfernoDesiredRatio \<noteq> InfernoDesiredReplicas"
  by (simp_all add: metric_names)

lemma EmitReplicaMetrics_gauges:
  assumes "mv_currentReplicas vars" and "mv_desiredReplicas vars" and "mv_desiredRatio vars"
  shows "fst (EmitReplicaMetrics vars va c d acc) = None"
    and "gauge_after (snd (EmitReplicaMetrics vars va c d acc)) InfernoCurrentReplicas (replica_labels va acc) = Some (float_of_int c)"
    and "gauge_after (snd (EmitReplicaMetrics vars va c d acc)) InfernoDesiredReplicas (replica_labels va acc) = Some (float_of_int d)"
    and "gauge_after (snd (EmitReplicaMetrics vars va c d acc)) InfernoDesiredRatio (replica_labels va acc) =
      Some (Fin (if c = 0 then real_of_int d else real_of_int d / real_of_int c))"
  using assms by (simp_all add: EmitReplicaMetrics_def gauge_after_def Let_def float_of_int_def)

text \<open>C35: what the external autoscaler sees of a decision. With the metrics initialized, emitting for a variant
  sets the desired replicas to the target of its status, reduced to 32 bits, and the ratio to desired over
  current, or to the desired count when nothing runs; the current replicas are those the deployment reports,
  or those of the status when the deployment cannot be read. The emission reports no error, and neither
  does it when the metrics are not initialized and nothing is set.\<close>

theorem emitted_gauges:
  assumes "0 \<le> oa_NumReplicas (st_DesiredOptimizedAlloc (wa_Status va))"
    and "mv_currentReplicas vars" and "mv_desiredReplicas vars" and "mv_desiredRatio vars"
  shows "\<exists>es w' c. EmitMetrics cl vars va w = (None, es, w') \<and>
    (let d = int32 (oa_NumReplicas (st_DesiredOptimizedAlloc (wa_Status va)));
         l = replica_labels va (oa_Accelerator (st_DesiredOptimizedAlloc (wa_Status va)))
     in gauge_after es InfernoDesiredReplicas l = Some (float_of_int d) \<and>
        gauge_after es InfernoCurrentReplicas l = Some (float_of_int c) \<and>
        gauge_after es InfernoDesiredRatio l = Some (Fin (if c = 0 then real_of_int d else real_of_int d / real_of_int c))) \<and>
    GetCurrentDeploymentReplicas cl va w \<in>
      {(Inr c, w')} \<union> {(Inl m, w') |m. c = int32 (cr_NumReplicas (st_CurrentAlloc (wa_Status va)))} \<and>
    fst (EmitMetrics cl vars' va w) = None"
proof -
  obtain r v where g: "GetCurrentDeploymentReplicas cl va w = (r, v)" by fastforce
  define c where "c = (case r of Inl _ \<Rightarrow> int32 (cr_NumReplicas (st_CurrentAlloc (wa_Status va))) | Inr n \<Rightarrow> n)"
  define e where "e = EmitReplicaMetrics vars va c (int32 (oa_NumReplicas (st_DesiredOptimizedAlloc (wa_Status va))))
      (oa_Accelerator (st_DesiredOptimizedAlloc (wa_Status va)))"
  have r: "EmitMetrics cl vars va w = (None, snd e, v)"
    using assms(1) by (simp add: EmitMetrics_def g Let_def c_def e_def case_prod_beta)
  have n: "fst (EmitMetrics cl vars' va w) = None" by (simp add: EmitMetrics_def case_prod_beta Let_def)
  have "GetCurrentDeploymentReplicas cl va w \<in>
      {(Inr c, v)} \<union> {(Inl m, v) |m. c = int32 (cr_NumReplicas (st_CurrentAlloc (wa_Status va)))}"
    by (cases r) (simp_all add: g c_def)
  with r n EmitReplicaMetrics_gauges [OF assms(2-4)] show ?thesis
    unfolding Let_def e_def by (intro exI [of _ "snd e"] exI [of _ v] exI [of _ c]) (simp add: e_def)
qed

text \<open>A client over a fixed cluster: one deployment record and one object, and no writes.\<close>

definition static_client :: "Deployment \<Rightarrow> VariantAutoscaling \<Rightarrow> unit Client" where
  "static_client d va =
     \<lparr>cl_GetDeployment = (\<lambda>n ns _ w. if n = dp_Name d \<and> ns = dp_Namespace d then (None, d, w)
        else (Some (NotFound (sprintf ''deployment'' [])), zero_Deployment, w)),
      cl_GetConfigMap = (\<lambda>n ns m w. (Some (NotFound (sprintf ''configmap'' [])), m, w)),
      cl_GetVariantAutoscaling = (\<lambda>n ns _ w. if n = wa_Name va \<and> ns = wa_Namespace va then (None, va, w)
        else (Some (NotFound (sprintf ''va'' [])), zero_VariantAutoscaling, w)),
      cl_UpdateVariantAutoscalingStatus = (\<lambda>o1 w. (None, o1, w)),
      cl_ListVariantAutoscalings = (\<lambda>w. (Inr [va], w)),
      cl_LabelSelectorAsSelector = (\<lambda>_. Inr ''''), cl_ListPods = (\<lambda>_ _ w. (Inr [], w)),
      cl_WaitDeployment = (\<lambda>b. poll (bo_Steps b)), cl_WaitConfigMap = (\<lambda>b. poll (bo_Steps b)),
      cl_WaitVariantAutoscaling = (\<lambda>b. poll (bo_Steps b))\<rparr>"

theorem emitted_gauges_witness:
  "let va = zero_VariantAutoscaling\<lparr>wa_Name := ''v'', wa_Namespace := ''ns'',
         wa_Status := (wa_Status zero_VariantAutoscaling)\<lparr>st_DesiredOptimizedAlloc := \<lparr>oa_LastRunTime = 0, oa_Accelerator = ''A100'', oa_NumReplicas = 3\<rparr>\<rparr>\<rparr>;
       cl = static_client (zero_Deployment\<lparr>dp_Name := ''v'', dp_Namespace := ''ns'', dp_StatusReplicas := 2\<rparr>) va;
       vars = snd (InitMetrics (\<lambda>_. None) (MetricsVars.make False False False False))
   in \<exists>es. EmitMetrics cl vars va () = (None, es, ()) \<and>
        gauge_after es InfernoDesiredRatio (replica_labels va ''A100'') = Some (Fin (3 / 2))"
proof -
  let ?va = "zero_VariantAutoscaling\<lparr>wa_Name := ''v'', wa_Namespace := ''ns'',
         wa_Status := (wa_Status zero_VariantAutoscaling)\<lparr>st_DesiredOptimizedAlloc := \<lparr>oa_LastRunTime = 0, oa_Accelerator = ''A100'', oa_NumReplicas = 3\<rparr>\<rparr>\<rparr>"
  let ?cl = "static_client (zero_Deployment\<lparr>dp_Name := ''v'', dp_Namespace := ''ns'', dp_StatusReplicas := 2\<rparr>) ?va"
  let ?vars = "snd (InitMetrics (\<lambda>_. None) (MetricsVars.make False False False False))"
  have g: "GetCurrentDeploymentReplicas ?cl ?va () = (Inr 2, ())"
    by (simp add: GetCurrentDeploymentReplicas_def GetDeploymentWithBackoff_def GetResourceWithBackoff_def static_client_def
        StandardBackoff_def eval_nat_numeral get_condition_def)
  have "mv_currentReplicas ?vars" "mv_desiredReplicas ?vars" "mv_desiredRatio ?vars"
    by (simp_all add: InitMetrics_def)
  with emitted_gauges [of ?va ?vars ?cl "()" ?vars] show ?thesis by (simp add: g Let_def) auto
qed

end
