(* ===== verification/Wva_Controller.thy ===== *)
theory Wva_Controller
  imports Wva_Parallel Wva_Actuator
begin

text \<open>
  The capacity path of the controller (\<^verbatim>\<open>internal/controller/variantautoscaling_controller.go\<close>): selection
  and grouping of the objects, collection of replica states, capacity analysis of one model, decisions,
  their application to the status and the gauges, the safety net, and the cache of the capacity
  configuration with the handlers that refresh it. The outside world (Kubernetes, Prometheus, the
  clock, the YAML parser) is an argument; gauge calls are collected in order. \<open>None\<close> is a panic.
\<close>

section \<open>The environment\<close>

record 'w Env =
  ev_Client :: "'w Client"
  ev_Prom :: "'w Prom"
  ev_Conditions :: ConditionApi
  ev_Vars :: MetricsVars
  ev_Deadline :: "Time option"
  ev_KvFirst :: bool
  ev_Namespace :: string
  ev_UnmarshalCapacity :: "string \<Rightarrow> message + CapacityScalingConfig"

definition getNamespace :: "(string \<Rightarrow> string) \<Rightarrow> string" where
  "getNamespace getenv =
     (let ns = getenv ''POD_NAMESPACE'' in if ns \<noteq> '''' then ns else ''workload-variant-autoscaler-system'')"

type_synonym va_map = "(string, VariantAutoscaling) gomap"

section \<open>Selection and grouping\<close>

definition is_zero_time :: "Time option \<Rightarrow> bool" where
  "is_zero_time t \<longleftrightarrow> t = None \<or> t = Some 0"

definition filterActiveVariantAutoscalings :: "VariantAutoscaling list \<Rightarrow> VariantAutoscaling list" where
  "filterActiveVariantAutoscalings items = filter (\<lambda>va. is_zero_time (wa_DeletionTimestamp va)) items"

definition groupVAsByModel :: "VariantAutoscaling list \<Rightarrow> (string, VariantAutoscaling list) gomap" where
  "groupVAsByModel vas =
     foldl (\<lambda>groups va. mput (vsp_ModelID (wa_Spec va)) (mget0 [] groups (vsp_ModelID (wa_Spec va)) @ [va]) groups) [] vas"

definition variant_state :: "'w Client \<Rightarrow> VariantAutoscaling \<Rightarrow> 'w \<Rightarrow> VariantReplicaState \<times> 'w" where
  "variant_state c va w =
     (let (err, deploy, w) = GetDeploymentWithBackoff c (wa_Name va) (wa_Namespace va) w;
          desired = oa_NumReplicas (st_DesiredOptimizedAlloc (wa_Status va))
      in case err of
           Some _ \<Rightarrow> (\<lparr>vs_VariantName = wa_Name va, vs_CurrentReplicas = cr_NumReplicas (st_CurrentAlloc (wa_Status va)),
                      vs_DesiredReplicas = desired\<rparr>, w)
         | None \<Rightarrow>
             (\<lparr>vs_VariantName = wa_Name va,
               vs_CurrentReplicas =
                 (if dp_StatusReplicas deploy = 0 then (case dp_SpecReplicas deploy of Some n \<Rightarrow> n | None \<Rightarrow> 0)
                  else dp_StatusReplicas deploy),
               vs_DesiredReplicas = desired\<rparr>, w))"

definition buildVariantStates ::
  "'w Client \<Rightarrow> VariantAutoscaling list \<Rightarrow> 'w \<Rightarrow> VariantReplicaState list \<times> 'w" where
  "buildVariantStates c vas w =
     foldl (\<lambda>(states, w) va. let (s, w) = variant_state c va w in (states @ [s], w)) ([], w) vas"

section \<open>Decisions from capacity targets\<close>

definition capacity_decision ::
  "'time ModelCapacityAnalysis \<Rightarrow> VariantReplicaState list \<Rightarrow> string \<Rightarrow> int \<Rightarrow> VariantDecision" where
  "capacity_decision capacityAnalysis variantStates variantName targetReplicas =
     (let state = state_of variantStates variantName;
          va = mget (variantAnalysisMap (Some capacityAnalysis)) variantName;
          action = action_for targetReplicas (vs_CurrentReplicas state)
      in \<lparr>vd_VariantName = variantName, vd_Namespace = ma_Namespace capacityAnalysis,
          vd_ModelID = ma_ModelID capacityAnalysis,
          vd_AcceleratorName = (case va of Some a \<Rightarrow> va_AcceleratorName a | None \<Rightarrow> ''''),
          vd_Cost = (case va of Some a \<Rightarrow> va_Cost a | None \<Rightarrow> Fin 0), vd_Action = action,
          vd_CurrentReplicas = vs_CurrentReplicas state, vd_TargetReplicas = targetReplicas,
          vd_DesiredReplicas = vs_DesiredReplicas state,
          vd_Reason = sprintf (''capacity-only mode: '' @ action_string action) [],
          vd_CapacityBased = True, vd_ModelBasedDecision = False, vd_SafetyOverride = False, vd_CapacityOnly = True\<rparr>)"

definition convertCapacityTargetsToDecisions ::
  "(string, int) gomap \<Rightarrow> 'time ModelCapacityAnalysis \<Rightarrow> VariantReplicaState list \<Rightarrow> VariantDecision list" where
  "convertCapacityTargetsToDecisions capacityTargets capacityAnalysis variantStates =
     map (\<lambda>(variantName, targetReplicas). capacity_decision capacityAnalysis variantStates variantName targetReplicas)
       capacityTargets"

section \<open>Capacity analysis of a model\<close>

definition variant_cost :: "VariantAutoscaling \<Rightarrow> gofloat" where
  "variant_cost va =
     (if vsp_VariantCost (wa_Spec va) \<noteq> ''''
      then case ParseFloat MaxFloat64 (vsp_VariantCost (wa_Spec va)) of Some parsedCost \<Rightarrow> parsedCost | None \<Rightarrow> Fin 10
      else Fin 10)"

definition gather_step ::
  "'w Client \<Rightarrow> (string, gofloat) gomap \<times> (string, Deployment) gomap \<times> va_map \<times> 'w \<Rightarrow> VariantAutoscaling \<Rightarrow>
   (string, gofloat) gomap \<times> (string, Deployment) gomap \<times> va_map \<times> 'w" where
  "gather_step c st va =
     (let (variantCosts, deployments, variantAutoscalings, w) = st;
          variantCosts = mput (wa_Name va) (variant_cost va) variantCosts;
          (err, deploy, w) = GetDeploymentWithBackoff c (wa_Name va) (wa_Namespace va) w
      in case err of
           Some _ \<Rightarrow> (variantCosts, deployments, variantAutoscalings, w)
         | None \<Rightarrow> (variantCosts, mput (wa_Name va) deploy deployments, mput (wa_Name va) va variantAutoscalings, w))"

text \<open>The result is an error, nothing (when no metrics are available), or the targets, the analysis and the
  states.\<close>

type_synonym capacity_result =
  "((string, int) gomap \<times> Time ModelCapacityAnalysis \<times> VariantReplicaState list) option"

definition runCapacityAnalysis ::
  "'w Env \<Rightarrow> string \<Rightarrow> VariantAutoscaling list \<Rightarrow> CapacityScalingConfig \<Rightarrow> 'w \<Rightarrow> (message + capacity_result) \<times> 'w" where
  "runCapacityAnalysis env modelID modelVAs capacityConfig w =
     (case modelVAs of
        [] \<Rightarrow> (Inl (sprintf ''no VAs provided for model %s'' [FStr modelID]), w)
      | va0 # _ \<Rightarrow>
          let namespace = wa_Namespace va0;
              (variantCosts, deployments, variantAutoscalings, w) =
                foldl (gather_step (ev_Client env)) ([], [], [], w) modelVAs;
              (res, w) = CollectReplicaMetrics (ev_KvFirst env) (ev_Prom env) (Some (ev_Client env)) (ev_Deadline env)
                modelID namespace deployments variantAutoscalings variantCosts w
          in (case res of
                Inl err \<Rightarrow> (Inl (sprintf ''failed to collect capacity metrics for model %s: %w'' [FStr modelID, FMsg err]), w)
              | Inr replicaMetrics \<Rightarrow>
                  if replicaMetrics = [] then (Inr None, w)
                  else
                    let capacityAnalysis = AnalyzeModelCapacity (pm_Now (ev_Prom env) w) modelID namespace replicaMetrics capacityConfig;
                        (variantStates, w) = buildVariantStates (ev_Client env) modelVAs w;
                        capacityTargets = CalculateCapacityTargets (Some capacityAnalysis) variantStates
                    in (Inr (Some (capacityTargets, capacityAnalysis, variantStates)), w)))"

definition collect_one ::
  "'w Env \<Rightarrow> va_map \<Rightarrow> VariantAutoscaling \<Rightarrow> 'w \<Rightarrow> (va_map \<times> 'w) option" where
  "collect_one env vaMap va w =
     (let accName = mget0 '''' (wa_Labels va) acceleratorLabel
      in if accName = '''' \<or> vsp_VariantCost (wa_Spec va) = '''' then Some (vaMap, w)
         else case ParseFloat MaxFloat64 (vsp_VariantCost (wa_Spec va)) of
           None \<Rightarrow> Some (vaMap, w)
         | Some cost \<Rightarrow>
             let (err, deploy, w) = GetDeploymentWithBackoff (ev_Client env) (wa_Name va) (wa_Namespace va) w
             in if err \<noteq> None then Some (vaMap, w)
                else
                  let (err, updateVA, w) = GetVariantAutoscalingWithBackoff (ev_Client env) (dp_Name deploy) (dp_Namespace deploy) w
                  in if err \<noteq> None then Some (vaMap, w)
                     else
                       let (v, w) = ValidateMetricsAvailability (ev_Prom env) (ev_Deadline env) (vsp_ModelID (wa_Spec va)) (dp_Namespace deploy) w;
                           updateVA = SetCondition (ev_Conditions env) (pm_Now (ev_Prom env) w) updateVA TypeMetricsAvailable
                             (if mvr_Available v then ConditionTrue else ConditionFalse) (mvr_Reason v) (mvr_Message v)
                       in if \<not> mvr_Available v then Some (vaMap, w)
                          else
                            case AddMetricsToOptStatus (ev_Prom env) (ev_Deadline env) updateVA deploy cost w of
                              None \<Rightarrow> None
                            | Some (Inl _, w) \<Rightarrow> Some (vaMap, w)
                            | Some (Inr currentAllocation, w) \<Rightarrow>
                                Some (mput (wa_Name updateVA)
                                  (updateVA\<lparr>wa_Status := (wa_Status updateVA)\<lparr>st_CurrentAlloc := currentAllocation\<rparr>\<rparr>) vaMap, w))"

definition collectMetricsForCapacityMode ::
  "'w Env \<Rightarrow> VariantAutoscaling list \<Rightarrow> va_map \<Rightarrow> 'w \<Rightarrow> (va_map \<times> 'w) option" where
  "collectMetricsForCapacityMode env modelVAs vaMap w =
     ofoldl (\<lambda>(vaMap, w) va. collect_one env vaMap va w) (vaMap, w) modelVAs"

section \<open>Applying decisions\<close>

definition decision_condition :: "VariantDecision \<Rightarrow> string \<times> message" where
  "decision_condition d =
     (if vd_SafetyOverride d then
        (''CapacitySafetyOverride'', sprintf ''Capacity safety override: %s'' [FMsg (vd_Reason d)])
      else if vd_CapacityOnly d then
        (''CapacityOnlyMode'', sprintf ''Capacity-only decision: %s (target: %d replicas)''
           [FMsg (vd_Reason d), FInt (vd_TargetReplicas d)])
      else
        (ReasonOptimizationSucceeded, sprintf ''Hybrid mode: %s (target: %d replicas)''
           [FMsg (vd_Reason d), FInt (vd_TargetReplicas d)]))"

text \<open>The object that is written for a decision, before the emission of the gauges.\<close>

definition decided_va ::
  "'w Env \<Rightarrow> Time \<Rightarrow> VariantAutoscaling \<Rightarrow> VariantDecision \<Rightarrow> VariantAutoscaling \<Rightarrow> VariantAutoscaling" where
  "decided_va env now va decision updateVa =
     (let (reason, msg) = decision_condition decision
      in SetCondition (ev_Conditions env) now
           (updateVa\<lparr>wa_Status := (wa_Status updateVa)
              \<lparr>st_CurrentAlloc := st_CurrentAlloc (wa_Status va),
               st_DesiredOptimizedAlloc := \<lparr>oa_LastRunTime = now, oa_Accelerator = vd_AcceleratorName decision,
                 oa_NumReplicas = vd_TargetReplicas decision\<rparr>,
               st_Actuation := \<lparr>act_Applied = False\<rparr>\<rparr>\<rparr>)
           TypeOptimizationReady ConditionTrue reason msg)"

definition set_applied :: "VariantAutoscaling \<Rightarrow> VariantAutoscaling" where
  "set_applied va = va\<lparr>wa_Status := (wa_Status va)\<lparr>st_Actuation := \<lparr>act_Applied = True\<rparr>\<rparr>\<rparr>"

definition apply_decision ::
  "'w Env \<Rightarrow> va_map \<Rightarrow> emission list \<times> 'w \<Rightarrow> VariantDecision \<Rightarrow> emission list \<times> 'w" where
  "apply_decision env vaMap st decision =
     (let (es, w) = st
      in case mget vaMap (vd_VariantName decision) of
           None \<Rightarrow> (es, w)
         | Some va \<Rightarrow>
             let (err, updateVa, w) = GetVariantAutoscalingWithBackoff (ev_Client env) (wa_Name va) (wa_Namespace va) w
             in if err \<noteq> None then (es, w)
                else if cr_Accelerator (st_CurrentAlloc (wa_Status va)) = '''' \<or> vd_AcceleratorName decision = '''' \<or>
                        length (vd_AcceleratorName decision) < 2 then (es, w)
                else
                  let updateVa = decided_va env (pm_Now (ev_Prom env) w) va decision updateVa;
                      (err, es', w) = EmitMetrics (ev_Client env) (ev_Vars env) updateVa w;
                      updateVa = (if err = None then set_applied updateVa else updateVa);
                      (_, _, w) = UpdateStatusWithBackoff (cl_WaitVariantAutoscaling (ev_Client env))
                        (cl_UpdateVariantAutoscalingStatus (ev_Client env)) updateVa StandardBackoff w
                  in (es @ es', w))"

definition applyCapacityDecisions ::
  "'w Env \<Rightarrow> VariantDecision list \<Rightarrow> va_map \<Rightarrow> 'w \<Rightarrow> emission list \<times> 'w" where
  "applyCapacityDecisions env decisions vaMap w = foldl (apply_decision env vaMap) ([], w) decisions"

section \<open>Safety net\<close>

definition fallback_accelerator :: "VariantAutoscaling \<Rightarrow> string" where
  "fallback_accelerator va =
     (let a = oa_Accelerator (st_DesiredOptimizedAlloc (wa_Status va));
          a = (if a = '''' then cr_Accelerator (st_CurrentAlloc (wa_Status va)) else a)
      in if a = '''' then mget0 '''' (wa_Labels va) acceleratorLabel else a)"

definition replicas_or_status :: "'w Env \<Rightarrow> VariantAutoscaling \<Rightarrow> 'w \<Rightarrow> int \<times> 'w" where
  "replicas_or_status env va w =
     (let (res, w) = GetCurrentDeploymentReplicas (ev_Client env) va w
      in (case res of Inl _ \<Rightarrow> int32 (cr_NumReplicas (st_CurrentAlloc (wa_Status va))) | Inr n \<Rightarrow> n, w))"

definition safety_net_one ::
  "'w Env \<Rightarrow> emission list \<times> 'w \<Rightarrow> VariantAutoscaling \<Rightarrow> emission list \<times> 'w" where
  "safety_net_one env st va =
     (let (es, w) = st;
          (err, updateVa, w) = GetVariantAutoscalingWithBackoff (ev_Client env) (wa_Name va) (wa_Namespace va) w
      in if err \<noteq> None then (es, w)
         else
           let previous = oa_NumReplicas (st_DesiredOptimizedAlloc (wa_Status updateVa));
               (desiredReplicas, w) =
                 (if previous > 0 then (int32 previous, w) else replicas_or_status env updateVa w);
               (currentReplicas, w) = replicas_or_status env updateVa w;
               accelerator = fallback_accelerator updateVa
           in if accelerator = '''' then (es, w)
              else (es @ snd (EmitReplicaMetrics (ev_Vars env) updateVa currentReplicas desiredReplicas accelerator), w))"

definition emitSafetyNetMetrics :: "'w Env \<Rightarrow> VariantAutoscaling list \<Rightarrow> 'w \<Rightarrow> emission list \<times> 'w" where
  "emitSafetyNetMetrics env modelVAs w = foldl (safety_net_one env) ([], w) modelVAs"

section \<open>Capacity configuration cache\<close>

record Reconciler =
  rc_capacityConfigCache :: "(string, CapacityScalingConfig) gomap"
  rc_capacityConfigLoaded :: bool

definition parse_entry ::
  "'w Env \<Rightarrow> (string, CapacityScalingConfig) gomap \<Rightarrow> string \<times> string \<Rightarrow> (string, CapacityScalingConfig) gomap" where
  "parse_entry env configs kv =
     (case ev_UnmarshalCapacity env (snd kv) of
        Inl _ \<Rightarrow> configs
      | Inr config \<Rightarrow> (case Validate config of Some _ \<Rightarrow> configs | None \<Rightarrow> mput (fst kv) config configs))"

definition readCapacityScalingConfig ::
  "'w Env \<Rightarrow> string \<Rightarrow> string \<Rightarrow> 'w \<Rightarrow> (message + (string, CapacityScalingConfig) gomap) \<times> 'w" where
  "readCapacityScalingConfig env cmName cmNamespace w =
     (let (err, cm, w) = GetConfigMapWithBackoff (ev_Client env) cmName cmNamespace w
      in case err of
           Some (NotFound _) \<Rightarrow> (Inr [(''default'', DefaultCapacityScalingConfig)], w)
         | Some e \<Rightarrow> (Inl (sprintf ''failed to read ConfigMap %s/%s: %w'' [FStr cmNamespace, FStr cmName, FMsg (kmessage e)]), w)
         | None \<Rightarrow>
             let configs = foldl (parse_entry env) [] cm
             in (Inr (if mget configs ''default'' = None then mput ''default'' DefaultCapacityScalingConfig configs else configs), w))"

definition updateCapacityConfigCache :: "'w Env \<Rightarrow> Reconciler \<Rightarrow> 'w \<Rightarrow> message option \<times> Reconciler \<times> 'w" where
  "updateCapacityConfigCache env r w =
     (let (res, w) = readCapacityScalingConfig env ''capacity-scaling-config'' (ev_Namespace env) w
      in case res of
           Inl err \<Rightarrow> (Some err, r, w)
         | Inr configs \<Rightarrow> (None, r\<lparr>rc_capacityConfigCache := configs, rc_capacityConfigLoaded := True\<rparr>, w))"

definition getCapacityConfigFromCache :: "Reconciler \<Rightarrow> (string, CapacityScalingConfig) gomap" where
  "getCapacityConfigFromCache r = rc_capacityConfigCache r"

definition getCapacityConfigSafe :: "Reconciler \<Rightarrow> (string, CapacityScalingConfig) gomap \<times> bool" where
  "getCapacityConfigSafe r = (rc_capacityConfigCache r, rc_capacityConfigLoaded r)"

definition isCapacityConfigLoaded :: "Reconciler \<Rightarrow> bool" where
  "isCapacityConfigLoaded r = rc_capacityConfigLoaded r"

definition InitializeCapacityConfigCache :: "'w Env \<Rightarrow> Reconciler \<Rightarrow> 'w \<Rightarrow> message option \<times> Reconciler \<times> 'w" where
  "InitializeCapacityConfigCache env r w = updateCapacityConfigCache env r w"

fun apply_override ::
  "(string, CapacityScalingConfig) gomap \<Rightarrow> string \<Rightarrow> string \<Rightarrow> CapacityScalingConfig \<Rightarrow> CapacityScalingConfig" where
  "apply_override [] modelID namespace config = config"
| "apply_override ((key, override) # rest) modelID namespace config =
     (if key \<noteq> ''default'' \<and> cs_ModelID override = modelID \<and> cs_Namespace override = namespace
      then Merge config override
      else apply_override rest modelID namespace config)"

definition getCapacityScalingConfigForVariant ::
  "(string, CapacityScalingConfig) gomap \<Rightarrow> string \<Rightarrow> string \<Rightarrow> CapacityScalingConfig" where
  "getCapacityScalingConfigForVariant configs modelID namespace =
     apply_override configs modelID namespace (mget0 zero_CapacityScalingConfig configs ''default'')"

section \<open>Event handlers\<close>

text \<open>An object as the handlers see it: name, namespace and deletion timestamp.\<close>

definition isCapacityScalingConfigMap :: "'w Env \<Rightarrow> string \<times> string \<Rightarrow> bool" where
  "isCapacityScalingConfigMap env obj \<longleftrightarrow> fst obj = ''capacity-scaling-config'' \<and> snd obj = ev_Namespace env"

definition handleCapacityConfigMapEvent ::
  "'w Env \<Rightarrow> Reconciler \<Rightarrow> string \<times> string \<Rightarrow> 'w \<Rightarrow> (string \<times> string) list \<times> Reconciler \<times> 'w" where
  "handleCapacityConfigMapEvent env r obj w =
     (if \<not> isCapacityScalingConfigMap env obj then ([], r, w)
      else
        let (_, r, w) = updateCapacityConfigCache env r w;
            (res, w) = cl_ListVariantAutoscalings (ev_Client env) w
        in (case res of
              Inl _ \<Rightarrow> ([], r, w)
            | Inr items \<Rightarrow> (map (\<lambda>va. (wa_Name va, wa_Namespace va)) items, r, w)))"

definition handleServiceMonitorEvent ::
  "bool \<Rightarrow> string \<Rightarrow> string \<Rightarrow> Time option \<Rightarrow> (string \<times> string) list \<times> message list" where
  "handleServiceMonitorEvent hasRecorder name namespace deletionTimestamp =
     ([], if \<not> is_zero_time deletionTimestamp \<and> hasRecorder
          then [sprintf (''ServiceMonitor %s/%s is being deleted. Prometheus will not scrape controller metrics. '' @
                 ''Actuator will not be able to access optimized replicas metrics. Please recreate the ServiceMonitor.'')
                 [FStr namespace, FStr name]] else [])"

datatype watch_event =
    CreateEvent
  | UpdateEvent "string \<times> string" "Time option" "Time option"
  | DeleteEvent "string \<times> string"
  | GenericEvent

text \<open>The event filter; an event has the group and kind of its object, an update also the old and the new
  deletion timestamp.\<close>

fun event_filter :: "watch_event \<Rightarrow> bool" where
  "event_filter CreateEvent = True"
| "event_filter (UpdateEvent gvk oldDeletion newDeletion) =
     (if gvk = ('''', ''ConfigMap'') then True
      else gvk = (''monitoring.coreos.com'', ''ServiceMonitor'') \<and> \<not> is_zero_time newDeletion \<and> is_zero_time oldDeletion)"
| "event_filter (DeleteEvent gvk) = (gvk = (''monitoring.coreos.com'', ''ServiceMonitor''))"
| "event_filter GenericEvent = False"

end
