(* ===== verification/Wva_Decisions.thy ===== *)
theory Wva_Decisions
  imports Wva_Controller
begin

text \<open>
  Correctness of the capacity path of the controller: the grouping of the objects, the decisions of
  capacity-only mode, what is written to the API server and to the gauges when they are applied,
  and what the safety net emits.
\<close>

section \<open>Grouping\<close>

lemma group_fold_get:
  "mget0 [] (foldl (\<lambda>g va. mput (f va) (mget0 [] g (f va) @ [va]) g) g vas) k = mget0 [] g k @ filter (\<lambda>va. f va = k) vas"
  by (induction vas arbitrary: g) (auto simp: mget0_def split: option.splits)

lemma group_fold_keys:
  "fst ` set (foldl (\<lambda>g va. mput (f va) (mget0 [] g (f va) @ [va]) g) g vas) = fst ` set g \<union> f ` set vas"
  by (induction vas arbitrary: g) (auto simp: keys_put)

lemma group_fold_wf:
  "wf_map g \<Longrightarrow> wf_map (foldl (\<lambda>g va. mput (f va) (mget0 [] g (f va) @ [va]) g) g vas)"
  by (induction vas arbitrary: g) simp_all

lemma groupVAsByModel_wf: "wf_map (groupVAsByModel vas)"
  by (simp add: groupVAsByModel_def group_fold_wf)

lemma groupVAsByModel_entry:
  "(m, g) \<in> set (groupVAsByModel vas) \<longleftrightarrow>
    g = filter (\<lambda>va. vsp_ModelID (wa_Spec va) = m) vas \<and> g \<noteq> []"
proof -
  let ?f = "\<lambda>va. vsp_ModelID (wa_Spec va)"
  have get: "mget0 [] (groupVAsByModel vas) m = filter (\<lambda>va. ?f va = m) vas"
    by (simp add: groupVAsByModel_def group_fold_get)
  have keys: "m \<in> fst ` set (groupVAsByModel vas) \<longleftrightarrow> m \<in> ?f ` set vas"
    by (simp add: groupVAsByModel_def group_fold_keys)
  have "(m, g) \<in> set (groupVAsByModel vas) \<longleftrightarrow> mget (groupVAsByModel vas) m = Some g"
    using wf_map_mget [OF groupVAsByModel_wf] by metis
  also have "\<dots> \<longleftrightarrow> m \<in> fst ` set (groupVAsByModel vas) \<and> mget0 [] (groupVAsByModel vas) m = g"
    by (auto simp: mget0_def mget_in_keys split: option.splits dest: weak_map_of_SomeI)
  finally show ?thesis using get keys by (auto simp: filter_empty_conv)
qed

text \<open>The models are processed independently and completely. Each active object is in exactly the group of
  its model, in the order of the list, objects marked for deletion are in none, no group is empty and
  no model has two groups.\<close>

lemma groups_partition_active:
  "let gs = groupVAsByModel (filterActiveVariantAutoscalings items)
   in distinct (map fst gs) \<and>
      (\<forall>m g. (m, g) \<in> set gs \<longleftrightarrow> g \<noteq> [] \<and>
         g = filter (\<lambda>va. vsp_ModelID (wa_Spec va) = m \<and> is_zero_time (wa_DeletionTimestamp va)) items)"
  using groupVAsByModel_wf [of "filterActiveVariantAutoscalings items"]
  by (auto simp: Let_def wf_map_def groupVAsByModel_entry filterActiveVariantAutoscalings_def conj_commute)

section \<open>Decisions of capacity-only mode\<close>

interpretation cap: decision_maker "\<lambda>(ca, ss, v, t). capacity_decision ca ss v t"
  by unfold_locales (auto simp: capacity_decision_def Let_def)

lemma capacity_decision_fields [simp]:
  "vd_VariantName (capacity_decision ca ss v t) = v"
  "vd_TargetReplicas (capacity_decision ca ss v t) = t"
  "vd_CurrentReplicas (capacity_decision ca ss v t) = vs_CurrentReplicas (state_of ss v)"
  "vd_CapacityOnly (capacity_decision ca ss v t)" "\<not> vd_SafetyOverride (capacity_decision ca ss v t)"
  by (simp_all add: capacity_decision_def Let_def)

text \<open>What a run of the analysis returns comes from the analyzer applied to non-empty metrics.\<close>

lemma runCapacityAnalysis_result:
  assumes "runCapacityAnalysis env modelID vas config w = (Inr (Some (ts, ca, ss)), w')"
  shows "\<exists>now ns ms u u' ds vs cs. ms \<noteq> [] \<and> ca = AnalyzeModelCapacity now modelID ns ms config \<and>
    ts = CalculateCapacityTargets (Some ca) ss \<and>
    CollectReplicaMetrics (ev_KvFirst env) (ev_Prom env) (Some (ev_Client env)) (ev_Deadline env) modelID ns ds vs cs u =
      (Inr ms, u') \<and> buildVariantStates (ev_Client env) vas u' = (ss, w')"
proof -
  obtain va0 vas' where vas: "vas = va0 # vas'"
    using assms by (cases vas) (simp_all add: runCapacityAnalysis_def)
  obtain cs ds vs u where g: "foldl (gather_step (ev_Client env)) ([], [], [], w) vas = (cs, ds, vs, u)"
    by (metis prod_cases4)
  obtain res u' where c: "CollectReplicaMetrics (ev_KvFirst env) (ev_Prom env) (Some (ev_Client env)) (ev_Deadline env)
      modelID (wa_Namespace va0) ds vs cs u = (res, u')" by fastforce
  obtain ss' u'' where b: "buildVariantStates (ev_Client env) vas u' = (ss', u'')" by fastforce
  from assms obtain ms where ms: "res = Inr ms" "ms \<noteq> []"
    using g c by (cases res) (auto simp: runCapacityAnalysis_def vas split: if_splits)
  with assms g c b have "ca = AnalyzeModelCapacity (pm_Now (ev_Prom env) u') modelID (wa_Namespace va0) ms config"
      "ts = CalculateCapacityTargets (Some ca) ss" "ss' = ss" "u'' = w'"
    by (auto simp: runCapacityAnalysis_def vas Let_def)
  with ms c b show ?thesis by blast
qed

lemma CalculateCapacityTargets_wf: "wf_map (CalculateCapacityTargets ca ss)"
proof -
  have base: "wf_map (base_targets ss as)" for as
    unfolding base_targets_def by (intro preserve_loop_wf gm.invar_foldl_put wf_map_Nil)
  show ?thesis
  proof (cases ca)
    case None
    then show ?thesis by (simp add: CalculateCapacityTargets_def gm.invar_foldl_put)
  next
    case (Some a)
    show ?thesis
    proof (cases "ma_VariantAnalyses a = []")
      case True
      then show ?thesis by (simp add: Some CalculateCapacityTargets_def gm.invar_foldl_put)
    next
      case False
      then show ?thesis
        by (auto simp: Some CalculateCapacityTargets_unfold base Let_def split: option.splits)
    qed
  qed
qed

text \<open>The costs that reach the analyzer are those of the objects, or the default.\<close>

lemma gather_costs:
  "foldl (gather_step c) (cs0, ds0, vs0, w) vas = (cs, ds, vs, w') \<Longrightarrow>
    \<forall>x\<in>snd ` set cs0. x \<noteq> NaN \<Longrightarrow> \<forall>va\<in>set vas. variant_cost va \<noteq> NaN \<Longrightarrow> \<forall>x\<in>snd ` set cs. x \<noteq> NaN"
proof (induction vas arbitrary: cs0 ds0 vs0 w)
  case (Cons va vas)
  obtain cs1 ds1 vs1 w1 where s: "gather_step c (cs0, ds0, vs0, w) va = (cs1, ds1, vs1, w1)" by (metis prod_cases4)
  then have "cs1 = mput (wa_Name va) (variant_cost va) cs0"
    by (auto simp: gather_step_def Let_def split: prod.splits option.splits)
  then have "\<forall>x\<in>snd ` set cs1. x \<noteq> NaN"
    using Cons.prems(2,3) set_mput [of "wa_Name va" "variant_cost va" cs0] by auto
  with Cons.IH [of cs1 ds1 vs1 w1] Cons.prems s show ?case by simp
qed simp

lemma mget0_snd: "\<forall>x\<in>snd ` set m. P x \<Longrightarrow> P z \<Longrightarrow> P (mget0 z m k)"
  by (auto simp: mget0_def split: option.splits dest!: map_of_SomeD)

lemma CollectReplicaMetrics_merge:
  assumes "CollectReplicaMetrics b prom k8s ctx modelID ns ds vs cs w = (Inr ms, w')"
  shows "\<exists>kv q u. mergeMetrics k8s kv q modelID ns ds vs cs u = (ms, w')"
  using assms by (auto simp: CollectReplicaMetrics_def Let_def split: prod.splits option.splits)

text \<open>Where the target of a decision comes from.\<close>

definition decision_cause ::
  "'time ModelCapacityAnalysis \<Rightarrow> VariantReplicaState list \<Rightarrow> VariantCapacityAnalysis \<Rightarrow> int \<Rightarrow> bool" where
  "decision_cause ca ss va t \<longleftrightarrow>
     (if preserves ss va then t = vs_DesiredReplicas (state_of ss (va_VariantName va))
      else t = va_ReplicaCount va \<or>
        (t = va_ReplicaCount va + 1 \<and> ma_ShouldScaleUp ca) \<or>
        (t = va_ReplicaCount va - 1 \<and> 1 \<le> t \<and> ma_ScaleDownSafe ca \<and> \<not> ma_ShouldScaleUp ca))"

lemma target_spec_cause:
  assumes "analysis_ok ca"
  shows "decision_cause ca ss va (target_spec ca ss va)"
  using scale_down_choiceD(3) [OF assms, of ss va] by (auto simp: decision_cause_def target_spec_def)

lemma targets_cause:
  assumes "analysis_ok ca" and "(v, t) \<in> set (CalculateCapacityTargets (Some ca) ss)"
  shows "\<exists>va\<in>set (ma_VariantAnalyses ca). va_VariantName va = v \<and> decision_cause ca ss va t"
proof -
  have g: "mget (CalculateCapacityTargets (Some ca) ss) v = Some t"
    using assms(2) wf_map_mget [OF CalculateCapacityTargets_wf] by metis
  then obtain va where va: "va \<in> set (ma_VariantAnalyses ca)" "va_VariantName va = v"
    using targets_keys [OF assms(1), of v ss] by (metis imageE option.distinct(1))
  with target_spec_get [OF assms(1) va(1), of ss] g have "t = target_spec ca ss va" by simp
  with va target_spec_cause [OF assms(1)] show ?thesis by blast
qed

lemma runCapacityAnalysis_ok:
  assumes "runCapacityAnalysis env modelID vas config w = (Inr (Some (ts, ca, ss)), w')"
    and "\<forall>va\<in>set vas. variant_cost va \<noteq> NaN"
  shows "analysis_ok ca \<and> ts = CalculateCapacityTargets (Some ca) ss"
proof -
  obtain va0 vas' where vas: "vas = va0 # vas'"
    using assms by (cases vas) (simp_all add: runCapacityAnalysis_def)
  obtain cs ds vs u where g: "foldl (gather_step (ev_Client env)) ([], [], [], w) vas = (cs, ds, vs, u)"
    by (metis prod_cases4)
  have cs: "\<forall>x\<in>snd ` set cs. x \<noteq> NaN" using gather_costs [OF g] assms(2) by simp
  obtain res u' where c: "CollectReplicaMetrics (ev_KvFirst env) (ev_Prom env) (Some (ev_Client env)) (ev_Deadline env)
      modelID (wa_Namespace va0) ds vs cs u = (res, u')" by fastforce
  from assms obtain ms where ms: "res = Inr ms" "ms \<noteq> []"
    using g c by (cases res) (auto simp: runCapacityAnalysis_def vas split: if_splits)
  have ca: "ca = AnalyzeModelCapacity (pm_Now (ev_Prom env) u') modelID (wa_Namespace va0) ms config"
      "ts = CalculateCapacityTargets (Some ca) ss"
    using assms g c ms by (auto simp: runCapacityAnalysis_def vas Let_def split: prod.splits)
  obtain kv q v where "mergeMetrics (Some (ev_Client env)) kv q modelID (wa_Namespace va0) ds vs cs v = (ms, u')"
    using CollectReplicaMetrics_merge [OF c [unfolded ms(1)]] by blast
  from mergeMetrics_records [OF this] have "\<forall>m\<in>set ms. rm_Cost m = mget0 (Fin 10) cs (rm_VariantName m)"
    by blast
  then have "\<forall>m\<in>set ms. rm_Cost m \<noteq> NaN" using mget0_snd [OF cs] by simp
  with ms(2) ca show ?thesis by (simp add: AnalyzeModelCapacity_ok)
qed

text \<open>C30: every decision of capacity-only mode has a cause. There is at most one decision per variant, its action
  agrees with its target, and the target is the desired count of an earlier run that is not yet
  reached, or the number of replicas that report metrics, plus one only if the analysis asks for
  scale-up, minus one only if it declared scale-down safe and asks for no scale-up (and then at least
  one). So the number of replicas is lowered without a safe analysis only for one of two reasons: an
  earlier run asked for it, or fewer replicas report metrics than run.\<close>

theorem capacity_only_decisions:
  assumes "runCapacityAnalysis env modelID vas config w = (Inr (Some (ts, ca, ss)), w')"
    and "\<forall>va\<in>set vas. variant_cost va \<noteq> NaN"
  shows "distinct (map vd_VariantName (convertCapacityTargetsToDecisions ts ca ss)) \<and>
    (\<forall>d\<in>set (convertCapacityTargetsToDecisions ts ca ss).
       vd_Action d = action_for (vd_TargetReplicas d) (vd_CurrentReplicas d) \<and>
       (\<exists>va\<in>set (ma_VariantAnalyses ca). va_VariantName va = vd_VariantName d \<and>
          decision_cause ca ss va (vd_TargetReplicas d) \<and>
          (vd_Action d = ActionScaleDown \<and> \<not> ma_ScaleDownSafe ca \<longrightarrow>
             preserves ss va \<or> va_ReplicaCount va < vd_CurrentReplicas d)))"
proof -
  note ok = runCapacityAnalysis_ok [OF assms]
  have names: "map vd_VariantName (convertCapacityTargetsToDecisions ts ca ss) = map fst ts"
    by (auto simp: convertCapacityTargetsToDecisions_def)
  have D: "distinct (map vd_VariantName (convertCapacityTargetsToDecisions ts ca ss))"
    unfolding names using CalculateCapacityTargets_wf ok by (auto simp: wf_map_def)
  have A: "vd_Action d = action_for (vd_TargetReplicas d) (vd_CurrentReplicas d) \<and>
       (\<exists>va\<in>set (ma_VariantAnalyses ca). va_VariantName va = vd_VariantName d \<and>
          decision_cause ca ss va (vd_TargetReplicas d) \<and>
          (vd_Action d = ActionScaleDown \<and> \<not> ma_ScaleDownSafe ca \<longrightarrow>
             preserves ss va \<or> va_ReplicaCount va < vd_CurrentReplicas d))"
    if d: "d \<in> set (convertCapacityTargetsToDecisions ts ca ss)" for d
  proof -
    obtain v t where vt: "(v, t) \<in> set ts" "d = capacity_decision ca ss v t"
      using d by (auto simp: convertCapacityTargetsToDecisions_def)
    have act: "vd_Action d = action_for (vd_TargetReplicas d) (vd_CurrentReplicas d)"
      using cap.action_consistent [of "(ca, ss, v, t)"] by (simp add: vt(2))
    obtain va where va: "va \<in> set (ma_VariantAnalyses ca)" "va_VariantName va = v" "decision_cause ca ss va t"
      using targets_cause [of ca v t ss] ok vt(1) by blast
    with act show ?thesis
      by (intro conjI bexI [of _ va]) (auto simp: vt(2) decision_cause_def split: if_splits)
  qed
  show ?thesis by (rule conjI [OF D ballI [OF A]])
qed

text \<open>Replicas that do not report metrics yet are scaled away. When the model must scale up, a variant
  that is not the cheapest candidate, has no pending desired count and has fewer replicas reporting
  metrics than running gets the decision to scale down to the reporting replicas, although the analysis
  has not declared scale-down safe.\<close>

lemma unready_replicas_scaled_down:
  assumes "ms \<noteq> []" and "\<forall>m\<in>set ms. rm_Cost m \<noteq> NaN" and "ca = AnalyzeModelCapacity now modelID ns ms config"
    and "ma_ShouldScaleUp ca" and "va \<in> set (ma_VariantAnalyses ca)" and "\<not> preserves ss va"
    and "\<not> cheapest_candidate ss (ma_VariantAnalyses ca) va"
    and "va_ReplicaCount va < vs_CurrentReplicas (state_of ss (va_VariantName va))"
  shows "\<exists>d\<in>set (convertCapacityTargetsToDecisions (CalculateCapacityTargets (Some ca) ss) ca ss).
    vd_VariantName d = va_VariantName va \<and> vd_Action d = ActionScaleDown \<and> vd_TargetReplicas d = va_ReplicaCount va"
proof -
  have ok: "analysis_ok ca" using AnalyzeModelCapacity_ok(1) [OF assms(1,2)] assms(3) by simp
  have "target_spec ca ss va = va_ReplicaCount va"
    using assms(4,6,7) by (simp add: target_spec_candidates [OF ok assms(5)])
  then have "mget (CalculateCapacityTargets (Some ca) ss) (va_VariantName va) = Some (va_ReplicaCount va)"
    using target_spec_get [OF ok assms(5), of ss] by simp
  then have "(va_VariantName va, va_ReplicaCount va) \<in> set (CalculateCapacityTargets (Some ca) ss)"
    by (rule map_of_SomeD)
  then have "capacity_decision ca ss (va_VariantName va) (va_ReplicaCount va) \<in>
      set (convertCapacityTargetsToDecisions (CalculateCapacityTargets (Some ca) ss) ca ss)"
    by (force simp: convertCapacityTargetsToDecisions_def)
  moreover have "vd_Action (capacity_decision ca ss (va_VariantName va) (va_ReplicaCount va)) = ActionScaleDown"
    using cap.scale_down_iff [of "(ca, ss, va_VariantName va, va_ReplicaCount va)"] assms(8) by simp
  ultimately show ?thesis by (intro bexI [rotated]) auto
qed

text \<open>Two variants with all reporting replicas saturated; the second runs three replicas, two of which report.\<close>

definition busy_fleet :: "ReplicaMetrics list" where
  "busy_fleet = [sample ''a'' (Fin (9 / 10)) 0 (Fin 5), sample ''b'' (Fin (9 / 10)) 0 (Fin 20),
     sample ''b'' (Fin (9 / 10)) 0 (Fin 20)]"

definition busy_states :: "VariantReplicaState list" where
  "busy_states = [\<lparr>vs_VariantName = ''a'', vs_CurrentReplicas = 1, vs_DesiredReplicas = 1\<rparr>,
     \<lparr>vs_VariantName = ''b'', vs_CurrentReplicas = 3, vs_DesiredReplicas = 3\<rparr>]"


text \<open>A quiet cluster: fixed deployments and objects, pods known only by name, and the same samples for every
  query. Reads change nothing; writes and gauges go to a log of updates.\<close>

definition demo_client :: "Deployment list \<Rightarrow> VariantAutoscaling list \<Rightarrow> VariantAutoscaling list Client" where
  "demo_client ds vas =
     \<lparr>cl_GetDeployment = (\<lambda>n ns _ w. case find (\<lambda>d. dp_Name d = n \<and> dp_Namespace d = ns) ds of
        Some d \<Rightarrow> (None, d, w) | None \<Rightarrow> (Some (NotFound (sprintf ''deployment'' [])), zero_Deployment, w)),
      cl_GetConfigMap = (\<lambda>n ns m w. (Some (NotFound (sprintf ''configmap'' [])), m, w)),
      cl_GetVariantAutoscaling = (\<lambda>n ns _ w. case find (\<lambda>v. wa_Name v = n \<and> wa_Namespace v = ns) vas of
        Some v \<Rightarrow> (None, v, w) | None \<Rightarrow> (Some (NotFound (sprintf ''va'' [])), zero_VariantAutoscaling, w)),
      cl_UpdateVariantAutoscalingStatus = (\<lambda>v w. (None, v, w @ [v])),
      cl_ListVariantAutoscalings = (\<lambda>w. (Inr vas, w)),
      cl_LabelSelectorAsSelector = (\<lambda>_. Inr ''''), cl_ListPods = (\<lambda>_ _ w. (Inr [], w)),
      cl_WaitDeployment = (\<lambda>b. poll (bo_Steps b)), cl_WaitConfigMap = (\<lambda>b. poll (bo_Steps b)),
      cl_WaitVariantAutoscaling = (\<lambda>b. poll (bo_Steps b))\<rparr>"

definition demo_prom :: "(string \<times> gofloat) list \<Rightarrow> VariantAutoscaling list Prom" where
  "demo_prom samples =
     \<lparr>pm_Query = (\<lambda>_ _ _ w. (Inr (Vector (map (\<lambda>(p, x). \<lparr>sm_Metric = [(''pod'', p)], sm_Value = x, sm_Timestamp = 1\<rparr>) samples)), w)),
      pm_Now = (\<lambda>_. 1)\<rparr>"

definition demo_env :: "Deployment list \<Rightarrow> VariantAutoscaling list \<Rightarrow> (string \<times> gofloat) list \<Rightarrow> VariantAutoscaling list Env" where
  "demo_env ds vas samples =
     \<lparr>ev_Client = demo_client ds vas, ev_Prom = demo_prom samples, ev_Conditions = list_conditions,
      ev_Vars = MetricsVars.make True True True True, ev_Deadline = None, ev_KvFirst = True, ev_Namespace = ''wva'',
      ev_UnmarshalCapacity = (\<lambda>_. Inr DefaultCapacityScalingConfig)\<rparr>"

definition demo_va :: "string \<Rightarrow> string \<Rightarrow> int \<Rightarrow> VariantAutoscaling" where
  "demo_va n cost desired = zero_VariantAutoscaling
     \<lparr>wa_Name := n, wa_Namespace := ''ns'', wa_Labels := [(acceleratorLabel, ''A100'')],
      wa_Spec := \<lparr>vsp_ModelID = ''llama'', vsp_ModelProfile = [], vsp_VariantCost = cost\<rparr>,
      wa_Status := (wa_Status zero_VariantAutoscaling)
        \<lparr>st_DesiredOptimizedAlloc := \<lparr>oa_LastRunTime = 1, oa_Accelerator = ''A100'', oa_NumReplicas = desired\<rparr>\<rparr>\<rparr>"

definition demo_deployment :: "string \<Rightarrow> int \<Rightarrow> Deployment" where
  "demo_deployment n replicas = zero_Deployment\<lparr>dp_Name := n, dp_Namespace := ''ns'', dp_SpecReplicas := Some replicas,
     dp_StatusReplicas := replicas\<rparr>"

definition demo_vas :: "VariantAutoscaling list" where
  "demo_vas = [demo_va ''a'' ''5'' 1, demo_va ''b'' ''20'' 3]"

definition demo_run :: "VariantAutoscaling list Env" where
  "demo_run = demo_env [demo_deployment ''a'' 1, demo_deployment ''b'' 3] demo_vas
     [(''a-1'', Fin (9 / 10)), (''b-1'', Fin (9 / 10)), (''b-2'', Fin (9 / 10))]"

lemma demo_run_targets:
  "case runCapacityAnalysis demo_run ''llama'' demo_vas DefaultCapacityScalingConfig [] of
     (Inr (Some (ts, ca, ss)), w) \<Rightarrow> ts = [(''a'', 2), (''b'', 2)] | _ \<Rightarrow> False"
  by code_simp

theorem capacity_only_decisions_witness:
  "\<exists>ts ca ss. fst (runCapacityAnalysis demo_run ''llama'' demo_vas DefaultCapacityScalingConfig []) = Inr (Some (ts, ca, ss)) \<and>
     map vd_TargetReplicas (convertCapacityTargetsToDecisions ts ca ss) = [2, 2] \<and>
     distinct (map vd_VariantName (convertCapacityTargetsToDecisions ts ca ss))"
proof -
  obtain ts ca ss w where r: "runCapacityAnalysis demo_run ''llama'' demo_vas DefaultCapacityScalingConfig [] =
      (Inr (Some (ts, ca, ss)), w)" "ts = [(''a'', 2), (''b'', 2)]"
    using demo_run_targets by (auto split: prod.splits sum.splits option.splits)
  have "\<forall>va\<in>set demo_vas. variant_cost va \<noteq> NaN" by code_simp
  from capacity_only_decisions [OF r(1) this] r show ?thesis by (auto simp: convertCapacityTargetsToDecisions_def)
qed

lemma busy_fleet_facts:
  "ma_ShouldScaleUp (AnalyzeModelCapacity () ''llama'' ''ns'' busy_fleet DefaultCapacityScalingConfig)"
  "ma_VariantAnalyses (AnalyzeModelCapacity () ''llama'' ''ns'' busy_fleet DefaultCapacityScalingConfig) =
     [analyzeVariant ''a'' [hd busy_fleet] DefaultCapacityScalingConfig,
      analyzeVariant ''b'' (tl busy_fleet) DefaultCapacityScalingConfig]"
  by code_simp+

lemma unready_replicas_scaled_down_witness:
  "\<exists>d\<in>set (convertCapacityTargetsToDecisions
      (CalculateCapacityTargets (Some (AnalyzeModelCapacity () ''llama'' ''ns'' busy_fleet DefaultCapacityScalingConfig)) busy_states)
      (AnalyzeModelCapacity () ''llama'' ''ns'' busy_fleet DefaultCapacityScalingConfig) busy_states).
    vd_VariantName d = ''b'' \<and> vd_Action d = ActionScaleDown \<and> vd_TargetReplicas d = 2"
proof -
  let ?a = "analyzeVariant ''a'' [hd busy_fleet] DefaultCapacityScalingConfig"
  let ?b = "analyzeVariant ''b'' (tl busy_fleet) DefaultCapacityScalingConfig"
  have f: "va_VariantName ?b = ''b''" "va_ReplicaCount ?b = 2" "\<not> preserves busy_states ?b" "\<not> preserves busy_states ?a"
      "\<not> cheaper ?b ?a" "?a \<noteq> ?b" "vs_CurrentReplicas (state_of busy_states ''b'') = 3"
      "busy_fleet \<noteq> []" "\<forall>m\<in>set busy_fleet. rm_Cost m \<noteq> NaN"
    by code_simp+
  have "\<not> cheapest_candidate busy_states [?a, ?b] ?b" using f(4-6) by (auto simp: cheapest_candidate_def)
  then show ?thesis
    using unready_replicas_scaled_down [OF f(8,9) refl busy_fleet_facts(1), of ?b busy_states] f(1-3,7)
    by (simp add: busy_fleet_facts(2))
qed

section \<open>Applying the decisions\<close>

text \<open>The objects that may be written for a list of decisions: a copy read from the server, with the
  current allocation collected for the variant, the target and accelerator of the decision, marked as
  applied, with the condition OptimizationReady set; no other condition differs from the copy.\<close>

definition acceptable_update ::
  "'w Env \<Rightarrow> va_map \<Rightarrow> VariantDecision list \<Rightarrow> VariantAutoscaling \<Rightarrow> bool" where
  "acceptable_update env vaMap ds u \<longleftrightarrow>
     (\<exists>d\<in>set ds. \<exists>va copy v v'. mget vaMap (vd_VariantName d) = Some va \<and>
        GetVariantAutoscalingWithBackoff (ev_Client env) (wa_Name va) (wa_Namespace va) v = (None, copy, v') \<and>
        wa_Name u = wa_Name copy \<and> wa_Namespace u = wa_Namespace copy \<and> wa_Spec u = wa_Spec copy \<and>
        st_CurrentAlloc (wa_Status u) = st_CurrentAlloc (wa_Status va) \<and>
        cr_Accelerator (st_CurrentAlloc (wa_Status u)) \<noteq> '''' \<and>
        oa_NumReplicas (st_DesiredOptimizedAlloc (wa_Status u)) = vd_TargetReplicas d \<and>
        oa_Accelerator (st_DesiredOptimizedAlloc (wa_Status u)) = vd_AcceleratorName d \<and>
        2 \<le> length (vd_AcceleratorName d) \<and> act_Applied (st_Actuation (wa_Status u)) \<and>
        IsConditionTrue (ev_Conditions env) u TypeOptimizationReady \<and>
        (\<forall>t. t \<noteq> TypeOptimizationReady \<longrightarrow>
           GetCondition (ev_Conditions env) u t = GetCondition (ev_Conditions env) copy t))"

lemma GetCondition_status:
  "st_Conditions (wa_Status a) = st_Conditions (wa_Status b) \<Longrightarrow> GetCondition api a t = GetCondition api b t"
  by (simp add: GetCondition_def)

lemma decided_va_fields [simp]:
  "wa_Name (decided_va env now va d u) = wa_Name u" "wa_Namespace (decided_va env now va d u) = wa_Namespace u"
  "wa_Spec (decided_va env now va d u) = wa_Spec u"
  "st_CurrentAlloc (wa_Status (decided_va env now va d u)) = st_CurrentAlloc (wa_Status va)"
  "oa_NumReplicas (st_DesiredOptimizedAlloc (wa_Status (decided_va env now va d u))) = vd_TargetReplicas d"
  "oa_Accelerator (st_DesiredOptimizedAlloc (wa_Status (decided_va env now va d u))) = vd_AcceleratorName d"
  by (simp_all add: decided_va_def case_prod_beta)

lemma set_applied_fields [simp]:
  "wa_Name (set_applied u) = wa_Name u" "wa_Namespace (set_applied u) = wa_Namespace u" "wa_Spec (set_applied u) = wa_Spec u"
  "st_CurrentAlloc (wa_Status (set_applied u)) = st_CurrentAlloc (wa_Status u)"
  "st_DesiredOptimizedAlloc (wa_Status (set_applied u)) = st_DesiredOptimizedAlloc (wa_Status u)"
  "act_Applied (st_Actuation (wa_Status (set_applied u)))"
  "st_Conditions (wa_Status (set_applied u)) = st_Conditions (wa_Status u)"
  by (simp_all add: set_applied_def)

lemma decided_va_conditions:
  assumes "condition_store (ev_Conditions env)"
  shows "IsConditionTrue (ev_Conditions env) (set_applied (decided_va env now va d u)) TypeOptimizationReady"
    and "t \<noteq> TypeOptimizationReady \<Longrightarrow>
      GetCondition (ev_Conditions env) (set_applied (decided_va env now va d u)) t = GetCondition (ev_Conditions env) u t"
proof -
  let ?api = "ev_Conditions env"
  let ?u = "u\<lparr>wa_Status := (wa_Status u)\<lparr>st_CurrentAlloc := st_CurrentAlloc (wa_Status va),
      st_DesiredOptimizedAlloc := \<lparr>oa_LastRunTime = now, oa_Accelerator = vd_AcceleratorName d, oa_NumReplicas = vd_TargetReplicas d\<rparr>,
      st_Actuation := \<lparr>act_Applied = False\<rparr>\<rparr>\<rparr>"
  let ?s = "SetCondition ?api now ?u TypeOptimizationReady ConditionTrue (fst (decision_condition d)) (snd (decision_condition d))"
  have eq: "decided_va env now va d u = ?s" by (simp add: decided_va_def case_prod_beta)
  have get: "GetCondition ?api (set_applied ?s) t' = GetCondition ?api ?s t'" for t' by (rule GetCondition_status) simp
  obtain c where "GetCondition ?api ?s TypeOptimizationReady = Some c" "cn_Status c = ConditionTrue"
    using GetCondition_SetCondition(1) [OF assms] by blast
  then show "IsConditionTrue ?api (set_applied (decided_va env now va d u)) TypeOptimizationReady"
    using assms get [of TypeOptimizationReady] by (simp add: eq IsConditionTrue_def condition_store_def GetCondition_def)
  show "GetCondition ?api (set_applied (decided_va env now va d u)) t = GetCondition ?api u t" if "t \<noteq> TypeOptimizationReady"
    using GetCondition_SetCondition(2) [OF assms that] get [of t] by (simp add: eq GetCondition_def)
qed

lemma EmitMetrics_keeps:
  assumes "documented_client (c :: 'w Client)" and "reads_keep c I" and "I w"
  shows "I (snd (snd (EmitMetrics c vars va w)))" and "fst (EmitMetrics c vars va w) = None"
proof -
  have "I (snd (GetCurrentDeploymentReplicas c va w))"
    using client_reads_keep(1) [OF assms] by (simp add: GetCurrentDeploymentReplicas_def Let_def case_prod_beta)
  then show "I (snd (snd (EmitMetrics c vars va w)))" using assms(3) by (simp add: EmitMetrics_def Let_def case_prod_beta)
  show "fst (EmitMetrics c vars va w) = None" by (simp add: EmitMetrics_def Let_def case_prod_beta)
qed

text \<open>What the proof needs of the environment: the documented client and conditions, a property that reads
  keep, and that the acceptable updates keep it too.\<close>

definition updates_keep :: "'w Env \<Rightarrow> va_map \<Rightarrow> VariantDecision list \<Rightarrow> ('w \<Rightarrow> bool) \<Rightarrow> bool" where
  "updates_keep env vaMap ds I \<longleftrightarrow> (\<forall>u v. acceptable_update env vaMap ds u \<longrightarrow> I v \<longrightarrow>
     I (snd (snd (cl_UpdateVariantAutoscalingStatus (ev_Client env) u v))))"

lemma apply_decision_keeps:
  fixes env :: "'w Env"
  assumes "documented_client (ev_Client env)" and "condition_store (ev_Conditions env)" and "reads_keep (ev_Client env) I"
    and "failed_update_keeps (cl_UpdateVariantAutoscalingStatus (ev_Client env))"
    and "updates_keep env vaMap ds I" and "d \<in> set ds" and "I (snd st)"
  shows "I (snd (apply_decision env vaMap st d))"
proof -
  let ?c = "ev_Client env"
  obtain es w where st: "st = (es, w)" by fastforce
  show ?thesis
  proof (cases "mget vaMap (vd_VariantName d)")
    case None
    then show ?thesis using assms(7) by (simp add: apply_decision_def st)
  next
    case (Some va)
    obtain e copy w1 where g: "GetVariantAutoscalingWithBackoff ?c (wa_Name va) (wa_Namespace va) w = (e, copy, w1)"
      by (metis prod_cases3)
    have w1: "I w1" using client_reads_keep(3) [OF assms(1,3), of w "wa_Name va" "wa_Namespace va"] assms(7) g st by simp
    show ?thesis
    proof (cases "e \<noteq> None \<or> cr_Accelerator (st_CurrentAlloc (wa_Status va)) = '''' \<or> vd_AcceleratorName d = '''' \<or>
        length (vd_AcceleratorName d) < 2")
      case True
      then show ?thesis using w1 by (auto simp: apply_decision_def st Some g Let_def)
    next
      case False
      define u where "u = decided_va env (pm_Now (ev_Prom env) w1) va d copy"
      obtain es' w2 where em: "EmitMetrics ?c (ev_Vars env) u w1 = (None, es', w2)" and w2: "I w2"
        using EmitMetrics_keeps [OF assms(1,3) w1, of "ev_Vars env" u]
        by (cases "EmitMetrics ?c (ev_Vars env) u w1") auto
      have ok: "acceptable_update env vaMap ds (set_applied u)"
        unfolding acceptable_update_def
        by (rule bexI [OF _ assms(6)], rule exI [of _ va], rule exI [of _ copy], rule exI [of _ w], rule exI [of _ w1])
          (use False Some g decided_va_conditions [OF assms(2)] in \<open>simp add: u_def\<close>)
      have wait: "documented_wait (cl_WaitVariantAutoscaling ?c)" using assms(1) by (simp add: documented_client_def)
      have upd: "I v \<Longrightarrow> I (snd (snd (cl_UpdateVariantAutoscalingStatus ?c (set_applied u) v)))" for v
        using assms(5) ok by (simp add: updates_keep_def)
      have "I (snd (snd (UpdateStatusWithBackoff (cl_WaitVariantAutoscaling ?c) (cl_UpdateVariantAutoscalingStatus ?c)
          (set_applied u) StandardBackoff w2)))"
        by (rule update_with_backoff_keeps [where I = I, OF wait w2 assms(4) upd])
      then show ?thesis
        using False em by (simp add: apply_decision_def st Some g Let_def case_prod_beta u_def [symmetric])
    qed
  qed
qed

text \<open>Nothing else is written: any property of the outside world that reads keep, and that updates with
  acceptable objects keep, holds after the decisions are applied.\<close>

lemma applyCapacityDecisions_keeps:
  fixes env :: "'w Env"
  assumes "documented_client (ev_Client env)" and "condition_store (ev_Conditions env)" and "reads_keep (ev_Client env) I"
    and "failed_update_keeps (cl_UpdateVariantAutoscalingStatus (ev_Client env))"
    and "updates_keep env vaMap ds I" and "I w"
  shows "I (snd (applyCapacityDecisions env ds vaMap w))"
proof -
  have "set ds' \<subseteq> set ds \<Longrightarrow> I (snd st) \<Longrightarrow> I (snd (foldl (apply_decision env vaMap) st ds'))" for ds' st
    by (induction ds' arbitrary: st) (use apply_decision_keeps [OF assms(1-5)] in auto)
  then show ?thesis using assms(6) by (simp add: applyCapacityDecisions_def)
qed

lemma demo_run_documented:
  "documented_client (ev_Client (demo_env ds vas ss))" "condition_store (ev_Conditions (demo_env ds vas ss))"
  "failed_update_keeps (cl_UpdateVariantAutoscalingStatus (ev_Client (demo_env ds vas ss)))"
  "reads_keep (ev_Client (demo_env ds vas ss)) I"
  by (simp_all add: demo_env_def demo_client_def documented_client_def documented_wait_poll list_conditions_store
      failed_update_keeps_def reads_keep_def split: option.splits)

section \<open>The safety net\<close>

lemma replicas_or_status_keeps:
  assumes "documented_client (ev_Client env)" and "reads_keep (ev_Client env) I" and "I w"
  shows "I (snd (replicas_or_status env va w))"
  using client_reads_keep(1) [OF assms]
  by (simp add: replicas_or_status_def GetCurrentDeploymentReplicas_def Let_def case_prod_beta)

lemma safety_net_keeps:
  assumes "documented_client (ev_Client env)" and "reads_keep (ev_Client env) I"
  shows "I w \<Longrightarrow> I (snd (emitSafetyNetMetrics env vas w))"
proof -
  have one: "I (snd st) \<Longrightarrow> I (snd (safety_net_one env st va))" for st va
  proof -
    assume st: "I (snd st)"
    obtain es w where s: "st = (es, w)" by fastforce
    obtain e u w1 where g: "GetVariantAutoscalingWithBackoff (ev_Client env) (wa_Name va) (wa_Namespace va) w = (e, u, w1)"
      by (metis prod_cases3)
    have w1: "I w1" using client_reads_keep(3) [OF assms, of w "wa_Name va" "wa_Namespace va"] st g s by simp
    note k = replicas_or_status_keeps [OF assms]
    show ?thesis using w1 k [OF w1, of u] k [OF k [OF w1, of u], of u]
      by (simp add: safety_net_one_def s g Let_def case_prod_beta)
  qed
  have "I (snd st) \<Longrightarrow> I (snd (foldl (safety_net_one env) st vas))" for st
    by (induction vas arbitrary: st) (use one in auto)
  then show "I w \<Longrightarrow> I (snd (emitSafetyNetMetrics env vas w))" by (simp add: emitSafetyNetMetrics_def)
qed

text \<open>C31: the safety net is a signal that changes nothing. Whatever the API answers, it writes no status (any
  property of the outside world that reads keep is kept). For a variant whose object can be read, that
  has an accelerator name and whose deployment reads the same twice, it emits the previous
  desired count, and without one the current replicas as desired replicas, so that the ratio is
  one, or zero when nothing runs.\<close>

theorem safety_net_signal:
  fixes env :: "'w Env"
  assumes "documented_client (ev_Client env)" and "reads_keep (ev_Client env) I" and "I w"
    and "GetVariantAutoscalingWithBackoff (ev_Client env) (wa_Name va) (wa_Namespace va) w = (None, u, w1)"
    and "fallback_accelerator u \<noteq> ''''" and "\<And>v. snd (replicas_or_status env u v) = v"
    and "mv_currentReplicas (ev_Vars env)" and "mv_desiredReplicas (ev_Vars env)" and "mv_desiredRatio (ev_Vars env)"
  shows "I (snd (emitSafetyNetMetrics env vas w)) \<and>
    (let es = fst (emitSafetyNetMetrics env [va] w); l = replica_labels u (fallback_accelerator u);
         previous = oa_NumReplicas (st_DesiredOptimizedAlloc (wa_Status u));
         c = fst (replicas_or_status env u w1)
     in gauge_after es InfernoCurrentReplicas l = Some (float_of_int c) \<and>
        gauge_after es InfernoDesiredReplicas l = Some (float_of_int (if previous > 0 then int32 previous else c)) \<and>
        (previous \<le> 0 \<longrightarrow> gauge_after es InfernoDesiredRatio l = Some (Fin (if c = 0 then 0 else 1))))"
proof
  show "I (snd (emitSafetyNetMetrics env vas w))" by (rule safety_net_keeps [OF assms(1-3)])
  let ?p = "oa_NumReplicas (st_DesiredOptimizedAlloc (wa_Status u))"
  obtain c where r: "replicas_or_status env u w1 = (c, w1)" using assms(6) [of w1] by (cases "replicas_or_status env u w1") simp
  have es: "fst (emitSafetyNetMetrics env [va] w) =
      snd (EmitReplicaMetrics (ev_Vars env) u c (if ?p > 0 then int32 ?p else c) (fallback_accelerator u))"
    using assms(4,5) by (cases "?p > 0") (simp_all add: emitSafetyNetMetrics_def safety_net_one_def r)
  show "let es = fst (emitSafetyNetMetrics env [va] w); l = replica_labels u (fallback_accelerator u);
         previous = oa_NumReplicas (st_DesiredOptimizedAlloc (wa_Status u));
         c = fst (replicas_or_status env u w1)
     in gauge_after es InfernoCurrentReplicas l = Some (float_of_int c) \<and>
        gauge_after es InfernoDesiredReplicas l = Some (float_of_int (if previous > 0 then int32 previous else c)) \<and>
        (previous \<le> 0 \<longrightarrow> gauge_after es InfernoDesiredRatio l = Some (Fin (if c = 0 then 0 else 1)))"
    unfolding Let_def es r by (simp add: EmitReplicaMetrics_gauges [OF assms(7-9)])
qed

theorem safety_net_signal_witness:
  "gauge_after (fst (emitSafetyNetMetrics (demo_env [demo_deployment ''a'' 4] [demo_va ''a'' ''5'' 0] []) [demo_va ''a'' ''5'' 0] []))
     InfernoDesiredReplicas (replica_labels (demo_va ''a'' ''5'' 0) ''A100'') = Some (Fin 4) \<and>
   snd (emitSafetyNetMetrics (demo_env [demo_deployment ''a'' 4] [demo_va ''a'' ''5'' 0] []) [demo_va ''a'' ''5'' 0] []) = []"
proof -
  let ?env = "demo_env [demo_deployment ''a'' 4] [demo_va ''a'' ''5'' 0] []" and ?va = "demo_va ''a'' ''5'' 0"
  have g: "GetVariantAutoscalingWithBackoff (ev_Client ?env) (wa_Name ?va) (wa_Namespace ?va) [] = (None, ?va, [])"
    "fallback_accelerator ?va = ''A100''"
    "oa_NumReplicas (st_DesiredOptimizedAlloc (wa_Status ?va)) = 0"
    "fst (replicas_or_status ?env ?va []) = 4"
    by code_simp+
  have s: "snd (replicas_or_status ?env ?va v) = v" for v
    using replicas_or_status_keeps [OF demo_run_documented(1) demo_run_documented(4), of "\<lambda>w. w = v" v] by simp
  have v: "mv_currentReplicas (ev_Vars ?env)" "mv_desiredReplicas (ev_Vars ?env)" "mv_desiredRatio (ev_Vars ?env)"
    by (simp_all add: demo_env_def MetricsVars.defs)
  note sn = safety_net_signal [where I = "\<lambda>w. w = []" and vas = "[?va]",
      OF demo_run_documented(1) demo_run_documented(4) refl g(1) _ s v, unfolded g Let_def, simplified]
  show ?thesis using sn by (simp add: float_of_int_def)
qed

end
