(* ===== verification/Wva_Cache.thy ===== *)
theory Wva_Cache
  imports Wva_Decisions
begin

text \<open>
  The cache of the capacity configuration (\<^verbatim>\<open>internal/controller/variantautoscaling_controller.go\<close>, from
  \<^verbatim>\<open>updateCapacityConfigCache\<close> on): the states that loads and config map events reach, and the
  configuration a model gets from it.
\<close>

section \<open>The configuration cache\<close>

text \<open>The states that loads and config map events can produce, each at an arbitrary moment.\<close>

inductive cache_reachable :: "'w Env \<Rightarrow> Reconciler \<Rightarrow> bool" for env :: "'w Env" where
  start: "cache_reachable env \<lparr>rc_capacityConfigCache = [], rc_capacityConfigLoaded = False\<rparr>"
| load: "cache_reachable env r \<Longrightarrow> InitializeCapacityConfigCache env r w = (e, r', w') \<Longrightarrow> cache_reachable env r'"
| event: "cache_reachable env r \<Longrightarrow> handleCapacityConfigMapEvent env r obj w = (reqs, r', w') \<Longrightarrow> cache_reachable env r'"

definition cache_ok :: "(string, CapacityScalingConfig) gomap \<Rightarrow> bool" where
  "cache_ok configs \<longleftrightarrow> wf_map configs \<and> mget configs ''default'' \<noteq> None \<and> (\<forall>c\<in>snd ` set configs. Validate c = None)"

lemma Validate_default: "Validate DefaultCapacityScalingConfig = None"
  by (simp add: Validate_def DefaultCapacityScalingConfig_def zero_CapacityScalingConfig_def)

lemma parse_entries_ok:
  "wf_map m \<Longrightarrow> \<forall>c\<in>snd ` set m. Validate c = None \<Longrightarrow>
    wf_map (foldl (parse_entry env) m kvs) \<and> (\<forall>c\<in>snd ` set (foldl (parse_entry env) m kvs). Validate c = None)"
proof (induction kvs arbitrary: m)
  case (Cons kv kvs)
  have "wf_map (parse_entry env m kv) \<and> (\<forall>c\<in>snd ` set (parse_entry env m kv). Validate c = None)"
    using Cons.prems set_mput [of "fst kv" _ m] by (fastforce simp: parse_entry_def split: sum.splits option.splits)
  from Cons.IH [OF conjunct1 [OF this] conjunct2 [OF this]] show ?case by simp
qed simp

lemma readCapacityScalingConfig_ok:
  assumes "readCapacityScalingConfig env n ns w = (Inr configs, w')"
  shows "cache_ok configs"
proof -
  obtain e cm w1 where g: "GetConfigMapWithBackoff (ev_Client env) n ns w = (e, cm, w1)" by (metis prod_cases3)
  define ps where "ps = foldl (parse_entry env) [] cm"
  have ps: "wf_map ps" "\<forall>c\<in>snd ` set ps. Validate c = None" using parse_entries_ok [of "[]" env cm] by (simp_all add: ps_def)
  consider "configs = [(''default'', DefaultCapacityScalingConfig)]"
    | "configs = (if mget ps ''default'' = None then mput ''default'' DefaultCapacityScalingConfig ps else ps)"
    using assms g by (auto simp: readCapacityScalingConfig_def ps_def Let_def split: option.splits kerror.splits)
  then show ?thesis
  proof cases
    case 1
    then show ?thesis by (simp add: cache_ok_def wf_map_def Validate_default)
  next
    case 2
    then show ?thesis
      using ps set_mput [of "''default''" DefaultCapacityScalingConfig ps] Validate_default by (auto simp: cache_ok_def)
  qed
qed

lemma updateCapacityConfigCache_cases:
  assumes "updateCapacityConfigCache env r w = (e, r', w')"
  shows "(e \<noteq> None \<and> r' = r) \<or> (e = None \<and> rc_capacityConfigLoaded r' \<and> cache_ok (rc_capacityConfigCache r'))"
  using assms readCapacityScalingConfig_ok
  by (auto simp: updateCapacityConfigCache_def split: prod.splits sum.splits)

lemma handle_event_cache:
  assumes "handleCapacityConfigMapEvent env r obj w = (reqs, r', w')"
  shows "r' = r \<or> (\<exists>e v v'. updateCapacityConfigCache env r v = (e, r', v'))"
  using assms by (auto simp: handleCapacityConfigMapEvent_def split: if_splits prod.splits sum.splits)

text \<open>The overrides that match a model in a namespace.\<close>

definition matching :: "string \<Rightarrow> string \<Rightarrow> string \<times> CapacityScalingConfig \<Rightarrow> bool" where
  "matching modelID ns e \<longleftrightarrow> fst e \<noteq> ''default'' \<and> cs_ModelID (snd e) = modelID \<and> cs_Namespace (snd e) = ns"

text \<open>What loads and events keep: the cache is empty until the first load succeeds, and then has a default
  entry and only valid entries.\<close>

lemma cache_reachable_ok:
  "cache_reachable env r \<Longrightarrow>
    (if rc_capacityConfigLoaded r then cache_ok (rc_capacityConfigCache r) else rc_capacityConfigCache r = [])"
proof (induction rule: cache_reachable.induct)
  case (load r w e r' w')
  then show ?case using updateCapacityConfigCache_cases [of env r w e r' w']
    by (auto simp: InitializeCapacityConfigCache_def)
next
  case (event r obj w reqs r' w')
  then show ?case using handle_event_cache [of env r obj w reqs r' w'] updateCapacityConfigCache_cases [of env r] by metis
qed simp

lemma default_order_independent:
  assumes "cache_ok configs" and "mset configs' = mset configs"
  shows "mget0 zero_CapacityScalingConfig configs' ''default'' = the (mget configs ''default'')"
proof -
  have "distinct (map fst configs')"
    using assms unfolding cache_ok_def wf_map_def by (metis mset_eq_imp_distinct_iff mset_map)
  moreover have "distinct (map fst configs)" using assms(1) by (simp add: cache_ok_def wf_map_def)
  moreover have "set configs' = set configs" using assms(2) by (metis set_mset_mset)
  ultimately have "mget configs' ''default'' = mget configs ''default''" by (metis map_of_inject_set)
  then show ?thesis using assms(1) by (auto simp: cache_ok_def mget0_def)
qed

text \<open>The configuration of a model in terms of the cache: the default entry, merged with the override if there
  is one.\<close>

definition config_spec :: "(string, CapacityScalingConfig) gomap \<Rightarrow> string \<Rightarrow> string \<Rightarrow> CapacityScalingConfig" where
  "config_spec configs modelID ns =
     (let d = the (mget configs ''default'')
      in case filter (matching modelID ns) configs of [] \<Rightarrow> d | e # _ \<Rightarrow> Merge d (snd e))"

definition one_override :: "(string, CapacityScalingConfig) gomap \<Rightarrow> string \<Rightarrow> string \<Rightarrow> bool" where
  "one_override configs modelID ns \<longleftrightarrow> length (filter (matching modelID ns) configs) \<le> 1"

lemma apply_override_filter:
  "apply_override cs modelID ns c = (case filter (matching modelID ns) cs of [] \<Rightarrow> c | e # _ \<Rightarrow> Merge c (snd e))"
  by (induction cs modelID ns c rule: apply_override.induct) (auto simp: matching_def)

lemma mset_length_le_1: "mset xs = mset ys \<Longrightarrow> length ys \<le> 1 \<Longrightarrow> xs = ys"
  by (cases ys) auto

lemma config_order_independent:
  assumes "cache_ok configs" and "mset configs' = mset configs" and "one_override configs modelID ns"
  shows "getCapacityScalingConfigForVariant configs' modelID ns = config_spec configs modelID ns"
proof -
  have "filter (matching modelID ns) configs' = filter (matching modelID ns) configs"
    by (rule mset_length_le_1) (use assms(2,3) in \<open>simp_all add: one_override_def mset_filter\<close>)
  then show ?thesis
    using default_order_independent [OF assms(1,2)]
    by (simp add: getCapacityScalingConfigForVariant_def apply_override_filter config_spec_def Let_def)
qed


text \<open>The state after the first load on a cluster without the config map.\<close>

definition loaded_cache :: Reconciler where
  "loaded_cache = \<lparr>rc_capacityConfigCache = [(''default'', DefaultCapacityScalingConfig)], rc_capacityConfigLoaded = True\<rparr>"


end
