(* ===== verification/Wva_Lock.thy ===== *)
theory Wva_Lock
  imports Wva_Cache
begin

text \<open>
  The mutex of the capacity configuration cache
  (\<^verbatim>\<open>internal/controller/variantautoscaling_controller.go\<close>, \<^verbatim>\<open>getCapacityConfigFromCache\<close> to
  \<^verbatim>\<open>isCapacityConfigLoaded\<close>). Reconciliations read the cache while event handlers reload it. Any number
  of goroutines run one operation each, interleaved at the granularity of reads and writes of the two
  fields; a read--write mutex orders them. The operations of \<open>Wva_Controller\<close> work on the cache in one
  step. The theorem is that the interleaved operations implement them: every run is one of the atomic
  operations in the order of their critical sections. The mutex lets any waiting goroutine in that it may.
\<close>

section \<open>The operations as steps\<close>

type_synonym configs = "(string, CapacityScalingConfig) gomap"

datatype getter = FromCache | Safe

text \<open>Where a goroutine is, with its local variables: the entries still to copy and the copy, the value to
  return, the new configuration.\<close>

datatype cache_pc =
    GetRLock getter | GetRange getter | GetCopy getter configs configs | GetRUnlock configs "bool option"
  | GetReturned configs "bool option"
  | UpdLock configs | UpdCache configs | UpdLoaded | UpdUnlock | UpdReturned
  | IsRLock | IsRead | IsRUnlock bool | IsReturned bool

record 'g cache_state =
  cs_cache :: configs
  cs_loaded :: bool
  cs_readers :: "'g set"
  cs_writer :: "'g option"
  cs_pc :: "'g \<Rightarrow> cache_pc"

text \<open>What a step does to the cache as others see it.\<close>

datatype 'g cache_event = Internal | Update 'g configs | Get 'g configs "bool option" | IsLoaded 'g bool

inductive cache_step :: "'g cache_state \<Rightarrow> 'g cache_event \<Rightarrow> 'g cache_state \<Rightarrow> bool" where
  get_rlock: "cs_pc s g = GetRLock k \<Longrightarrow> cs_writer s = None \<Longrightarrow>
    cache_step s Internal (s\<lparr>cs_pc := (cs_pc s)(g := GetRange k), cs_readers := insert g (cs_readers s)\<rparr>)"
| get_range: "cs_pc s g = GetRange k \<Longrightarrow>
    cache_step s Internal (s\<lparr>cs_pc := (cs_pc s)(g := GetCopy k (cs_cache s) [])\<rparr>)"
| get_copy: "cs_pc s g = GetCopy k ((key, v) # rest) copy \<Longrightarrow>
    cache_step s Internal (s\<lparr>cs_pc := (cs_pc s)(g := GetCopy k rest (mput key v copy))\<rparr>)"
| get_from: "cs_pc s g = GetCopy FromCache [] copy \<Longrightarrow>
    cache_step s (Get g copy None) (s\<lparr>cs_pc := (cs_pc s)(g := GetRUnlock copy None)\<rparr>)"
| get_safe: "cs_pc s g = GetCopy Safe [] copy \<Longrightarrow>
    cache_step s (Get g copy (Some (cs_loaded s))) (s\<lparr>cs_pc := (cs_pc s)(g := GetRUnlock copy (Some (cs_loaded s)))\<rparr>)"
| get_runlock: "cs_pc s g = GetRUnlock c b \<Longrightarrow>
    cache_step s Internal (s\<lparr>cs_pc := (cs_pc s)(g := GetReturned c b), cs_readers := cs_readers s - {g}\<rparr>)"
| upd_lock: "cs_pc s g = UpdLock c \<Longrightarrow> cs_writer s = None \<Longrightarrow> cs_readers s = {} \<Longrightarrow>
    cache_step s Internal (s\<lparr>cs_pc := (cs_pc s)(g := UpdCache c), cs_writer := Some g\<rparr>)"
| upd_cache: "cs_pc s g = UpdCache c \<Longrightarrow>
    cache_step s (Update g c) (s\<lparr>cs_pc := (cs_pc s)(g := UpdLoaded), cs_cache := c\<rparr>)"
| upd_loaded: "cs_pc s g = UpdLoaded \<Longrightarrow>
    cache_step s Internal (s\<lparr>cs_pc := (cs_pc s)(g := UpdUnlock), cs_loaded := True\<rparr>)"
| upd_unlock: "cs_pc s g = UpdUnlock \<Longrightarrow>
    cache_step s Internal (s\<lparr>cs_pc := (cs_pc s)(g := UpdReturned), cs_writer := None\<rparr>)"
| is_rlock: "cs_pc s g = IsRLock \<Longrightarrow> cs_writer s = None \<Longrightarrow>
    cache_step s Internal (s\<lparr>cs_pc := (cs_pc s)(g := IsRead), cs_readers := insert g (cs_readers s)\<rparr>)"
| is_read: "cs_pc s g = IsRead \<Longrightarrow>
    cache_step s (IsLoaded g (cs_loaded s)) (s\<lparr>cs_pc := (cs_pc s)(g := IsRUnlock (cs_loaded s))\<rparr>)"
| is_runlock: "cs_pc s g = IsRUnlock b \<Longrightarrow>
    cache_step s Internal (s\<lparr>cs_pc := (cs_pc s)(g := IsReturned b), cs_readers := cs_readers s - {g}\<rparr>)"

inductive_cases cache_step_UpdateE: "cache_step s (Update g c) s'"

inductive cache_run :: "'g cache_state \<Rightarrow> 'g cache_event list \<Rightarrow> 'g cache_state \<Rightarrow> bool" for s0 :: "'g cache_state" where
  none: "cache_run s0 [] s0"
| more: "cache_run s0 tr s \<Longrightarrow> cache_step s e s' \<Longrightarrow> cache_run s0 (tr @ [e]) s'"

fun returned :: "cache_pc \<Rightarrow> bool" where
  "returned (GetReturned _ _) = True"
| "returned UpdReturned = True"
| "returned (IsReturned _) = True"
| "returned _ = False"

section \<open>The atomic operations\<close>

text \<open>An event as an operation of \<open>Wva_Controller\<close>; \<open>None\<close> if the operation does not return the value of the event.\<close>

fun atomic :: "Reconciler \<Rightarrow> 'g cache_event \<Rightarrow> Reconciler option" where
  "atomic r Internal = Some r"
| "atomic r (Update g c) = Some (r\<lparr>rc_capacityConfigCache := c, rc_capacityConfigLoaded := True\<rparr>)"
| "atomic r (Get g c None) = (if getCapacityConfigFromCache r = c then Some r else None)"
| "atomic r (Get g c (Some b)) = (if getCapacityConfigSafe r = (c, b) then Some r else None)"
| "atomic r (IsLoaded g b) = (if isCapacityConfigLoaded r = b then Some r else None)"

text \<open>The cache as others see it: an update has happened with its first write.\<close>

definition seen :: "'g cache_state \<Rightarrow> Reconciler" where
  "seen s = \<lparr>rc_capacityConfigCache = cs_cache s,
     rc_capacityConfigLoaded = (cs_loaded s \<or> (\<exists>g. cs_pc s g = UpdLoaded))\<rparr>"

section \<open>The invariant\<close>

fun holds_read :: "cache_pc \<Rightarrow> bool" where
  "holds_read (GetRange _) = True"
| "holds_read (GetCopy _ _ _) = True"
| "holds_read (GetRUnlock _ _) = True"
| "holds_read IsRead = True"
| "holds_read (IsRUnlock _) = True"
| "holds_read _ = False"

fun holds_write :: "cache_pc \<Rightarrow> bool" where
  "holds_write (UpdCache _) = True"
| "holds_write UpdLoaded = True"
| "holds_write UpdUnlock = True"
| "holds_write _ = False"

fun pc_ok :: "configs \<Rightarrow> cache_pc \<Rightarrow> bool" where
  "pc_ok cache (GetCopy k rest copy) = (copy @ rest = cache)"
| "pc_ok cache (UpdLock c) = cache_ok c"
| "pc_ok cache (UpdCache c) = cache_ok c"
| "pc_ok cache _ = True"

text \<open>A loaded cache is one that passed validation; before the first load it is empty.\<close>

definition loaded_ok :: "configs \<Rightarrow> bool \<Rightarrow> bool" where
  "loaded_ok c b \<longleftrightarrow> (if b then cache_ok c else c = [])"

definition mutex_ok :: "'g cache_state \<Rightarrow> bool" where
  "mutex_ok s \<longleftrightarrow> (\<forall>g. holds_read (cs_pc s g) \<longleftrightarrow> g \<in> cs_readers s) \<and>
     (\<forall>g. holds_write (cs_pc s g) \<longleftrightarrow> cs_writer s = Some g) \<and> (cs_writer s = None \<or> cs_readers s = {})"

definition locals_ok :: "'g cache_state \<Rightarrow> bool" where
  "locals_ok s \<longleftrightarrow> wf_map (cs_cache s) \<and> (\<forall>g. pc_ok (cs_cache s) (cs_pc s g))"

lemma pc_ok_no_copy: "pc_ok c p \<Longrightarrow> \<not> holds_read p \<Longrightarrow> pc_ok c' p"
  by (cases p) auto

lemma mutex_ok_step: "cache_step s e s' \<Longrightarrow> mutex_ok s \<Longrightarrow> mutex_ok s'"
  by (induction rule: cache_step.induct) (auto simp: mutex_ok_def, (metis holds_read.simps holds_write.simps)+)

lemma mput_copy: "wf_map (copy @ (key, v) # rest) \<Longrightarrow> mput key v copy @ rest = copy @ (key, v) # rest"
proof (induction copy)
  case (Cons x xs)
  then show ?case by (cases x) (auto simp: wf_map_def)
qed simp

lemma locals_ok_step:
  assumes "cache_step s e s'" and "mutex_ok s" and "locals_ok s"
  shows "locals_ok s'"
  using assms
proof (induction rule: cache_step.induct)
  case (get_copy s g k key v rest copy)
  then have "copy @ (key, v) # rest = cs_cache s" "wf_map (cs_cache s)" by (metis locals_ok_def pc_ok.simps(1))+
  then have "mput key v copy @ rest = cs_cache s" using mput_copy by metis
  with get_copy.prems show ?case by (simp add: locals_ok_def)
next
  case (upd_cache s g c)
  then have "cs_writer s = Some g" by (metis holds_write.simps(1) mutex_ok_def)
  then have "\<not> holds_read (cs_pc s g')" for g' using upd_cache.prems(1) by (auto simp: mutex_ok_def)
  moreover have "cache_ok c" using upd_cache by (metis locals_ok_def pc_ok.simps(3))
  moreover have "pc_ok c (cs_pc s g')" for g'
    using upd_cache.prems(2) calculation(1) pc_ok_no_copy [of "cs_cache s" "cs_pc s g'" c] by (simp add: locals_ok_def)
  ultimately show ?case by (simp add: locals_ok_def cache_ok_def)
next
  case (upd_lock s g c)
  then have "cache_ok c" by (metis locals_ok_def pc_ok.simps(2))
  with upd_lock.prems show ?case by (simp add: locals_ok_def)
qed (auto simp: locals_ok_def)

section \<open>The interleaved operations implement the atomic ones\<close>

lemma reader_excludes: "mutex_ok s \<Longrightarrow> holds_read (cs_pc s g) \<Longrightarrow> cs_pc s g' \<noteq> UpdLoaded"
  by (metis empty_iff holds_write.simps(2) mutex_ok_def option.distinct(1))

lemma reader_sees:
  assumes "mutex_ok s" and "holds_read (cs_pc s g)"
  shows "seen s = \<lparr>rc_capacityConfigCache = cs_cache s, rc_capacityConfigLoaded = cs_loaded s\<rparr>"
  using reader_excludes [OF assms] by (simp add: seen_def)

text \<open>A step that does not touch the fields and does not enter or leave the point between the two writes.\<close>

lemma seen_same:
  assumes "cs_cache s' = cs_cache s" and "cs_loaded s' = cs_loaded s" and "cs_pc s' = (cs_pc s)(g := p)"
    and "cs_pc s g \<noteq> UpdLoaded" and "p \<noteq> UpdLoaded"
  shows "seen s' = seen s"
proof -
  have "(\<exists>g. cs_pc s' g = UpdLoaded) \<longleftrightarrow> (\<exists>g. cs_pc s g = UpdLoaded)" using assms(3-5) by auto
  with assms(1,2) show ?thesis by (simp add: seen_def)
qed

lemma copy_complete: "locals_ok s \<Longrightarrow> cs_pc s g = GetCopy k [] copy \<Longrightarrow> copy = cs_cache s"
  by (metis append_Nil2 locals_ok_def pc_ok.simps(1))

lemma atomic_step:
  assumes "cache_step s e s'" and "mutex_ok s" and "locals_ok s"
  shows "atomic (seen s) e = Some (seen s')"
  using assms
proof (induction rule: cache_step.induct)
  case (get_from s g copy)
  have "seen (s\<lparr>cs_pc := (cs_pc s)(g := GetRUnlock copy None)\<rparr>) = seen s"
    by (rule seen_same [where g = g and p = "GetRUnlock copy None"]) (simp_all add: get_from.hyps)
  moreover have "copy = cs_cache s" by (rule copy_complete [OF get_from.prems(2) get_from.hyps])
  ultimately show ?case by (simp add: getCapacityConfigFromCache_def seen_def)
next
  case (get_safe s g copy)
  have "seen (s\<lparr>cs_pc := (cs_pc s)(g := GetRUnlock copy (Some (cs_loaded s)))\<rparr>) = seen s"
    by (rule seen_same [where g = g and p = "GetRUnlock copy (Some (cs_loaded s))"]) (simp_all add: get_safe.hyps)
  moreover have "copy = cs_cache s" by (rule copy_complete [OF get_safe.prems(2) get_safe.hyps])
  ultimately show ?case
    using reader_sees [OF get_safe.prems(1), of g] get_safe.hyps by (simp add: getCapacityConfigSafe_def)
next
  case (is_read s g)
  have "seen (s\<lparr>cs_pc := (cs_pc s)(g := IsRUnlock (cs_loaded s))\<rparr>) = seen s"
    by (rule seen_same [where g = g and p = "IsRUnlock (cs_loaded s)"]) (simp_all add: is_read.hyps)
  then show ?case using reader_sees [OF is_read.prems(1), of g] is_read.hyps by (simp add: isCapacityConfigLoaded_def)
next
  case (upd_cache s g c)
  then show ?case by (auto simp: seen_def)
next
  case (upd_loaded s g)
  then show ?case by (auto simp: seen_def)
qed (simp_all, (rule seen_same [symmetric], auto)+)

lemma cache_run_ok:
  assumes "cache_run s0 tr s" and "mutex_ok s0" and "locals_ok s0"
  shows "mutex_ok s \<and> locals_ok s \<and> ofoldl atomic (seen s0) tr = Some (seen s)"
  using assms(1)
proof (induction rule: cache_run.induct)
  case none
  then show ?case using assms(2,3) by simp
next
  case (more tr s e s')
  then show ?case using mutex_ok_step locals_ok_step atomic_step by auto
qed

text \<open>A goroutine that may go on: the holder of the lock if there is one, anyone otherwise.\<close>

lemma cache_not_stuck:
  assumes "mutex_ok s" and "\<not> returned (cs_pc s g)"
  shows "\<exists>e s'. cache_step s e s'"
proof (cases "\<exists>g. holds_read (cs_pc s g) \<or> holds_write (cs_pc s g)")
  case True
  then obtain g' where "holds_read (cs_pc s g') \<or> holds_write (cs_pc s g')" by blast
  then show ?thesis
  proof (cases "cs_pc s g'")
    case (GetCopy k rest copy)
    show ?thesis
    proof (cases rest)
      case Nil
      with GetCopy show ?thesis by (cases k) (auto dest: cache_step.get_from cache_step.get_safe)
    next
      case (Cons x xs)
      with GetCopy show ?thesis by (cases x) (auto dest: cache_step.get_copy)
    qed
  qed (fastforce intro: cache_step.intros)+
next
  case False
  then have "cs_writer s = None" "cs_readers s = {}" using assms(1) by (auto simp: mutex_ok_def)
  moreover have "\<not> holds_read (cs_pc s g)" "\<not> holds_write (cs_pc s g)" using False by blast+
  ultimately show ?thesis using assms(2)
    by (cases "cs_pc s g") (auto dest: cache_step.get_rlock cache_step.upd_lock cache_step.is_rlock)
qed

lemma result_logged:
  assumes "cache_run s0 tr s" and "\<And>g c b. cs_pc s0 g \<noteq> GetRUnlock c b \<and> cs_pc s0 g \<noteq> GetReturned c b"
  shows "cs_pc s g = GetRUnlock c b \<or> cs_pc s g = GetReturned c b \<Longrightarrow> Get g c b \<in> set tr"
  using assms(1)
proof (induction arbitrary: g c b rule: cache_run.induct)
  case none
  then show ?case using assms(2) by blast
next
  case (more tr s e s')
  from more.hyps(2) more.IH more.prems show ?case
    by (cases rule: cache_step.cases) (auto split: if_splits)
qed

text \<open>Every snapshot is a loaded configuration that passed validation, or the empty one before the first load.\<close>

lemma snapshots_ok:
  assumes "cache_run s0 tr s" and "mutex_ok s0" and "locals_ok s0"
    and "loaded_ok (rc_capacityConfigCache (seen s0)) (rc_capacityConfigLoaded (seen s0))"
  shows "loaded_ok (rc_capacityConfigCache (seen s)) (rc_capacityConfigLoaded (seen s)) \<and>
    (\<forall>g c b. Get g c (Some b) \<in> set tr \<longrightarrow> loaded_ok c b)"
  using assms(1)
proof (induction rule: cache_run.induct)
  case none
  then show ?case using assms(4) by simp
next
  case (more tr s e s')
  have ok: "mutex_ok s" "locals_ok s" using cache_run_ok [OF more.hyps(1) assms(2,3)] by simp_all
  have a: "atomic (seen s) e = Some (seen s')" by (rule atomic_step [OF more.hyps(2) ok])
  have u: "cache_ok c" if "e = Update g c" for g c
    using more.hyps(2) ok(2) unfolding that by (elim cache_step_UpdateE) (metis locals_ok_def pc_ok.simps(3))
  show ?case
  proof (cases e)
    case (Get g c b)
    with a more.IH show ?thesis
      by (cases b) (auto simp: getCapacityConfigSafe_def getCapacityConfigFromCache_def split: if_splits)
  next
    case (Update g c)
    then have "seen s' = (seen s)\<lparr>rc_capacityConfigCache := c, rc_capacityConfigLoaded := True\<rparr>" using a by simp
    with Update more.IH u show ?thesis by (simp add: loaded_ok_def)
  qed (use a more.IH in \<open>auto split: if_splits\<close>)
qed

text \<open>The start of a run: nobody has the lock, and the updates have configurations as
  \<^verbatim>\<open>readCapacityScalingConfig\<close> returns them.\<close>

fun starting :: "cache_pc \<Rightarrow> bool" where
  "starting (GetRLock _) = True"
| "starting (UpdLock c) = cache_ok c"
| "starting IsRLock = True"
| "starting _ = False"

definition cache_start :: "'g cache_state \<Rightarrow> bool" where
  "cache_start s \<longleftrightarrow> cs_readers s = {} \<and> cs_writer s = None \<and> loaded_ok (cs_cache s) (cs_loaded s) \<and> (\<forall>g. starting (cs_pc s g))"

lemma starting_cases: "starting p \<Longrightarrow> \<not> holds_read p \<and> \<not> holds_write p \<and> p \<noteq> UpdLoaded \<and> pc_ok c p \<and> (\<forall>x b. p \<noteq> GetRUnlock x b \<and> p \<noteq> GetReturned x b)"
  by (cases p) auto

lemma cache_start_ok:
  assumes "cache_start s"
  shows "mutex_ok s" and "locals_ok s" and "loaded_ok (rc_capacityConfigCache (seen s)) (rc_capacityConfigLoaded (seen s))"
    and "cs_pc s g \<noteq> GetRUnlock c b \<and> cs_pc s g \<noteq> GetReturned c b"
  using assms starting_cases
  by (auto simp: cache_start_def mutex_ok_def locals_ok_def seen_def loaded_ok_def cache_ok_def split: if_splits)

text \<open>C17: The operations on the configuration cache are atomic. However reads and reloads of any number of
  goroutines interleave, the run is one of the atomic operations in the order of their critical
  sections, in which each finished read returned the cache of that moment; a goroutine that writes
  has the cache to itself; no read returns a configuration with the wrong loaded flag, so a
  reconciliation sees either the empty cache before the first load or a complete validated
  configuration; and as long as an operation has not returned, some goroutine can go on.\<close>

theorem cache_operations_atomic:
  assumes "cache_start s0" and "cache_run s0 tr s"
  shows "ofoldl atomic (seen s0) tr = Some (seen s) \<and>
    (\<forall>g c b. cs_pc s g = GetReturned c b \<longrightarrow> Get g c b \<in> set tr) \<and>
    (\<forall>g g'. holds_write (cs_pc s g) \<longrightarrow> g' \<noteq> g \<longrightarrow> \<not> holds_write (cs_pc s g') \<and> \<not> holds_read (cs_pc s g')) \<and>
    (\<forall>g c b. cs_pc s g = GetReturned c (Some b) \<longrightarrow> (if b then cache_ok c else c = [])) \<and>
    ((\<exists>g. \<not> returned (cs_pc s g)) \<longrightarrow> (\<exists>e s'. cache_step s e s'))"
proof -
  note start = cache_start_ok [OF assms(1)]
  note run = cache_run_ok [OF assms(2) start(1,2)]
  have logged: "Get g c b \<in> set tr" if "cs_pc s g = GetReturned c b" for g c b
    using result_logged [OF assms(2) start(4)] that by blast
  moreover have "if b then cache_ok c else c = []" if "cs_pc s g = GetReturned c (Some b)" for g c b
    using snapshots_ok [OF assms(2) start(1-3)] logged [OF that] by (simp add: loaded_ok_def)
  moreover have "\<not> holds_write (cs_pc s g') \<and> \<not> holds_read (cs_pc s g')" if "holds_write (cs_pc s g)" "g' \<noteq> g" for g g'
    using run that by (auto simp: mutex_ok_def)
  moreover have "\<exists>e s'. cache_step s e s'" if "\<exists>g. \<not> returned (cs_pc s g)"
    using that by (elim exE) (rule cache_not_stuck [OF conjunct1 [OF run]])
  ultimately show ?thesis using run by blast
qed

section \<open>Running a schedule\<close>

text \<open>The step of a given goroutine, if it can go on.\<close>

definition advance :: "'g \<Rightarrow> 'g cache_state \<Rightarrow> ('g cache_event \<times> 'g cache_state) option" where
  "advance g s = (let go = (\<lambda>p. s\<lparr>cs_pc := (cs_pc s)(g := p)\<rparr>) in
     case cs_pc s g of
       GetRLock k \<Rightarrow> (if cs_writer s = None then Some (Internal, (go (GetRange k))\<lparr>cs_readers := insert g (cs_readers s)\<rparr>) else None)
     | GetRange k \<Rightarrow> Some (Internal, go (GetCopy k (cs_cache s) []))
     | GetCopy k (kv # rest) copy \<Rightarrow> Some (Internal, go (GetCopy k rest (mput (fst kv) (snd kv) copy)))
     | GetCopy FromCache [] copy \<Rightarrow> Some (Get g copy None, go (GetRUnlock copy None))
     | GetCopy Safe [] copy \<Rightarrow> Some (Get g copy (Some (cs_loaded s)), go (GetRUnlock copy (Some (cs_loaded s))))
     | GetRUnlock c b \<Rightarrow> Some (Internal, (go (GetReturned c b))\<lparr>cs_readers := cs_readers s - {g}\<rparr>)
     | UpdLock c \<Rightarrow> (if cs_writer s = None \<and> cs_readers s = {} then Some (Internal, (go (UpdCache c))\<lparr>cs_writer := Some g\<rparr>) else None)
     | UpdCache c \<Rightarrow> Some (Update g c, (go UpdLoaded)\<lparr>cs_cache := c\<rparr>)
     | UpdLoaded \<Rightarrow> Some (Internal, (go UpdUnlock)\<lparr>cs_loaded := True\<rparr>)
     | UpdUnlock \<Rightarrow> Some (Internal, (go UpdReturned)\<lparr>cs_writer := None\<rparr>)
     | IsRLock \<Rightarrow> (if cs_writer s = None then Some (Internal, (go IsRead)\<lparr>cs_readers := insert g (cs_readers s)\<rparr>) else None)
     | IsRead \<Rightarrow> Some (IsLoaded g (cs_loaded s), go (IsRUnlock (cs_loaded s)))
     | IsRUnlock b \<Rightarrow> Some (Internal, (go (IsReturned b))\<lparr>cs_readers := cs_readers s - {g}\<rparr>)
     | _ \<Rightarrow> None)"

lemma advance_step: "advance g s = Some (e, s') \<Longrightarrow> cache_step s e s'"
  by (auto simp: advance_def Let_def intro: cache_step.intros split: cache_pc.splits list.splits getter.splits if_splits)

primrec schedule :: "'g list \<Rightarrow> 'g cache_state \<Rightarrow> ('g cache_event list \<times> 'g cache_state) option" where
  "schedule [] s = Some ([], s)"
| "schedule (g # gs) s = Option.bind (advance g s) (\<lambda>(e, s). map_option (apfst (Cons e)) (schedule gs s))"

lemma cache_run_Cons: "cache_run s tr s'' \<Longrightarrow> cache_step s0 e s \<Longrightarrow> cache_run s0 (e # tr) s''"
  by (induction rule: cache_run.induct) (metis append_Nil cache_run.simps, metis append_Cons cache_run.more)

lemma schedule_run: "schedule gs s = Some (tr, s') \<Longrightarrow> cache_run s tr s'"
proof (induction gs arbitrary: s tr)
  case Nil
  then show ?case by (simp add: cache_run.none)
next
  case (Cons g gs)
  then show ?case by (auto simp: bind_eq_Some_conv intro: cache_run_Cons advance_step)
qed

text \<open>Goroutine \<open>False\<close> reads while goroutine \<open>True\<close> wants to reload. The reload waits for the lock, so the read
  returns the empty cache that is not loaded.\<close>

definition race :: "bool cache_state" where
  "race = \<lparr>cs_cache = [], cs_loaded = False, cs_readers = {}, cs_writer = None,
     cs_pc = (\<lambda>g. if g then UpdLock [(''default'', DefaultCapacityScalingConfig)] else GetRLock Safe)\<rparr>"

definition race_schedule :: "bool list" where
  "race_schedule = [False, False, False, False, True, True, True, True]"

lemma race_start: "cache_start race"
  by (auto simp: cache_start_def race_def loaded_ok_def cache_ok_def wf_map_def Validate_default)

theorem cache_operations_atomic_witness:
  "\<exists>tr s. cache_run race tr s \<and> cs_pc s False = GetReturned [] (Some False) \<and> cs_pc s True = UpdReturned \<and>
     cs_loaded s \<and> Get False [] (Some False) \<in> set tr \<and> advance True (snd (the (advance False race))) = None"
proof -
  obtain tr s where r: "schedule race_schedule race = Some (tr, s)"
    and s: "cs_pc s False = GetReturned [] (Some False)" "cs_pc s True = UpdReturned" "cs_loaded s"
    by (auto simp: race_schedule_def race_def advance_def Let_def)
  have run: "cache_run race tr s" by (rule schedule_run [OF r])
  from cache_operations_atomic [OF race_start run] s(1) have "Get False [] (Some False) \<in> set tr" by blast
  moreover have "advance True (snd (the (advance False race))) = None"
    by (simp add: race_def advance_def Let_def)
  ultimately show ?thesis using run s by blast
qed

end
