(* ===== verification/Go_Heap.thy ===== *)
theory Go_Heap
  imports Go_Prelude "HOL-Library.Monad_Syntax"
begin

text \<open>
  Memory with pointers, maps and slices, for the code whose point is what it shares: the deep copies
  of the API types. A heap is a partial map from addresses to cells with a limit above which nothing
  is allocated. A string map is a cell, a slice is a window on a cell that holds an array, and a
  pointer is the address of a cell that holds a struct. The contract of a deep copy is the locale
  \<open>deep_copier\<close>; the combinators below build a copier of a compound value from the copiers of its
  parts, the way the generated code does.
\<close>

section \<open>Heaps\<close>

type_synonym addr = nat

record 'c heap =
  hp_cells :: "addr \<rightharpoonup> 'c"
  hp_lim :: addr

definition heap_ok :: "'c heap \<Rightarrow> bool" where
  "heap_ok h \<longleftrightarrow> (\<forall>a. hp_lim h \<le> a \<longrightarrow> hp_cells h a = None)"

abbreviation allocated :: "'c heap \<Rightarrow> addr set" where
  "allocated h \<equiv> dom (hp_cells h)"

definition alloc :: "'c \<Rightarrow> 'c heap \<Rightarrow> addr \<times> 'c heap" where
  "alloc c h = (hp_lim h, h\<lparr>hp_cells := (hp_cells h)(hp_lim h \<mapsto> c), hp_lim := Suc (hp_lim h)\<rparr>)"

definition store :: "addr \<Rightarrow> 'c \<Rightarrow> 'c heap \<Rightarrow> 'c heap" where
  "store a c h = h\<lparr>hp_cells := (hp_cells h)(a \<mapsto> c)\<rparr>"

definition load :: "('c \<Rightarrow> 'v option) \<Rightarrow> addr \<Rightarrow> 'c heap \<Rightarrow> 'v option" where
  "load dest a h = Option.bind (hp_cells h a) dest"

text \<open>Two heaps have the same cells at some addresses.\<close>

definition agree :: "addr set \<Rightarrow> 'c heap \<Rightarrow> 'c heap \<Rightarrow> bool" where
  "agree A h h' \<longleftrightarrow> (\<forall>a\<in>A. hp_cells h' a = hp_cells h a)"

lemma agree_refl [simp, intro]: "agree A h h"
  by (simp add: agree_def)

lemma agree_trans: "agree A h h' \<Longrightarrow> agree A h' h'' \<Longrightarrow> agree A h h''"
  by (simp add: agree_def)

lemma agree_mono: "agree A h h' \<Longrightarrow> B \<subseteq> A \<Longrightarrow> agree B h h'"
  by (auto simp: agree_def)

lemma agree_Un [simp]: "agree (A \<union> B) h h' \<longleftrightarrow> agree A h h' \<and> agree B h h'"
  by (auto simp: agree_def)

lemma agree_insert [simp]: "agree (insert a A) h h' \<longleftrightarrow> hp_cells h' a = hp_cells h a \<and> agree A h h'"
  by (auto simp: agree_def)

lemma agree_allocated: "agree (allocated h) h h' \<Longrightarrow> allocated h \<subseteq> allocated h'"
  by (fastforce simp: agree_def dom_def)

lemma alloc_simps [simp]:
  "fst (alloc c h) = hp_lim h"
  "hp_cells (snd (alloc c h)) = (hp_cells h)(hp_lim h \<mapsto> c)"
  "hp_lim (snd (alloc c h)) = Suc (hp_lim h)"
  by (simp_all add: alloc_def)

lemma store_simps [simp]:
  "hp_cells (store a c h) = (hp_cells h)(a \<mapsto> c)"
  "hp_lim (store a c h) = hp_lim h"
  by (simp_all add: store_def)

lemma store_store [simp]: "store a c (store a d h) = store a c h"
  by (simp add: store_def)

lemma heap_ok_fresh: "heap_ok h \<Longrightarrow> hp_lim h \<notin> allocated h"
  by (auto simp: heap_ok_def)

lemma heap_ok_alloc: "heap_ok h \<Longrightarrow> heap_ok (snd (alloc c h))"
  by (auto simp: heap_ok_def)

lemma heap_ok_store: "heap_ok h \<Longrightarrow> a \<in> allocated h \<Longrightarrow> heap_ok (store a c h)"
  by (auto simp: heap_ok_def)

lemma agree_alloc: "heap_ok h \<Longrightarrow> agree (allocated h) h (snd (alloc c h))"
  using heap_ok_fresh [of h] by (auto simp: agree_def)

lemma agree_store: "a \<notin> A \<Longrightarrow> agree A h (store a c h)"
  by (auto simp: agree_def)

section \<open>The contract of a deep copy\<close>

text \<open>\<open>view\<close> reads a value with everything it refers to, \<open>None\<close> if it is not well-formed, and \<open>foot\<close> is the
  set of cells that it reaches. A copy of a well-formed value exists, looks the same, reaches only
  new cells, and leaves the old cells alone.\<close>

locale deep_copier =
  fixes copy :: "'v \<Rightarrow> 'c heap \<Rightarrow> ('v \<times> 'c heap) option"
    and view :: "'c heap \<Rightarrow> 'v \<Rightarrow> 't option"
    and foot :: "'c heap \<Rightarrow> 'v \<Rightarrow> addr set"
  assumes view_local: "view h v = Some t \<Longrightarrow> agree (foot h v) h h' \<Longrightarrow> view h' v = Some t \<and> foot h' v = foot h v"
    and foot_allocated: "view h v = Some t \<Longrightarrow> foot h v \<subseteq> allocated h"
    and copy_returns: "heap_ok h \<Longrightarrow> view h v = Some t \<Longrightarrow>
      \<exists>v' h'. copy v h = Some (v', h') \<and> heap_ok h' \<and> agree (allocated h) h h' \<and>
        view h' v' = Some t \<and> foot h' v' \<inter> allocated h = {}"
begin

lemma view_extends:
  assumes "view h v = Some t" and "agree (allocated h) h h'"
  shows "view h' v = Some t" and "foot h' v = foot h v"
  using view_local [OF assms(1), of h'] agree_mono [OF assms(2) foot_allocated [OF assms(1)]] by simp_all

lemma view_store:
  assumes "view h v = Some t" and "a \<notin> foot h v"
  shows "view (store a c h) v = Some t" and "foot (store a c h) v = foot h v"
  using view_local [OF assms(1) agree_store [OF assms(2)]] by simp_all

text \<open>Whatever is written to the cells of the original, or to new ones, does not show in the copy, and
  conversely.\<close>

lemma isolated:
  assumes "heap_ok h" and "view h v = Some t"
  shows "\<exists>v' h'. copy v h = Some (v', h') \<and> heap_ok h' \<and> agree (allocated h) h h' \<and>
    view h' v' = Some t \<and> view h' v = Some t \<and> foot h' v' \<inter> foot h' v = {} \<and>
    (\<forall>g. agree (allocated h' - foot h' v) h' g \<longrightarrow> view g v' = Some t) \<and>
    (\<forall>g. agree (allocated h' - foot h' v') h' g \<longrightarrow> view g v = Some t)"
proof -
  obtain v' h' where c: "copy v h = Some (v', h')" "heap_ok h'" "agree (allocated h) h h'"
      "view h' v' = Some t" "foot h' v' \<inter> allocated h = {}"
    using copy_returns [OF assms] by blast
  note o = view_extends [OF assms(2) c(3)]
  have d: "foot h' v' \<inter> foot h' v = {}" using c(5) foot_allocated [OF assms(2)] o(2) by blast
  have "view g v' = Some t" if "agree (allocated h' - foot h' v) h' g" for g
  proof -
    have "foot h' v' \<subseteq> allocated h' - foot h' v" using foot_allocated [OF c(4)] d by blast
    with that view_local [OF c(4)] agree_mono show ?thesis by blast
  qed
  moreover have "view g v = Some t" if "agree (allocated h' - foot h' v') h' g" for g
  proof -
    have "foot h' v \<subseteq> allocated h' - foot h' v'" using foot_allocated [OF o(1)] d by blast
    with that view_local [OF o(1)] agree_mono show ?thesis by blast
  qed
  ultimately show ?thesis using c o d by blast
qed

end

section \<open>Copiers of compound values\<close>

text \<open>A struct whose assignment \<^verbatim>\<open>*out = *in\<close> is the whole copy: it has no pointers.\<close>

lemma plain_copier: "deep_copier (\<lambda>x h. Some (x, h)) (\<lambda>h x. Some x) (\<lambda>h x. {})"
  by unfold_locales auto

interpretation plain: deep_copier "\<lambda>x h. Some (x, h)" "\<lambda>h x. Some x" "\<lambda>h x. {}"
  by (rule plain_copier)

text \<open>Two parts, one after the other.\<close>

definition copy_both ::
  "('a \<Rightarrow> 'c heap \<Rightarrow> ('a \<times> 'c heap) option) \<Rightarrow> ('b \<Rightarrow> 'c heap \<Rightarrow> ('b \<times> 'c heap) option) \<Rightarrow>
   'a \<times> 'b \<Rightarrow> 'c heap \<Rightarrow> (('a \<times> 'b) \<times> 'c heap) option" where
  "copy_both f g p h = do { (a, h) \<leftarrow> f (fst p) h; (b, h) \<leftarrow> g (snd p) h; Some ((a, b), h) }"

definition view_both :: "('c heap \<Rightarrow> 'a \<Rightarrow> 's option) \<Rightarrow> ('c heap \<Rightarrow> 'b \<Rightarrow> 't option) \<Rightarrow> 'c heap \<Rightarrow> 'a \<times> 'b \<Rightarrow> ('s \<times> 't) option" where
  "view_both v w h p = do { s \<leftarrow> v h (fst p); t \<leftarrow> w h (snd p); Some (s, t) }"

lemma both_copier:
  assumes "deep_copier f v foot" and "deep_copier g w goot"
  shows "deep_copier (copy_both f g) (view_both v w) (\<lambda>h p. foot h (fst p) \<union> goot h (snd p))"
proof (unfold_locales, goal_cases)
  case (1 h p t h')
  then obtain s u where t: "v h (fst p) = Some s" "w h (snd p) = Some u" "t = (s, u)"
    by (auto simp: view_both_def split: Option.bind_splits)
  show ?case
    using 1(2) deep_copier.view_local [OF assms(1) t(1), of h'] deep_copier.view_local [OF assms(2) t(2), of h']
    by (simp add: view_both_def t(3))
next
  case (2 h p t)
  then show ?case
    using deep_copier.foot_allocated [OF assms(1)] deep_copier.foot_allocated [OF assms(2)]
    by (fastforce simp: view_both_def split: Option.bind_splits)
next
  case (3 h p t)
  then obtain s u where t: "v h (fst p) = Some s" "w h (snd p) = Some u" "t = (s, u)"
    by (auto simp: view_both_def split: Option.bind_splits)
  obtain a h1 where a: "f (fst p) h = Some (a, h1)" "heap_ok h1" "agree (allocated h) h h1" "v h1 a = Some s"
      "foot h1 a \<inter> allocated h = {}"
    using deep_copier.copy_returns [OF assms(1) 3(1) t(1)] by blast
  have w1: "w h1 (snd p) = Some u" by (rule deep_copier.view_extends(1) [OF assms(2) t(2) a(3)])
  obtain b h2 where b: "g (snd p) h1 = Some (b, h2)" "heap_ok h2" "agree (allocated h1) h1 h2" "w h2 b = Some u"
      "goot h2 b \<inter> allocated h1 = {}"
    using deep_copier.copy_returns [OF assms(2) a(2) w1] by blast
  note a2 = deep_copier.view_extends [OF assms(1) a(4) b(3)]
  have "agree (allocated h) h h2" using a(3) agree_mono [OF b(3) agree_allocated [OF a(3)]] by (rule agree_trans)
  moreover have "goot h2 b \<inter> allocated h = {}" using b(5) agree_allocated [OF a(3)] by blast
  ultimately show ?case using t a b a2 by (auto simp: copy_both_def view_both_def)
qed

text \<open>A field of a struct whose other fields have no pointers.\<close>

lemma field_copier:
  assumes "deep_copier f v foot" and "\<And>x a. get (put x a) = a" and "\<And>x a. mk (put x a) = mk x"
  shows "deep_copier (\<lambda>x h. do { (a, h) \<leftarrow> f (get x) h; Some (put x a, h) })
    (\<lambda>h x. do { t \<leftarrow> v h (get x); Some (mk x t) }) (\<lambda>h x. foot h (get x))"
proof (unfold_locales, goal_cases)
  case (1 h x t h')
  then obtain s where s: "v h (get x) = Some s" "t = mk x s" by (auto split: Option.bind_splits)
  show ?case using 1(2) deep_copier.view_local [OF assms(1) s(1), of h'] by (simp add: s(2))
next
  case (2 h x t)
  then show ?case using deep_copier.foot_allocated [OF assms(1)] by (fastforce split: Option.bind_splits)
next
  case (3 h x t)
  then obtain s where s: "v h (get x) = Some s" "t = mk x s" by (auto split: Option.bind_splits)
  obtain a h' where "f (get x) h = Some (a, h')" "heap_ok h'" "agree (allocated h) h h'" "v h' a = Some s"
      "foot h' a \<inter> allocated h = {}"
    using deep_copier.copy_returns [OF assms(1) 3(1) s(1)] by blast
  then show ?case by (simp add: assms(2,3) s(2))
qed

text \<open>A map or slice that may be \<^verbatim>\<open>nil\<close>: \<^verbatim>\<open>if in.F != nil { ... }\<close>.\<close>

definition copy_opt :: "('a \<Rightarrow> 'c heap \<Rightarrow> ('a \<times> 'c heap) option) \<Rightarrow> 'a option \<Rightarrow> 'c heap \<Rightarrow> ('a option \<times> 'c heap) option" where
  "copy_opt f x h = (case x of None \<Rightarrow> Some (None, h) | Some a \<Rightarrow> do { (b, h) \<leftarrow> f a h; Some (Some b, h) })"

definition view_opt :: "('c heap \<Rightarrow> 'a \<Rightarrow> 't option) \<Rightarrow> 'c heap \<Rightarrow> 'a option \<Rightarrow> 't option option" where
  "view_opt v h x = (case x of None \<Rightarrow> Some None | Some a \<Rightarrow> map_option Some (v h a))"

definition foot_opt :: "('c heap \<Rightarrow> 'a \<Rightarrow> addr set) \<Rightarrow> 'c heap \<Rightarrow> 'a option \<Rightarrow> addr set" where
  "foot_opt foot h x = (case x of None \<Rightarrow> {} | Some a \<Rightarrow> foot h a)"

lemma opt_copier:
  assumes "deep_copier f v foot"
  shows "deep_copier (copy_opt f) (view_opt v) (foot_opt foot)"
proof (unfold_locales, goal_cases)
  case (1 h x t h')
  then show ?case using deep_copier.view_local [OF assms, of h _ _ h']
    by (cases x) (auto simp: view_opt_def foot_opt_def)
next
  case (2 h x t)
  then show ?case using deep_copier.foot_allocated [OF assms] by (fastforce simp: view_opt_def foot_opt_def split: option.splits)
next
  case (3 h x t)
  show ?case
  proof (cases x)
    case None
    with 3 show ?thesis by (auto simp: copy_opt_def view_opt_def foot_opt_def)
  next
    case (Some a)
    with 3 obtain s where s: "v h a = Some s" "t = Some s" by (auto simp: view_opt_def)
    obtain b h' where "f a h = Some (b, h')" "heap_ok h'" "agree (allocated h) h h'" "v h' b = Some s"
        "foot h' b \<inter> allocated h = {}"
      using deep_copier.copy_returns [OF assms 3(1) s(1)] by blast
    with Some s(2) show ?thesis by (simp add: copy_opt_def view_opt_def foot_opt_def)
  qed
qed

section \<open>Maps, pointers and slices\<close>

text \<open>A kind of cell: its constructor and the projection from a cell of that kind.\<close>

locale typed_cell =
  fixes mk :: "'a \<Rightarrow> 'c" and dest :: "'c \<Rightarrow> 'a option"
  assumes dest_mk [simp]: "dest (mk x) = Some x"
begin

lemma load_store [simp]:
  "load dest a (store a (mk x) h) = Some x"
  "a \<noteq> b \<Longrightarrow> load dest a (store b c h) = load dest a h"
  by (simp_all add: load_def)

lemma load_alloc [simp]: "load dest (hp_lim h) (snd (alloc (mk x) h)) = Some x"
  by (simp add: load_def)

lemma load_agree: "hp_cells h' a = hp_cells h a \<Longrightarrow> load dest a h' = load dest a h"
  by (simp add: load_def)

lemma load_allocated: "load dest a h = Some x \<Longrightarrow> a \<in> allocated h"
  by (cases "hp_cells h a") (auto simp: load_def)

lemma load_extends: "load dest a h = Some x \<Longrightarrow> agree (allocated h) h h' \<Longrightarrow> load dest a h' = Some x"
  using load_allocated [of a h x] load_agree [of h' a h] by (simp add: agree_def)

end

text \<open>\<^verbatim>\<open>*out = make(map[string]string, len(*in)); for key, val := range *in { (*out)[key] = val }\<close>. The order of
  the list is the order of the iteration.\<close>

primrec copy_entries ::
  "(('k, 'v) gomap \<Rightarrow> 'c) \<Rightarrow> ('c \<Rightarrow> ('k, 'v) gomap option) \<Rightarrow> addr \<Rightarrow> ('k \<times> 'v) list \<Rightarrow> 'c heap \<Rightarrow> 'c heap option" where
  "copy_entries mk dest b [] h = Some h"
| "copy_entries mk dest b (kv # kvs) h = do {
     m \<leftarrow> load dest b h;
     copy_entries mk dest b kvs (store b (mk (mput (fst kv) (snd kv) m)) h) }"

definition copy_map ::
  "(('k, 'v) gomap \<Rightarrow> 'c) \<Rightarrow> ('c \<Rightarrow> ('k, 'v) gomap option) \<Rightarrow> addr \<Rightarrow> 'c heap \<Rightarrow> (addr \<times> 'c heap) option" where
  "copy_map mk dest a h =
     (let (b, h) = alloc (mk []) h
      in do { kvs \<leftarrow> load dest a h; h \<leftarrow> copy_entries mk dest b kvs h; Some (b, h) })"

definition view_map :: "('c \<Rightarrow> ('k, 'v) gomap option) \<Rightarrow> 'c heap \<Rightarrow> addr \<Rightarrow> ('k, 'v) gomap option" where
  "view_map dest h a = do { m \<leftarrow> load dest a h; if wf_map m then Some m else None }"

lemma mput_new: "k \<notin> fst ` set m \<Longrightarrow> mput k v m = m @ [(k, v)]"
  by (induction m) auto

locale map_cell = typed_cell mk dest for mk :: "('k, 'v) gomap \<Rightarrow> 'c" and dest :: "'c \<Rightarrow> ('k, 'v) gomap option"
begin

lemma copy_entries_eq:
  assumes "load dest b h = Some m" and "wf_map (m @ kvs)"
  shows "copy_entries mk dest b kvs h = Some (if kvs = [] then h else store b (mk (m @ kvs)) h)"
  using assms
proof (induction kvs arbitrary: h m)
  case (Cons kv kvs)
  then have "mput (fst kv) (snd kv) m = m @ [kv]" by (simp add: wf_map_def mput_new)
  with Cons.IH [of "store b (mk (m @ [kv])) h" "m @ [kv]"] Cons.prems show ?case by simp
qed simp

lemma map_copier: "deep_copier (copy_map mk dest) (view_map dest) (\<lambda>h a. {a})"
proof (unfold_locales, goal_cases)
  case (1 h a t h')
  then show ?case using load_agree [of h' a h] by (simp add: view_map_def)
next
  case (2 h a t)
  then show ?case using load_allocated by (auto simp: view_map_def split: Option.bind_splits)
next
  case (3 h a m)
  define b h1 where "b = hp_lim h" and "h1 = snd (alloc (mk []) h)"
  have a: "load dest a h = Some m" "wf_map m" using 3(2) by (auto simp: view_map_def split: Option.bind_splits if_splits)
  have a1: "load dest a h1 = Some m" unfolding h1_def by (rule load_extends [OF a(1) agree_alloc [OF 3(1)]])
  define h2 where "h2 = (if m = [] then h1 else store b (mk m) h1)"
  have "copy_entries mk dest b m h1 = Some h2"
    using copy_entries_eq [of b h1 "[]" m] a(2) by (simp add: h1_def b_def h2_def)
  then have "copy_map mk dest a h = Some (b, h2)"
    using a1 by (simp add: copy_map_def alloc_def h1_def b_def)
  moreover have "heap_ok h2"
    using heap_ok_alloc [OF 3(1), of "mk []"] by (auto simp: h2_def h1_def b_def intro!: heap_ok_store)
  moreover have "agree (allocated h) h h2"
    using heap_ok_fresh [OF 3(1)] by (auto simp: agree_def h2_def h1_def b_def)
  moreover have "view_map dest h2 b = Some m"
    using a(2) by (simp add: view_map_def h2_def h1_def b_def load_def)
  ultimately show ?case using heap_ok_fresh [OF 3(1)] by (auto simp: b_def)
qed

end

text \<open>\<^verbatim>\<open>out := new(T); in.DeepCopyInto(out); return out\<close>\<close>

definition new_copy ::
  "('a \<Rightarrow> 'c) \<Rightarrow> ('c \<Rightarrow> 'a option) \<Rightarrow> 'a \<Rightarrow> ('a \<Rightarrow> 'c heap \<Rightarrow> ('a \<times> 'c heap) option) \<Rightarrow> addr \<Rightarrow> 'c heap \<Rightarrow> (addr \<times> 'c heap) option" where
  "new_copy mk dest zero into a h =
     (let (b, h) = alloc (mk zero) h
      in do { x \<leftarrow> load dest a h; (y, h) \<leftarrow> into x h; Some (b, store b (mk y) h) })"

definition view_ptr :: "('c \<Rightarrow> 'a option) \<Rightarrow> ('c heap \<Rightarrow> 'a \<Rightarrow> 't option) \<Rightarrow> 'c heap \<Rightarrow> addr \<Rightarrow> 't option" where
  "view_ptr dest v h a = do { x \<leftarrow> load dest a h; v h x }"

definition foot_ptr :: "('c \<Rightarrow> 'a option) \<Rightarrow> ('c heap \<Rightarrow> 'a \<Rightarrow> addr set) \<Rightarrow> 'c heap \<Rightarrow> addr \<Rightarrow> addr set" where
  "foot_ptr dest foot h a = insert a (case load dest a h of None \<Rightarrow> {} | Some x \<Rightarrow> foot h x)"

locale struct_cell = typed_cell mk dest + deep_copier copy view foot
  for mk :: "'v \<Rightarrow> 'c" and dest :: "'c \<Rightarrow> 'v option" and copy :: "'v \<Rightarrow> 'c heap \<Rightarrow> ('v \<times> 'c heap) option"
    and view :: "'c heap \<Rightarrow> 'v \<Rightarrow> 't option" and foot :: "'c heap \<Rightarrow> 'v \<Rightarrow> addr set"
begin

lemma view_ptr_Some: "view_ptr dest view h a = Some t \<longleftrightarrow> (\<exists>x. load dest a h = Some x \<and> view h x = Some t)"
  by (auto simp: view_ptr_def split: Option.bind_splits)

lemma new_copier: "deep_copier (new_copy mk dest zero copy) (view_ptr dest view) (foot_ptr dest foot)"
proof (unfold_locales, goal_cases)
  case (1 h a t h')
  then obtain x where x: "load dest a h = Some x" "view h x = Some t" by (auto simp: view_ptr_Some)
  with 1(2) have "load dest a h' = Some x" "agree (foot h x) h h'" using load_agree [of h' a h] by (simp_all add: foot_ptr_def)
  then show ?case using view_local [OF x(2), of h'] x by (simp add: view_ptr_def foot_ptr_def)
next
  case (2 h a t)
  then show ?case using load_allocated foot_allocated by (fastforce simp: view_ptr_Some foot_ptr_def)
next
  case (3 h a t)
  define b h1 where "b = hp_lim h" and "h1 = snd (alloc (mk zero) h)"
  have e1: "agree (allocated h) h h1" "heap_ok h1" "b \<in> allocated h1" "b \<notin> allocated h"
    using agree_alloc [OF 3(1)] heap_ok_alloc [OF 3(1)] heap_ok_fresh [OF 3(1)] by (auto simp: h1_def b_def)
  obtain x where x: "load dest a h = Some x" "view h x = Some t" using 3(2) by (auto simp: view_ptr_Some)
  note x1 = load_extends [OF x(1) e1(1)] view_extends(1) [OF x(2) e1(1)]
  obtain y h2 where y: "copy x h1 = Some (y, h2)" "heap_ok h2" "agree (allocated h1) h1 h2" "view h2 y = Some t"
      "foot h2 y \<inter> allocated h1 = {}"
    using copy_returns [OF e1(2) x1(2)] by blast
  define h3 where "h3 = store b (mk y) h2"
  have "new_copy mk dest zero copy a h = Some (b, h3)"
    using x1(1) y(1) by (simp add: new_copy_def alloc_def h1_def b_def h3_def)
  moreover have "heap_ok h3" unfolding h3_def
    by (rule heap_ok_store [OF y(2)]) (use e1(3) agree_allocated [OF y(3)] in blast)
  moreover have "agree (allocated h) h h2"
    using e1(1) agree_mono [OF y(3) agree_allocated [OF e1(1)]] by (rule agree_trans)
  then have "agree (allocated h) h h3" unfolding h3_def by (rule agree_trans) (rule agree_store [OF e1(4)])
  moreover have "b \<notin> foot h2 y" using y(5) e1(3) by blast
  note v3 = view_store [OF y(4) this, of "mk y", folded h3_def]
  have "load dest b h3 = Some y" by (simp add: h3_def)
  with v3 have "view_ptr dest view h3 b = Some t" "foot_ptr dest foot h3 b = insert b (foot h2 y)"
    by (simp_all add: view_ptr_def foot_ptr_def)
  moreover have "insert b (foot h2 y) \<inter> allocated h = {}" using y(5) agree_allocated [OF e1(1)] e1(4) by blast
  ultimately show ?case by (intro exI [of _ b] exI [of _ h3]) simp
qed

end

section \<open>Slices\<close>

record slice =
  sl_base :: addr
  sl_off :: nat
  sl_len :: nat

definition slice_elems :: "('c \<Rightarrow> 'a list option) \<Rightarrow> 'c heap \<Rightarrow> slice \<Rightarrow> 'a list option" where
  "slice_elems dest h s = do {
     xs \<leftarrow> load dest (sl_base s) h;
     if sl_off s + sl_len s \<le> length xs then Some (take (sl_len s) (drop (sl_off s) xs)) else None }"

definition slice_index :: "('c \<Rightarrow> 'a list option) \<Rightarrow> slice \<Rightarrow> nat \<Rightarrow> 'c heap \<Rightarrow> 'a option" where
  "slice_index dest s i h = do { xs \<leftarrow> slice_elems dest h s; if i < sl_len s then Some (xs ! i) else None }"

definition slice_set :: "('a list \<Rightarrow> 'c) \<Rightarrow> ('c \<Rightarrow> 'a list option) \<Rightarrow> slice \<Rightarrow> nat \<Rightarrow> 'a \<Rightarrow> 'c heap \<Rightarrow> 'c heap option" where
  "slice_set mk dest s i y h = do {
     xs \<leftarrow> load dest (sl_base s) h;
     if i < sl_len s \<and> sl_off s + i < length xs then Some (store (sl_base s) (mk (xs[sl_off s + i := y])) h) else None }"

text \<open>\<^verbatim>\<open>make([]T, n)\<close>\<close>

definition make_slice :: "('a list \<Rightarrow> 'c) \<Rightarrow> 'a \<Rightarrow> nat \<Rightarrow> 'c heap \<Rightarrow> slice \<times> 'c heap" where
  "make_slice mk zero n h =
     (let (b, h) = alloc (mk (replicate n zero)) h in (\<lparr>sl_base = b, sl_off = 0, sl_len = n\<rparr>, h))"

text \<open>\<^verbatim>\<open>for i := range *in { (*in)[i].DeepCopyInto(&(*out)[i]) }\<close>\<close>

primrec copy_elems ::
  "('a list \<Rightarrow> 'c) \<Rightarrow> ('c \<Rightarrow> 'a list option) \<Rightarrow> ('a \<Rightarrow> 'c heap \<Rightarrow> ('a \<times> 'c heap) option) \<Rightarrow>
   slice \<Rightarrow> slice \<Rightarrow> nat list \<Rightarrow> 'c heap \<Rightarrow> 'c heap option" where
  "copy_elems mk dest into s d [] h = Some h"
| "copy_elems mk dest into s d (i # is) h = do {
     x \<leftarrow> slice_index dest s i h;
     (y, h) \<leftarrow> into x h;
     h \<leftarrow> slice_set mk dest d i y h;
     copy_elems mk dest into s d is h }"

definition copy_slice ::
  "('a list \<Rightarrow> 'c) \<Rightarrow> ('c \<Rightarrow> 'a list option) \<Rightarrow> 'a \<Rightarrow> ('a \<Rightarrow> 'c heap \<Rightarrow> ('a \<times> 'c heap) option) \<Rightarrow>
   slice \<Rightarrow> 'c heap \<Rightarrow> (slice \<times> 'c heap) option" where
  "copy_slice mk dest zero into s h =
     (let (d, h) = make_slice mk zero (sl_len s) h
      in do { h \<leftarrow> copy_elems mk dest into s d [0..<sl_len s] h; Some (d, h) })"

definition view_slice :: "('c \<Rightarrow> 'a list option) \<Rightarrow> ('c heap \<Rightarrow> 'a \<Rightarrow> 't option) \<Rightarrow> 'c heap \<Rightarrow> slice \<Rightarrow> 't list option" where
  "view_slice dest v h s = do { xs \<leftarrow> slice_elems dest h s; those (map (v h) xs) }"

definition foot_slice :: "('c \<Rightarrow> 'a list option) \<Rightarrow> ('c heap \<Rightarrow> 'a \<Rightarrow> addr set) \<Rightarrow> 'c heap \<Rightarrow> slice \<Rightarrow> addr set" where
  "foot_slice dest foot h s =
     insert (sl_base s) (case slice_elems dest h s of None \<Rightarrow> {} | Some xs \<Rightarrow> \<Union>x\<in>set xs. foot h x)"

lemma those_eq_Some: "those xs = Some ys \<longleftrightarrow> xs = map Some ys"
  by (induction xs arbitrary: ys) (auto split: option.splits)

locale array_cell = typed_cell mk dest + deep_copier copy view foot
  for mk :: "'v list \<Rightarrow> 'c" and dest :: "'c \<Rightarrow> 'v list option" and copy :: "'v \<Rightarrow> 'c heap \<Rightarrow> ('v \<times> 'c heap) option"
    and view :: "'c heap \<Rightarrow> 'v \<Rightarrow> 't option" and foot :: "'c heap \<Rightarrow> 'v \<Rightarrow> addr set"
begin

lemma slice_elems_Some:
  "slice_elems dest h s = Some xs \<longleftrightarrow>
    (\<exists>ys. load dest (sl_base s) h = Some ys \<and> sl_off s + sl_len s \<le> length ys \<and> xs = take (sl_len s) (drop (sl_off s) ys))"
  by (auto simp: slice_elems_def split: Option.bind_splits)

lemma slice_elems_length: "slice_elems dest h s = Some xs \<Longrightarrow> length xs = sl_len s"
  by (auto simp: slice_elems_Some)

lemma slice_elems_extends:
  "slice_elems dest h s = Some xs \<Longrightarrow> agree (allocated h) h h' \<Longrightarrow> slice_elems dest h' s = Some xs"
  using load_extends [of "sl_base s" h _ h'] by (auto simp: slice_elems_Some)

lemma view_slice_Some:
  "view_slice dest view h s = Some ts \<longleftrightarrow>
    (\<exists>xs. slice_elems dest h s = Some xs \<and> length ts = length xs \<and> (\<forall>i<length xs. view h (xs ! i) = Some (ts ! i)))"
  by (auto simp: view_slice_def those_eq_Some list_eq_iff_nth_eq split: Option.bind_splits)

text \<open>The state of the loop before the iteration \<open>i\<close>, from a heap \<open>h0\<close> before the allocation of the array.\<close>

definition copied :: "'c heap \<Rightarrow> 't list \<Rightarrow> addr \<Rightarrow> nat \<Rightarrow> 'c heap \<Rightarrow> bool" where
  "copied h0 ts b i h \<longleftrightarrow> heap_ok h \<and> agree (allocated h0) h0 h \<and> b \<notin> allocated h0 \<and>
     (\<exists>ys. load dest b h = Some ys \<and> length ys = length ts \<and>
       (\<forall>j<i. view h (ys ! j) = Some (ts ! j) \<and> foot h (ys ! j) \<inter> insert b (allocated h0) = {}))"

lemma copied_step:
  assumes "copied h0 ts b i h" and "slice_elems dest h0 s = Some xs" and "length ts = length xs"
    and "\<forall>i<length xs. view h0 (xs ! i) = Some (ts ! i)" and "i < length xs"
    and "sl_base d = b" and "sl_off d = 0" and "sl_len d = length xs"
  shows "\<exists>h'. copy_elems mk dest copy s d (i # is) h = copy_elems mk dest copy s d is h' \<and> copied h0 ts b (Suc i) h'"
proof -
  obtain ys where ok: "heap_ok h" "agree (allocated h0) h0 h" "b \<notin> allocated h0"
    and ys: "load dest b h = Some ys" "length ys = length ts"
      "\<And>j. j < i \<Longrightarrow> view h (ys ! j) = Some (ts ! j)" "\<And>j. j < i \<Longrightarrow> foot h (ys ! j) \<inter> insert b (allocated h0) = {}"
    using assms(1) unfolding copied_def by blast
  have x: "view h (xs ! i) = Some (ts ! i)" using view_extends(1) ok(2) assms(4,5) by blast
  obtain y h1 where y: "copy (xs ! i) h = Some (y, h1)" "heap_ok h1" "agree (allocated h) h h1" "view h1 y = Some (ts ! i)"
      "foot h1 y \<inter> allocated h = {}"
    using copy_returns [OF ok(1) x] by blast
  have b: "b \<in> allocated h" by (rule load_allocated [OF ys(1)])
  have ix: "slice_index dest s i h = Some (xs ! i)"
    using slice_elems_extends [OF assms(2) ok(2)] slice_elems_length [OF assms(2)] assms(5) by (simp add: slice_index_def)
  have b1: "load dest b h1 = Some ys" by (rule load_extends [OF ys(1) y(3)])
  define h2 where "h2 = store b (mk (ys[i := y])) h1"
  have st: "slice_set mk dest d i y h1 = Some h2"
    using b1 ys(2) assms(3,5,6,7,8) by (simp add: slice_set_def h2_def)
  have a1: "agree (allocated h0) h0 h1"
    using ok(2) agree_mono [OF y(3) agree_allocated [OF ok(2)]] by (rule agree_trans)
  have el: "view h2 (ys[i := y] ! j) = Some (ts ! j) \<and> foot h2 (ys[i := y] ! j) \<inter> insert b (allocated h0) = {}" if j: "j < Suc i" for j
  proof (cases "j = i")
    case True
    have d: "foot h1 y \<inter> insert b (allocated h0) = {}" using y(5) b agree_allocated [OF ok(2)] by blast
    then show ?thesis
      using True view_store [OF y(4), of b "mk (ys[i := y])"] ys(2) assms(3,5) by (simp add: h2_def)
  next
    case False
    with j have "j < i" by simp
    note old = ys(3,4) [OF this]
    show ?thesis
      using False old(2) view_extends [OF old(1) y(3)] view_store [of h1 "ys ! j" "ts ! j" b "mk (ys[i := y])"]
      by (auto simp: h2_def)
  qed
  have "heap_ok h2" unfolding h2_def by (rule heap_ok_store [OF y(2)]) (use b agree_allocated [OF y(3)] in blast)
  moreover have "agree (allocated h0) h0 h2" unfolding h2_def using a1 agree_store [OF ok(3)] by (rule agree_trans)
  ultimately have "copied h0 ts b (Suc i) h2"
    using ok(3) ys(2) el unfolding copied_def by (auto simp: h2_def)
  with ix y(1) st show ?thesis by auto
qed

lemma copied_loop:
  assumes "copied h0 ts b i h" and "slice_elems dest h0 s = Some xs" and "length ts = length xs"
    and "\<forall>i<length xs. view h0 (xs ! i) = Some (ts ! i)" and "i \<le> length xs"
    and "sl_base d = b" and "sl_off d = 0" and "sl_len d = length xs"
  shows "\<exists>h'. copy_elems mk dest copy s d [i..<length xs] h = Some h' \<and> copied h0 ts b (length xs) h'"
  using assms(5,1)
proof (induction i arbitrary: h rule: inc_induct)
  case base
  then show ?case by simp
next
  case (step i)
  then show ?case
    using copied_step [OF step.prems assms(2-4) step.hyps(2) assms(6-8), of "[Suc i..<length xs]"]
    by (auto simp: upt_conv_Cons)
qed

lemma slice_copier: "deep_copier (copy_slice mk dest zero copy) (view_slice dest view) (foot_slice dest foot)"
proof (unfold_locales, goal_cases)
  case (1 h s ts h')
  then obtain xs where xs: "slice_elems dest h s = Some xs" "length ts = length xs" "\<And>i. i < length xs \<Longrightarrow> view h (xs ! i) = Some (ts ! i)"
    by (auto simp: view_slice_Some)
  with 1(2) have a: "hp_cells h' (sl_base s) = hp_cells h (sl_base s)" "agree (\<Union>x\<in>set xs. foot h x) h h'"
    by (simp_all add: foot_slice_def)
  have e: "slice_elems dest h' s = Some xs" using xs(1) load_agree [OF a(1)] by (simp add: slice_elems_def)
  have "view h' (xs ! i) = Some (ts ! i) \<and> foot h' (xs ! i) = foot h (xs ! i)" if "i < length xs" for i
    by (rule view_local [OF xs(3) [OF that] agree_mono [OF a(2)]]) (use nth_mem [OF that] in blast)
  moreover from this have "(\<Union>x\<in>set xs. foot h' x) = (\<Union>x\<in>set xs. foot h x)"
    by (intro SUP_cong refl) (metis in_set_conv_nth)
  ultimately show ?case using e xs by (simp add: view_slice_Some foot_slice_def)
next
  case (2 h s ts)
  then obtain xs where xs: "slice_elems dest h s = Some xs" "\<And>i. i < length xs \<Longrightarrow> view h (xs ! i) = Some (ts ! i)"
    by (auto simp: view_slice_Some)
  have "foot h x \<subseteq> allocated h" if "x \<in> set xs" for x using that xs(2) foot_allocated by (metis in_set_conv_nth)
  moreover have "sl_base s \<in> allocated h" using xs(1) load_allocated by (auto simp: slice_elems_Some)
  ultimately show ?case using xs(1) by (auto simp: foot_slice_def)
next
  case (3 h s ts)
  then obtain xs where xs: "slice_elems dest h s = Some xs" "length ts = length xs" "\<forall>i<length xs. view h (xs ! i) = Some (ts ! i)"
    by (auto simp: view_slice_Some)
  note len = slice_elems_length [OF xs(1)]
  define b h1 d where "b = hp_lim h" and "h1 = snd (alloc (mk (replicate (sl_len s) zero)) h)" and
    "d = \<lparr>sl_base = b, sl_off = 0, sl_len = sl_len s\<rparr>"
  have "copied h ts b 0 h1"
    using heap_ok_alloc [OF 3(1)] agree_alloc [OF 3(1)] heap_ok_fresh [OF 3(1)] xs(2) len
    by (simp add: copied_def h1_def b_def)
  from copied_loop [OF this xs, of d] len obtain h2
    where h2: "copy_elems mk dest copy s d [0..<sl_len s] h1 = Some h2" "copied h ts b (sl_len s) h2"
    by (auto simp: d_def)
  then obtain ys where ys: "heap_ok h2" "agree (allocated h) h h2" "b \<notin> allocated h" "load dest b h2 = Some ys" "length ys = length ts"
      "\<forall>j<sl_len s. view h2 (ys ! j) = Some (ts ! j) \<and> foot h2 (ys ! j) \<inter> insert b (allocated h) = {}"
    by (auto simp: copied_def)
  have e: "slice_elems dest h2 d = Some ys" using ys(4,5) xs(2) len by (simp add: slice_elems_Some d_def)
  have "copy_slice mk dest zero copy s h = Some (d, h2)"
    using h2(1) by (simp add: copy_slice_def make_slice_def alloc_def h1_def b_def d_def)
  moreover have "view_slice dest view h2 d = Some ts" using e ys(5,6) xs(2) len by (simp add: view_slice_Some)
  moreover have "foot_slice dest foot h2 d \<inter> allocated h = {}"
    using e ys(3,5,6) xs(2) len by (fastforce simp: foot_slice_def d_def in_set_conv_nth)
  ultimately show ?case using ys(1,2) by blast
qed

end

end
