(* ===== verification/Wva_Deepcopy.thy ===== *)
theory Wva_Deepcopy
  imports Wva_Api Go_Heap
begin

text \<open>
  The deep copies of the API types (\<^verbatim>\<open>api/v1alpha1/zz_generated.deepcopy.go\<close>) over an explicit memory,
  because what they promise is about sharing. The structs of \<open>Wva_Api\<close> appear here with their layout in
  memory: a map is the address of a cell, a slice a window on an array, and both may be \<^verbatim>\<open>nil\<close>. The
  records take the type of the references as a parameter, so that the same records hold the value
  with everything it refers to. The copies of \<^verbatim>\<open>k8s.io/apimachinery\<close> (object and list metadata, times,
  conditions) are arguments; what the generated code relies on is stated as \<open>documented_meta\<close>.
\<close>

section \<open>Layouts\<close>

record 'm PerfParmsL =
  ppl_DecodeParms :: "'m option"
  ppl_PrefillParms :: "'m option"

record 'm AcceleratorProfileL =
  apl_Acc :: string
  apl_AccCount :: int
  apl_PerfParms :: "'m PerfParmsL"
  apl_MaxBatchSize :: int

record 'a ModelProfileL =
  mpl_Accelerators :: "'a option"

record 'a SpecL =
  spl_ModelID :: string
  spl_ModelProfile :: "'a ModelProfileL"
  spl_VariantCost :: string

record 'c StatusL =
  stl_CurrentAlloc :: CrAllocation
  stl_DesiredOptimizedAlloc :: OptimizedAlloc
  stl_Actuation :: ActuationStatus
  stl_Conditions :: "'c option"

record TypeMeta =
  tm_Kind :: string
  tm_APIVersion :: string

record ('o, 'a, 'c) VariantAutoscalingL =
  val_TypeMeta :: TypeMeta
  val_ObjectMeta :: 'o
  val_Spec :: "'a SpecL"
  val_Status :: "'c StatusL"

record ('l, 'v) VariantAutoscalingListL =
  vll_TypeMeta :: TypeMeta
  vll_ListMeta :: 'l
  vll_Items :: "'v option"

type_synonym PerfParmsM = "addr PerfParmsL"
type_synonym AcceleratorProfileM = "addr AcceleratorProfileL"
type_synonym ModelProfileM = "slice ModelProfileL"
type_synonym SpecM = "slice SpecL"
type_synonym StatusM = "slice StatusL"
type_synonym 'o VariantAutoscalingM = "('o, slice, slice) VariantAutoscalingL"
type_synonym 'l VariantAutoscalingListM = "('l, slice) VariantAutoscalingListL"

type_synonym parms = "(string, string) gomap"
type_synonym profiles = "parms AcceleratorProfileL list"
type_synonym 'q VariantAutoscalingT = "('q, profiles, Condition list) VariantAutoscalingL"

text \<open>The cells: maps, arrays behind slices, and what \<^verbatim>\<open>new\<close> allocates. \<open>Foreign\<close> is for the metadata.\<close>

datatype ('o, 'l, 'x) cell =
    StringMap parms
  | ProfileArray "AcceleratorProfileM list"
  | ConditionArray "Condition list"
  | ItemArray "'o VariantAutoscalingM list"
  | AcceleratorProfileCell AcceleratorProfileM
  | ActuationStatusCell ActuationStatus
  | AllocationCell CrAllocation
  | LoadProfileCell LoadProfile
  | ModelProfileCell ModelProfileM
  | OptimizedAllocCell OptimizedAlloc
  | PerfParmsCell PerfParmsM
  | VariantAutoscalingCell "'o VariantAutoscalingM"
  | VariantAutoscalingListCell "'l VariantAutoscalingListM"
  | SpecCell SpecM
  | StatusCell StatusM
  | Foreign 'x

type_synonym ('o, 'l, 'x) memory = "('o, 'l, 'x) cell heap"

definition as_StringMap :: "('o, 'l, 'x) cell \<Rightarrow> parms option" where
  "as_StringMap c = (case c of StringMap m \<Rightarrow> Some m | _ \<Rightarrow> None)"

definition as_ProfileArray :: "('o, 'l, 'x) cell \<Rightarrow> AcceleratorProfileM list option" where
  "as_ProfileArray c = (case c of ProfileArray xs \<Rightarrow> Some xs | _ \<Rightarrow> None)"

definition as_ConditionArray :: "('o, 'l, 'x) cell \<Rightarrow> Condition list option" where
  "as_ConditionArray c = (case c of ConditionArray xs \<Rightarrow> Some xs | _ \<Rightarrow> None)"

definition as_ItemArray :: "('o, 'l, 'x) cell \<Rightarrow> 'o VariantAutoscalingM list option" where
  "as_ItemArray c = (case c of ItemArray xs \<Rightarrow> Some xs | _ \<Rightarrow> None)"

definition as_AcceleratorProfile :: "('o, 'l, 'x) cell \<Rightarrow> AcceleratorProfileM option" where
  "as_AcceleratorProfile c = (case c of AcceleratorProfileCell x \<Rightarrow> Some x | _ \<Rightarrow> None)"

definition as_ActuationStatus :: "('o, 'l, 'x) cell \<Rightarrow> ActuationStatus option" where
  "as_ActuationStatus c = (case c of ActuationStatusCell x \<Rightarrow> Some x | _ \<Rightarrow> None)"

definition as_Allocation :: "('o, 'l, 'x) cell \<Rightarrow> CrAllocation option" where
  "as_Allocation c = (case c of AllocationCell x \<Rightarrow> Some x | _ \<Rightarrow> None)"

definition as_LoadProfile :: "('o, 'l, 'x) cell \<Rightarrow> LoadProfile option" where
  "as_LoadProfile c = (case c of LoadProfileCell x \<Rightarrow> Some x | _ \<Rightarrow> None)"

definition as_ModelProfile :: "('o, 'l, 'x) cell \<Rightarrow> ModelProfileM option" where
  "as_ModelProfile c = (case c of ModelProfileCell x \<Rightarrow> Some x | _ \<Rightarrow> None)"

definition as_OptimizedAlloc :: "('o, 'l, 'x) cell \<Rightarrow> OptimizedAlloc option" where
  "as_OptimizedAlloc c = (case c of OptimizedAllocCell x \<Rightarrow> Some x | _ \<Rightarrow> None)"

definition as_PerfParms :: "('o, 'l, 'x) cell \<Rightarrow> PerfParmsM option" where
  "as_PerfParms c = (case c of PerfParmsCell x \<Rightarrow> Some x | _ \<Rightarrow> None)"

definition as_VariantAutoscaling :: "('o, 'l, 'x) cell \<Rightarrow> 'o VariantAutoscalingM option" where
  "as_VariantAutoscaling c = (case c of VariantAutoscalingCell x \<Rightarrow> Some x | _ \<Rightarrow> None)"

definition as_VariantAutoscalingList :: "('o, 'l, 'x) cell \<Rightarrow> 'l VariantAutoscalingListM option" where
  "as_VariantAutoscalingList c = (case c of VariantAutoscalingListCell x \<Rightarrow> Some x | _ \<Rightarrow> None)"

definition as_Spec :: "('o, 'l, 'x) cell \<Rightarrow> SpecM option" where
  "as_Spec c = (case c of SpecCell x \<Rightarrow> Some x | _ \<Rightarrow> None)"

definition as_Status :: "('o, 'l, 'x) cell \<Rightarrow> StatusM option" where
  "as_Status c = (case c of StatusCell x \<Rightarrow> Some x | _ \<Rightarrow> None)"

lemmas as_cell_defs = as_StringMap_def as_ProfileArray_def as_ConditionArray_def as_ItemArray_def
  as_AcceleratorProfile_def as_ActuationStatus_def as_Allocation_def as_LoadProfile_def as_ModelProfile_def
  as_OptimizedAlloc_def as_PerfParms_def as_VariantAutoscaling_def as_VariantAutoscalingList_def as_Spec_def as_Status_def

text \<open>The zero values that \<^verbatim>\<open>new\<close> and \<^verbatim>\<open>make\<close> start from.\<close>

definition zero_PerfParms :: PerfParmsM where
  "zero_PerfParms = \<lparr>ppl_DecodeParms = None, ppl_PrefillParms = None\<rparr>"

definition zero_AcceleratorProfile :: AcceleratorProfileM where
  "zero_AcceleratorProfile = \<lparr>apl_Acc = '''', apl_AccCount = 0, apl_PerfParms = zero_PerfParms, apl_MaxBatchSize = 0\<rparr>"

definition zero_ModelProfile :: ModelProfileM where
  "zero_ModelProfile = \<lparr>mpl_Accelerators = None\<rparr>"

definition zero_Spec :: SpecM where
  "zero_Spec = \<lparr>spl_ModelID = '''', spl_ModelProfile = zero_ModelProfile, spl_VariantCost = ''''\<rparr>"

definition zero_LoadProfile :: LoadProfile where
  "zero_LoadProfile = cr_Load zero_CrAllocation"

definition zero_OptimizedAlloc :: OptimizedAlloc where
  "zero_OptimizedAlloc = \<lparr>oa_LastRunTime = 0, oa_Accelerator = '''', oa_NumReplicas = 0\<rparr>"

definition zero_ActuationStatus :: ActuationStatus where
  "zero_ActuationStatus = \<lparr>act_Applied = False\<rparr>"

definition zero_Condition :: Condition where
  "zero_Condition = \<lparr>cn_Type = '''', cn_Status = '''', cn_ObservedGeneration = 0, cn_LastTransitionTime = 0,
     cn_Reason = '''', cn_Message = ('''', [])\<rparr>"

definition zero_Status :: StatusM where
  "zero_Status = \<lparr>stl_CurrentAlloc = zero_CrAllocation, stl_DesiredOptimizedAlloc = zero_OptimizedAlloc,
     stl_Actuation = zero_ActuationStatus, stl_Conditions = None\<rparr>"

definition zero_VariantAutoscalingM :: "'o \<Rightarrow> 'o VariantAutoscalingM" where
  "zero_VariantAutoscalingM zo = \<lparr>val_TypeMeta = \<lparr>tm_Kind = '''', tm_APIVersion = ''''\<rparr>, val_ObjectMeta = zo,
     val_Spec = zero_Spec, val_Status = zero_Status\<rparr>"

definition zero_VariantAutoscalingList :: "'l \<Rightarrow> 'l VariantAutoscalingListM" where
  "zero_VariantAutoscalingList zl = \<lparr>vll_TypeMeta = \<lparr>tm_Kind = '''', tm_APIVersion = ''''\<rparr>, vll_ListMeta = zl, vll_Items = None\<rparr>"

section \<open>The copies\<close>

text \<open>What comes with \<^verbatim>\<open>k8s.io/apimachinery\<close>: the copies of \<^verbatim>\<open>ObjectMeta\<close>, \<^verbatim>\<open>ListMeta\<close>, \<^verbatim>\<open>Time\<close> and \<^verbatim>\<open>Condition\<close>,
  and the zero values of the first two.\<close>

record ('o, 'l, 'x) MetaV1 =
  mv_ObjectMeta :: "'o \<Rightarrow> ('o, 'l, 'x) memory \<Rightarrow> ('o \<times> ('o, 'l, 'x) memory) option"
  mv_ListMeta :: "'l \<Rightarrow> ('o, 'l, 'x) memory \<Rightarrow> ('l \<times> ('o, 'l, 'x) memory) option"
  mv_Time :: "Time \<Rightarrow> Time"
  mv_Condition :: "Condition \<Rightarrow> Condition"
  mv_zeroObjectMeta :: 'o
  mv_zeroListMeta :: 'l

text \<open>\<^verbatim>\<open>DeepCopyInto\<close> takes \<^verbatim>\<open>*in\<close> and returns \<^verbatim>\<open>*out\<close> with the memory after the call. A lookup of an address
  that does not hold what its type says is \<open>None\<close>; well-formed values have no such address.\<close>

definition PerfParms_DeepCopyInto :: "PerfParmsM \<Rightarrow> ('o, 'l, 'x) memory \<Rightarrow> (PerfParmsM \<times> ('o, 'l, 'x) memory) option" where
  "PerfParms_DeepCopyInto this h = do {
     let out = this;
     (d, h) \<leftarrow> copy_opt (copy_map StringMap as_StringMap) (ppl_DecodeParms this) h;
     let out = out\<lparr>ppl_DecodeParms := d\<rparr>;
     (p, h) \<leftarrow> copy_opt (copy_map StringMap as_StringMap) (ppl_PrefillParms this) h;
     let out = out\<lparr>ppl_PrefillParms := p\<rparr>;
     Some (out, h) }"

definition AcceleratorProfile_DeepCopyInto ::
  "AcceleratorProfileM \<Rightarrow> ('o, 'l, 'x) memory \<Rightarrow> (AcceleratorProfileM \<times> ('o, 'l, 'x) memory) option" where
  "AcceleratorProfile_DeepCopyInto this h = do {
     let out = this;
     (p, h) \<leftarrow> PerfParms_DeepCopyInto (apl_PerfParms this) h;
     Some (out\<lparr>apl_PerfParms := p\<rparr>, h) }"

definition ActuationStatus_DeepCopyInto ::
  "ActuationStatus \<Rightarrow> ('o, 'l, 'x) memory \<Rightarrow> (ActuationStatus \<times> ('o, 'l, 'x) memory) option" where
  "ActuationStatus_DeepCopyInto this h = Some (this, h)"

definition LoadProfile_DeepCopyInto ::
  "LoadProfile \<Rightarrow> ('o, 'l, 'x) memory \<Rightarrow> (LoadProfile \<times> ('o, 'l, 'x) memory) option" where
  "LoadProfile_DeepCopyInto this h = Some (this, h)"

definition Allocation_DeepCopyInto ::
  "CrAllocation \<Rightarrow> ('o, 'l, 'x) memory \<Rightarrow> (CrAllocation \<times> ('o, 'l, 'x) memory) option" where
  "Allocation_DeepCopyInto this h = (let out = this; out = out\<lparr>cr_Load := cr_Load this\<rparr> in Some (out, h))"

definition ModelProfile_DeepCopyInto :: "ModelProfileM \<Rightarrow> ('o, 'l, 'x) memory \<Rightarrow> (ModelProfileM \<times> ('o, 'l, 'x) memory) option" where
  "ModelProfile_DeepCopyInto this h = do {
     let out = this;
     (a, h) \<leftarrow> copy_opt (copy_slice ProfileArray as_ProfileArray zero_AcceleratorProfile AcceleratorProfile_DeepCopyInto)
       (mpl_Accelerators this) h;
     Some (out\<lparr>mpl_Accelerators := a\<rparr>, h) }"

definition OptimizedAlloc_DeepCopyInto ::
  "('o, 'l, 'x) MetaV1 \<Rightarrow> OptimizedAlloc \<Rightarrow> ('o, 'l, 'x) memory \<Rightarrow> (OptimizedAlloc \<times> ('o, 'l, 'x) memory) option" where
  "OptimizedAlloc_DeepCopyInto mv this h = Some (this\<lparr>oa_LastRunTime := mv_Time mv (oa_LastRunTime this)\<rparr>, h)"

definition VariantAutoscalingSpec_DeepCopyInto :: "SpecM \<Rightarrow> ('o, 'l, 'x) memory \<Rightarrow> (SpecM \<times> ('o, 'l, 'x) memory) option" where
  "VariantAutoscalingSpec_DeepCopyInto this h = do {
     let out = this;
     (m, h) \<leftarrow> ModelProfile_DeepCopyInto (spl_ModelProfile this) h;
     Some (out\<lparr>spl_ModelProfile := m\<rparr>, h) }"

definition VariantAutoscalingStatus_DeepCopyInto ::
  "('o, 'l, 'x) MetaV1 \<Rightarrow> StatusM \<Rightarrow> ('o, 'l, 'x) memory \<Rightarrow> (StatusM \<times> ('o, 'l, 'x) memory) option" where
  "VariantAutoscalingStatus_DeepCopyInto mv this h = do {
     let out = this\<lparr>stl_CurrentAlloc := stl_CurrentAlloc this\<rparr>;
     (d, h) \<leftarrow> OptimizedAlloc_DeepCopyInto mv (stl_DesiredOptimizedAlloc this) h;
     let out = out\<lparr>stl_DesiredOptimizedAlloc := d\<rparr>;
     let out = out\<lparr>stl_Actuation := stl_Actuation this\<rparr>;
     (c, h) \<leftarrow> copy_opt (copy_slice ConditionArray as_ConditionArray zero_Condition (\<lambda>c h. Some (mv_Condition mv c, h)))
       (stl_Conditions this) h;
     Some (out\<lparr>stl_Conditions := c\<rparr>, h) }"

definition VariantAutoscaling_DeepCopyInto ::
  "('o, 'l, 'x) MetaV1 \<Rightarrow> 'o VariantAutoscalingM \<Rightarrow> ('o, 'l, 'x) memory \<Rightarrow>
   ('o VariantAutoscalingM \<times> ('o, 'l, 'x) memory) option" where
  "VariantAutoscaling_DeepCopyInto mv this h = do {
     let out = this\<lparr>val_TypeMeta := val_TypeMeta this\<rparr>;
     (m, h) \<leftarrow> mv_ObjectMeta mv (val_ObjectMeta this) h;
     let out = out\<lparr>val_ObjectMeta := m\<rparr>;
     (s, h) \<leftarrow> VariantAutoscalingSpec_DeepCopyInto (val_Spec this) h;
     let out = out\<lparr>val_Spec := s\<rparr>;
     (t, h) \<leftarrow> VariantAutoscalingStatus_DeepCopyInto mv (val_Status this) h;
     Some (out\<lparr>val_Status := t\<rparr>, h) }"

definition VariantAutoscalingList_DeepCopyInto ::
  "('o, 'l, 'x) MetaV1 \<Rightarrow> 'l VariantAutoscalingListM \<Rightarrow> ('o, 'l, 'x) memory \<Rightarrow>
   ('l VariantAutoscalingListM \<times> ('o, 'l, 'x) memory) option" where
  "VariantAutoscalingList_DeepCopyInto mv this h = do {
     let out = this\<lparr>vll_TypeMeta := vll_TypeMeta this\<rparr>;
     (m, h) \<leftarrow> mv_ListMeta mv (vll_ListMeta this) h;
     let out = out\<lparr>vll_ListMeta := m\<rparr>;
     (xs, h) \<leftarrow> copy_opt (copy_slice ItemArray as_ItemArray (zero_VariantAutoscalingM (mv_zeroObjectMeta mv))
       (VariantAutoscaling_DeepCopyInto mv)) (vll_Items this) h;
     Some (out\<lparr>vll_Items := xs\<rparr>, h) }"

text \<open>\<^verbatim>\<open>DeepCopy\<close> returns \<^verbatim>\<open>nil\<close> for \<^verbatim>\<open>nil\<close>.\<close>

type_synonym ('o, 'l, 'x) ptr_copy = "addr option \<Rightarrow> ('o, 'l, 'x) memory \<Rightarrow> (addr option \<times> ('o, 'l, 'x) memory) option"

definition AcceleratorProfile_DeepCopy :: "('o, 'l, 'x) ptr_copy" where
  "AcceleratorProfile_DeepCopy =
     copy_opt (new_copy AcceleratorProfileCell as_AcceleratorProfile zero_AcceleratorProfile AcceleratorProfile_DeepCopyInto)"

definition ActuationStatus_DeepCopy :: "('o, 'l, 'x) ptr_copy" where
  "ActuationStatus_DeepCopy =
     copy_opt (new_copy ActuationStatusCell as_ActuationStatus zero_ActuationStatus ActuationStatus_DeepCopyInto)"

definition Allocation_DeepCopy :: "('o, 'l, 'x) ptr_copy" where
  "Allocation_DeepCopy = copy_opt (new_copy AllocationCell as_Allocation zero_CrAllocation Allocation_DeepCopyInto)"

definition LoadProfile_DeepCopy :: "('o, 'l, 'x) ptr_copy" where
  "LoadProfile_DeepCopy = copy_opt (new_copy LoadProfileCell as_LoadProfile zero_LoadProfile LoadProfile_DeepCopyInto)"

definition ModelProfile_DeepCopy :: "('o, 'l, 'x) ptr_copy" where
  "ModelProfile_DeepCopy = copy_opt (new_copy ModelProfileCell as_ModelProfile zero_ModelProfile ModelProfile_DeepCopyInto)"

definition OptimizedAlloc_DeepCopy :: "('o, 'l, 'x) MetaV1 \<Rightarrow> ('o, 'l, 'x) ptr_copy" where
  "OptimizedAlloc_DeepCopy mv =
     copy_opt (new_copy OptimizedAllocCell as_OptimizedAlloc zero_OptimizedAlloc (OptimizedAlloc_DeepCopyInto mv))"

definition PerfParms_DeepCopy :: "('o, 'l, 'x) ptr_copy" where
  "PerfParms_DeepCopy = copy_opt (new_copy PerfParmsCell as_PerfParms zero_PerfParms PerfParms_DeepCopyInto)"

definition VariantAutoscaling_DeepCopy :: "('o, 'l, 'x) MetaV1 \<Rightarrow> ('o, 'l, 'x) ptr_copy" where
  "VariantAutoscaling_DeepCopy mv =
     copy_opt (new_copy VariantAutoscalingCell as_VariantAutoscaling (zero_VariantAutoscalingM (mv_zeroObjectMeta mv))
       (VariantAutoscaling_DeepCopyInto mv))"

definition VariantAutoscalingList_DeepCopy :: "('o, 'l, 'x) MetaV1 \<Rightarrow> ('o, 'l, 'x) ptr_copy" where
  "VariantAutoscalingList_DeepCopy mv =
     copy_opt (new_copy VariantAutoscalingListCell as_VariantAutoscalingList (zero_VariantAutoscalingList (mv_zeroListMeta mv))
       (VariantAutoscalingList_DeepCopyInto mv))"

definition VariantAutoscalingSpec_DeepCopy :: "('o, 'l, 'x) ptr_copy" where
  "VariantAutoscalingSpec_DeepCopy = copy_opt (new_copy SpecCell as_Spec zero_Spec VariantAutoscalingSpec_DeepCopyInto)"

definition VariantAutoscalingStatus_DeepCopy :: "('o, 'l, 'x) MetaV1 \<Rightarrow> ('o, 'l, 'x) ptr_copy" where
  "VariantAutoscalingStatus_DeepCopy mv = copy_opt (new_copy StatusCell as_Status zero_Status (VariantAutoscalingStatus_DeepCopyInto mv))"

text \<open>\<^verbatim>\<open>DeepCopyObject\<close> wraps the pointer into an interface value, which is \<^verbatim>\<open>nil\<close> and not a typed nil pointer
  when there is no object.\<close>

datatype runtime_Object = VariantAutoscalingObject addr | VariantAutoscalingListObject addr

definition VariantAutoscaling_DeepCopyObject ::
  "('o, 'l, 'x) MetaV1 \<Rightarrow> addr option \<Rightarrow> ('o, 'l, 'x) memory \<Rightarrow> (runtime_Object option \<times> ('o, 'l, 'x) memory) option" where
  "VariantAutoscaling_DeepCopyObject mv this h = do {
     (c, h) \<leftarrow> VariantAutoscaling_DeepCopy mv this h;
     case c of Some c \<Rightarrow> Some (Some (VariantAutoscalingObject c), h) | None \<Rightarrow> Some (None, h) }"

definition VariantAutoscalingList_DeepCopyObject ::
  "('o, 'l, 'x) MetaV1 \<Rightarrow> addr option \<Rightarrow> ('o, 'l, 'x) memory \<Rightarrow> (runtime_Object option \<times> ('o, 'l, 'x) memory) option" where
  "VariantAutoscalingList_DeepCopyObject mv this h = do {
     (c, h) \<leftarrow> VariantAutoscalingList_DeepCopy mv this h;
     case c of Some c \<Rightarrow> Some (Some (VariantAutoscalingListObject c), h) | None \<Rightarrow> Some (None, h) }"

section \<open>Values in memory and the cells they reach\<close>

definition PerfParms_view :: "('o, 'l, 'x) memory \<Rightarrow> PerfParmsM \<Rightarrow> parms PerfParmsL option" where
  "PerfParms_view h x = do {
     d \<leftarrow> view_opt (view_map as_StringMap) h (ppl_DecodeParms x);
     p \<leftarrow> view_opt (view_map as_StringMap) h (ppl_PrefillParms x);
     Some \<lparr>ppl_DecodeParms = d, ppl_PrefillParms = p\<rparr> }"

definition PerfParms_foot :: "('o, 'l, 'x) memory \<Rightarrow> PerfParmsM \<Rightarrow> addr set" where
  "PerfParms_foot h x = foot_opt (\<lambda>h a. {a}) h (ppl_DecodeParms x) \<union> foot_opt (\<lambda>h a. {a}) h (ppl_PrefillParms x)"

definition AcceleratorProfile_view :: "('o, 'l, 'x) memory \<Rightarrow> AcceleratorProfileM \<Rightarrow> parms AcceleratorProfileL option" where
  "AcceleratorProfile_view h x = do {
     p \<leftarrow> PerfParms_view h (apl_PerfParms x);
     Some \<lparr>apl_Acc = apl_Acc x, apl_AccCount = apl_AccCount x, apl_PerfParms = p, apl_MaxBatchSize = apl_MaxBatchSize x\<rparr> }"

definition AcceleratorProfile_foot :: "('o, 'l, 'x) memory \<Rightarrow> AcceleratorProfileM \<Rightarrow> addr set" where
  "AcceleratorProfile_foot h x = PerfParms_foot h (apl_PerfParms x)"

definition ModelProfile_view :: "('o, 'l, 'x) memory \<Rightarrow> ModelProfileM \<Rightarrow> profiles ModelProfileL option" where
  "ModelProfile_view h x = do {
     a \<leftarrow> view_opt (view_slice as_ProfileArray AcceleratorProfile_view) h (mpl_Accelerators x);
     Some \<lparr>mpl_Accelerators = a\<rparr> }"

definition ModelProfile_foot :: "('o, 'l, 'x) memory \<Rightarrow> ModelProfileM \<Rightarrow> addr set" where
  "ModelProfile_foot h x = foot_opt (foot_slice as_ProfileArray AcceleratorProfile_foot) h (mpl_Accelerators x)"

definition Spec_view :: "('o, 'l, 'x) memory \<Rightarrow> SpecM \<Rightarrow> profiles SpecL option" where
  "Spec_view h x = do {
     m \<leftarrow> ModelProfile_view h (spl_ModelProfile x);
     Some \<lparr>spl_ModelID = spl_ModelID x, spl_ModelProfile = m, spl_VariantCost = spl_VariantCost x\<rparr> }"

definition Spec_foot :: "('o, 'l, 'x) memory \<Rightarrow> SpecM \<Rightarrow> addr set" where
  "Spec_foot h x = ModelProfile_foot h (spl_ModelProfile x)"

definition Status_view :: "('o, 'l, 'x) memory \<Rightarrow> StatusM \<Rightarrow> Condition list StatusL option" where
  "Status_view h x = do {
     c \<leftarrow> view_opt (view_slice as_ConditionArray (\<lambda>_. Some)) h (stl_Conditions x);
     Some \<lparr>stl_CurrentAlloc = stl_CurrentAlloc x, stl_DesiredOptimizedAlloc = stl_DesiredOptimizedAlloc x,
       stl_Actuation = stl_Actuation x, stl_Conditions = c\<rparr> }"

definition Status_foot :: "('o, 'l, 'x) memory \<Rightarrow> StatusM \<Rightarrow> addr set" where
  "Status_foot h x = foot_opt (foot_slice as_ConditionArray (\<lambda>_ _. {})) h (stl_Conditions x)"

text \<open>The metadata is read with a function of the code that provides it.\<close>

definition VariantAutoscaling_view ::
  "(('o, 'l, 'x) memory \<Rightarrow> 'o \<Rightarrow> 'q option) \<Rightarrow> ('o, 'l, 'x) memory \<Rightarrow> 'o VariantAutoscalingM \<Rightarrow> 'q VariantAutoscalingT option" where
  "VariantAutoscaling_view oview h x = do {
     m \<leftarrow> oview h (val_ObjectMeta x); s \<leftarrow> Spec_view h (val_Spec x); t \<leftarrow> Status_view h (val_Status x);
     Some \<lparr>val_TypeMeta = val_TypeMeta x, val_ObjectMeta = m, val_Spec = s, val_Status = t\<rparr> }"

definition VariantAutoscaling_foot ::
  "(('o, 'l, 'x) memory \<Rightarrow> 'o \<Rightarrow> addr set) \<Rightarrow> ('o, 'l, 'x) memory \<Rightarrow> 'o VariantAutoscalingM \<Rightarrow> addr set" where
  "VariantAutoscaling_foot ofoot h x =
     ofoot h (val_ObjectMeta x) \<union> (Spec_foot h (val_Spec x) \<union> Status_foot h (val_Status x))"

definition VariantAutoscalingList_view ::
  "(('o, 'l, 'x) memory \<Rightarrow> 'o \<Rightarrow> 'q option) \<Rightarrow> (('o, 'l, 'x) memory \<Rightarrow> 'l \<Rightarrow> 'p option) \<Rightarrow> ('o, 'l, 'x) memory \<Rightarrow>
   'l VariantAutoscalingListM \<Rightarrow> ('p, 'q VariantAutoscalingT list) VariantAutoscalingListL option" where
  "VariantAutoscalingList_view oview lview h x = do {
     m \<leftarrow> lview h (vll_ListMeta x);
     xs \<leftarrow> view_opt (view_slice as_ItemArray (VariantAutoscaling_view oview)) h (vll_Items x);
     Some \<lparr>vll_TypeMeta = vll_TypeMeta x, vll_ListMeta = m, vll_Items = xs\<rparr> }"

definition VariantAutoscalingList_foot ::
  "(('o, 'l, 'x) memory \<Rightarrow> 'o \<Rightarrow> addr set) \<Rightarrow> (('o, 'l, 'x) memory \<Rightarrow> 'l \<Rightarrow> addr set) \<Rightarrow> ('o, 'l, 'x) memory \<Rightarrow>
   'l VariantAutoscalingListM \<Rightarrow> addr set" where
  "VariantAutoscalingList_foot ofoot lfoot h x =
     lfoot h (vll_ListMeta x) \<union> foot_opt (foot_slice as_ItemArray (VariantAutoscaling_foot ofoot)) h (vll_Items x)"

section \<open>The contracts\<close>

interpretation string_map: map_cell StringMap as_StringMap
  by unfold_locales (simp add: as_cell_defs)

lemmas string_map_copier = opt_copier [OF string_map.map_copier]

lemma PerfParms_copier: "deep_copier PerfParms_DeepCopyInto PerfParms_view PerfParms_foot"
proof -
  have c: "PerfParms_DeepCopyInto = (\<lambda>x h. do {
      (p, h) \<leftarrow> copy_both (copy_opt (copy_map StringMap as_StringMap)) (copy_opt (copy_map StringMap as_StringMap))
        (ppl_DecodeParms x, ppl_PrefillParms x) h;
      Some (x\<lparr>ppl_DecodeParms := fst p, ppl_PrefillParms := snd p\<rparr>, h) })"
    by (intro ext) (simp add: PerfParms_DeepCopyInto_def copy_both_def split: Option.bind_split)
  have v: "PerfParms_view = (\<lambda>h x. do {
      t \<leftarrow> view_both (view_opt (view_map as_StringMap)) (view_opt (view_map as_StringMap)) h (ppl_DecodeParms x, ppl_PrefillParms x);
      Some \<lparr>ppl_DecodeParms = fst t, ppl_PrefillParms = snd t\<rparr> })"
    by (intro ext) (simp add: PerfParms_view_def view_both_def)
  have f: "PerfParms_foot = (\<lambda>h x. (\<lambda>h p. foot_opt (\<lambda>h a. {a}) h (fst p) \<union> foot_opt (\<lambda>h a. {a}) h (snd p)) h
      (ppl_DecodeParms x, ppl_PrefillParms x))"
    by (intro ext) (simp add: PerfParms_foot_def)
  show ?thesis unfolding c v f by (rule field_copier [OF both_copier [OF string_map_copier string_map_copier]]) simp_all
qed

text \<open>The structs without pointers.\<close>

lemma plain_copiers:
  "deep_copier ActuationStatus_DeepCopyInto (\<lambda>_. Some) (\<lambda>_ _. {})"
  "deep_copier LoadProfile_DeepCopyInto (\<lambda>_. Some) (\<lambda>_ _. {})"
  "deep_copier Allocation_DeepCopyInto (\<lambda>_. Some) (\<lambda>_ _. {})"
  using plain_copier
  by (simp_all add: ActuationStatus_DeepCopyInto_def [abs_def] LoadProfile_DeepCopyInto_def [abs_def] Allocation_DeepCopyInto_def [abs_def])

interpretation actuation: struct_cell ActuationStatusCell as_ActuationStatus ActuationStatus_DeepCopyInto "\<lambda>_. Some" "\<lambda>_ _. {}"
  by (intro struct_cell.intro plain_copiers) (unfold_locales, simp add: as_cell_defs)

interpretation load_profile: struct_cell LoadProfileCell as_LoadProfile LoadProfile_DeepCopyInto "\<lambda>_. Some" "\<lambda>_ _. {}"
  by (intro struct_cell.intro plain_copiers) (unfold_locales, simp add: as_cell_defs)

interpretation allocation: struct_cell AllocationCell as_Allocation Allocation_DeepCopyInto "\<lambda>_. Some" "\<lambda>_ _. {}"
  by (intro struct_cell.intro plain_copiers) (unfold_locales, simp add: as_cell_defs)

interpretation perf_parms: struct_cell PerfParmsCell as_PerfParms PerfParms_DeepCopyInto PerfParms_view PerfParms_foot
  by (intro struct_cell.intro PerfParms_copier) (unfold_locales, simp add: as_cell_defs)

lemma AcceleratorProfile_copier:
  "deep_copier AcceleratorProfile_DeepCopyInto AcceleratorProfile_view AcceleratorProfile_foot"
proof -
  have c: "AcceleratorProfile_DeepCopyInto = (\<lambda>x h. do {
      (p, h) \<leftarrow> PerfParms_DeepCopyInto (apl_PerfParms x) h; Some (x\<lparr>apl_PerfParms := p\<rparr>, h) })"
    by (intro ext) (simp add: AcceleratorProfile_DeepCopyInto_def)
  show ?thesis
    unfolding c AcceleratorProfile_view_def [abs_def] AcceleratorProfile_foot_def [abs_def]
    by (rule field_copier [OF PerfParms_copier]) simp_all
qed

interpretation profile: struct_cell AcceleratorProfileCell as_AcceleratorProfile AcceleratorProfile_DeepCopyInto
    AcceleratorProfile_view AcceleratorProfile_foot
  by (intro struct_cell.intro AcceleratorProfile_copier) (unfold_locales, simp add: as_cell_defs)

interpretation profile_array: array_cell ProfileArray as_ProfileArray AcceleratorProfile_DeepCopyInto
    AcceleratorProfile_view AcceleratorProfile_foot
  by (intro array_cell.intro AcceleratorProfile_copier) (unfold_locales, simp add: as_cell_defs)

lemma ModelProfile_copier: "deep_copier ModelProfile_DeepCopyInto ModelProfile_view ModelProfile_foot"
proof -
  have c: "ModelProfile_DeepCopyInto = (\<lambda>x h. do {
      (a, h) \<leftarrow> copy_opt (copy_slice ProfileArray as_ProfileArray zero_AcceleratorProfile AcceleratorProfile_DeepCopyInto)
        (mpl_Accelerators x) h;
      Some (x\<lparr>mpl_Accelerators := a\<rparr>, h) })"
    by (intro ext) (simp add: ModelProfile_DeepCopyInto_def)
  show ?thesis
    unfolding c ModelProfile_view_def [abs_def] ModelProfile_foot_def [abs_def]
    by (rule field_copier [OF opt_copier [OF profile_array.slice_copier]]) simp_all
qed

interpretation model_profile: struct_cell ModelProfileCell as_ModelProfile ModelProfile_DeepCopyInto
    ModelProfile_view ModelProfile_foot
  by (intro struct_cell.intro ModelProfile_copier) (unfold_locales, simp add: as_cell_defs)

lemma Spec_copier: "deep_copier VariantAutoscalingSpec_DeepCopyInto Spec_view Spec_foot"
proof -
  have c: "VariantAutoscalingSpec_DeepCopyInto = (\<lambda>x h. do {
      (m, h) \<leftarrow> ModelProfile_DeepCopyInto (spl_ModelProfile x) h; Some (x\<lparr>spl_ModelProfile := m\<rparr>, h) })"
    by (intro ext) (simp add: VariantAutoscalingSpec_DeepCopyInto_def)
  show ?thesis
    unfolding c Spec_view_def [abs_def] Spec_foot_def [abs_def]
    by (rule field_copier [OF ModelProfile_copier]) simp_all
qed

interpretation spec: struct_cell SpecCell as_Spec VariantAutoscalingSpec_DeepCopyInto Spec_view Spec_foot
  by (intro struct_cell.intro Spec_copier) (unfold_locales, simp add: as_cell_defs)

text \<open>The documented behaviour of the copies of \<^verbatim>\<open>k8s.io/apimachinery\<close>: those of the metadata are deep
  copies, and times and conditions have no pointers to copy, so that theirs are assignments.\<close>

definition documented_meta ::
  "('o, 'l, 'x) MetaV1 \<Rightarrow> (('o, 'l, 'x) memory \<Rightarrow> 'o \<Rightarrow> 'q option) \<Rightarrow> (('o, 'l, 'x) memory \<Rightarrow> 'o \<Rightarrow> addr set) \<Rightarrow>
   (('o, 'l, 'x) memory \<Rightarrow> 'l \<Rightarrow> 'p option) \<Rightarrow> (('o, 'l, 'x) memory \<Rightarrow> 'l \<Rightarrow> addr set) \<Rightarrow> bool" where
  "documented_meta mv oview ofoot lview lfoot \<longleftrightarrow>
     deep_copier (mv_ObjectMeta mv) oview ofoot \<and> deep_copier (mv_ListMeta mv) lview lfoot \<and>
     (\<forall>t. mv_Time mv t = t) \<and> (\<forall>c. mv_Condition mv c = c)"

interpretation condition_array: typed_cell ConditionArray as_ConditionArray
  by unfold_locales (simp add: as_cell_defs)

lemma conditions_copier:
  "deep_copier (copy_opt (copy_slice ConditionArray as_ConditionArray zero (\<lambda>c h. Some (c, h))))
     (view_opt (view_slice as_ConditionArray (\<lambda>_. Some))) (foot_opt (foot_slice as_ConditionArray (\<lambda>_ _. {})))"
  by (intro opt_copier array_cell.slice_copier array_cell.intro condition_array.typed_cell_axioms plain_copier)

lemma Status_copier:
  assumes "documented_meta mv oview ofoot lview lfoot"
  shows "deep_copier (VariantAutoscalingStatus_DeepCopyInto mv) Status_view Status_foot"
proof -
  have c: "VariantAutoscalingStatus_DeepCopyInto mv = (\<lambda>x h. do {
      (c, h) \<leftarrow> copy_opt (copy_slice ConditionArray as_ConditionArray zero_Condition (\<lambda>c h. Some (c, h))) (stl_Conditions x) h;
      Some (x\<lparr>stl_Conditions := c\<rparr>, h) })"
    using assms by (intro ext) (simp add: VariantAutoscalingStatus_DeepCopyInto_def OptimizedAlloc_DeepCopyInto_def documented_meta_def)
  show ?thesis
    unfolding c Status_view_def [abs_def] Status_foot_def [abs_def] by (rule field_copier [OF conditions_copier]) simp_all
qed

lemma VariantAutoscaling_copier:
  assumes "documented_meta mv oview ofoot lview lfoot"
  shows "deep_copier (VariantAutoscaling_DeepCopyInto mv) (VariantAutoscaling_view oview) (VariantAutoscaling_foot ofoot)"
proof -
  let ?get = "\<lambda>x :: 'a VariantAutoscalingM. (val_ObjectMeta x, val_Spec x, val_Status x)"
  have c: "VariantAutoscaling_DeepCopyInto mv = (\<lambda>x h. do {
      (p, h) \<leftarrow> copy_both (mv_ObjectMeta mv) (copy_both VariantAutoscalingSpec_DeepCopyInto (VariantAutoscalingStatus_DeepCopyInto mv)) (?get x) h;
      Some (x\<lparr>val_ObjectMeta := fst p, val_Spec := fst (snd p), val_Status := snd (snd p)\<rparr>, h) })"
    by (intro ext) (simp add: VariantAutoscaling_DeepCopyInto_def copy_both_def split: Option.bind_split)
  have v: "VariantAutoscaling_view oview = (\<lambda>h x. do {
      t \<leftarrow> view_both oview (view_both Spec_view Status_view) h (?get x);
      Some \<lparr>val_TypeMeta = val_TypeMeta x, val_ObjectMeta = fst t, val_Spec = fst (snd t), val_Status = snd (snd t)\<rparr> })"
    by (intro ext) (simp add: VariantAutoscaling_view_def view_both_def)
  have f: "VariantAutoscaling_foot ofoot = (\<lambda>h x. (\<lambda>h p. ofoot h (fst p) \<union>
      (\<lambda>h p. Spec_foot h (fst p) \<union> Status_foot h (snd p)) h (snd p)) h (?get x))"
    by (intro ext) (simp add: VariantAutoscaling_foot_def)
  have "deep_copier (mv_ObjectMeta mv) oview ofoot" using assms by (simp add: documented_meta_def)
  note parts = both_copier [OF this both_copier [OF Spec_copier Status_copier [OF assms]]]
  show ?thesis unfolding c v f by (rule field_copier [OF parts]) simp_all
qed

lemma VariantAutoscalingList_copier:
  assumes "documented_meta mv oview ofoot lview lfoot"
  shows "deep_copier (VariantAutoscalingList_DeepCopyInto mv) (VariantAutoscalingList_view oview lview)
    (VariantAutoscalingList_foot ofoot lfoot)"
proof -
  let ?items = "copy_opt (copy_slice ItemArray as_ItemArray (zero_VariantAutoscalingM (mv_zeroObjectMeta mv)) (VariantAutoscaling_DeepCopyInto mv))"
  have c: "VariantAutoscalingList_DeepCopyInto mv = (\<lambda>x h. do {
      (p, h) \<leftarrow> copy_both (mv_ListMeta mv) ?items (vll_ListMeta x, vll_Items x) h;
      Some (x\<lparr>vll_ListMeta := fst p, vll_Items := snd p\<rparr>, h) })"
    by (intro ext) (simp add: VariantAutoscalingList_DeepCopyInto_def copy_both_def split: Option.bind_split)
  have v: "VariantAutoscalingList_view oview lview = (\<lambda>h x. do {
      t \<leftarrow> view_both lview (view_opt (view_slice as_ItemArray (VariantAutoscaling_view oview))) h (vll_ListMeta x, vll_Items x);
      Some \<lparr>vll_TypeMeta = vll_TypeMeta x, vll_ListMeta = fst t, vll_Items = snd t\<rparr> })"
    by (intro ext) (simp add: VariantAutoscalingList_view_def view_both_def)
  have f: "VariantAutoscalingList_foot ofoot lfoot = (\<lambda>h x. (\<lambda>h p. lfoot h (fst p) \<union>
      foot_opt (foot_slice as_ItemArray (VariantAutoscaling_foot ofoot)) h (snd p)) h (vll_ListMeta x, vll_Items x))"
    by (intro ext) (simp add: VariantAutoscalingList_foot_def)
  have l: "deep_copier (mv_ListMeta mv) lview lfoot" using assms by (simp add: documented_meta_def)
  have i: "deep_copier ?items (view_opt (view_slice as_ItemArray (VariantAutoscaling_view oview)))
      (foot_opt (foot_slice as_ItemArray (VariantAutoscaling_foot ofoot)))"
    by (intro opt_copier array_cell.slice_copier array_cell.intro typed_cell.intro VariantAutoscaling_copier [OF assms])
      (simp add: as_cell_defs)
  show ?thesis unfolding c v f by (rule field_copier [OF both_copier [OF l i]]) simp_all
qed

text \<open>The pointers that \<^verbatim>\<open>DeepCopy\<close> takes and returns.\<close>

abbreviation va_view ::
  "(('o, 'l, 'x) memory \<Rightarrow> 'o \<Rightarrow> 'q option) \<Rightarrow> ('o, 'l, 'x) memory \<Rightarrow> addr \<Rightarrow> 'q VariantAutoscalingT option" where
  "va_view oview \<equiv> view_ptr as_VariantAutoscaling (VariantAutoscaling_view oview)"

abbreviation va_foot ::
  "(('o, 'l, 'x) memory \<Rightarrow> 'o \<Rightarrow> addr set) \<Rightarrow> ('o, 'l, 'x) memory \<Rightarrow> addr \<Rightarrow> addr set" where
  "va_foot ofoot \<equiv> foot_ptr as_VariantAutoscaling (VariantAutoscaling_foot ofoot)"

abbreviation list_view where
  "list_view oview lview \<equiv> view_ptr as_VariantAutoscalingList (VariantAutoscalingList_view oview lview)"

abbreviation list_foot where
  "list_foot ofoot lfoot \<equiv> foot_ptr as_VariantAutoscalingList (VariantAutoscalingList_foot ofoot lfoot)"

lemma va_ptr_copier:
  assumes "documented_meta mv oview ofoot lview lfoot"
  shows "deep_copier (new_copy VariantAutoscalingCell as_VariantAutoscaling zero (VariantAutoscaling_DeepCopyInto mv))
    (va_view oview) (va_foot ofoot)"
  by (intro struct_cell.new_copier struct_cell.intro typed_cell.intro VariantAutoscaling_copier [OF assms])
    (simp add: as_cell_defs)

lemma list_ptr_copier:
  assumes "documented_meta mv oview ofoot lview lfoot"
  shows "deep_copier (new_copy VariantAutoscalingListCell as_VariantAutoscalingList zero (VariantAutoscalingList_DeepCopyInto mv))
    (list_view oview lview) (list_foot ofoot lfoot)"
  by (intro struct_cell.new_copier struct_cell.intro typed_cell.intro VariantAutoscalingList_copier [OF assms])
    (simp add: as_cell_defs)

section \<open>Copies are isolated\<close>

text \<open>C18: A deep copy of a list of VariantAutoscaling objects returns for every well-formed list, shows the
  same value with all nested maps, slices and nil references, and shares no memory with the original:
  nothing that is later written to the cells of one of them, or to new cells, shows in the other. The
  copy does not write to any cell that was in use, and the copy of nil is nil.\<close>

theorem deep_copy_isolated:
  assumes "documented_meta mv oview ofoot lview lfoot" and "heap_ok h" and "list_view oview lview h p = Some t"
  shows "VariantAutoscalingList_DeepCopy mv None h = Some (None, h) \<and>
    (\<exists>q h'. VariantAutoscalingList_DeepCopy mv (Some p) h = Some (Some q, h') \<and> agree (allocated h) h h' \<and>
      list_view oview lview h' q = Some t \<and> list_view oview lview h' p = Some t \<and>
      (\<forall>g. agree (allocated h' - list_foot ofoot lfoot h' p) h' g \<longrightarrow> list_view oview lview g q = Some t) \<and>
      (\<forall>g. agree (allocated h' - list_foot ofoot lfoot h' q) h' g \<longrightarrow> list_view oview lview g p = Some t))"
proof -
  obtain q h' where "new_copy VariantAutoscalingListCell as_VariantAutoscalingList
        (zero_VariantAutoscalingList (mv_zeroListMeta mv)) (VariantAutoscalingList_DeepCopyInto mv) p h = Some (q, h')"
    and "agree (allocated h) h h'" "list_view oview lview h' q = Some t" "list_view oview lview h' p = Some t"
      "\<forall>g. agree (allocated h' - list_foot ofoot lfoot h' p) h' g \<longrightarrow> list_view oview lview g q = Some t"
      "\<forall>g. agree (allocated h' - list_foot ofoot lfoot h' q) h' g \<longrightarrow> list_view oview lview g p = Some t"
    using deep_copier.isolated [OF list_ptr_copier [OF assms(1)] assms(2,3)] by blast
  then show ?thesis
    by (intro conjI exI [of _ q] exI [of _ h']) (simp_all add: VariantAutoscalingList_DeepCopy_def copy_opt_def)
qed

text \<open>Metadata with a name, a map of labels and the name of the owner.\<close>

definition sample_meta :: "(string \<times> addr option \<times> string, string, unit) MetaV1" where
  "sample_meta = \<lparr>mv_ObjectMeta = (\<lambda>(n, l, ow) h. do {
       (l, h) \<leftarrow> copy_opt (copy_map StringMap as_StringMap) l h; Some ((n, l, ow), h) }),
     mv_ListMeta = (\<lambda>m h. Some (m, h)), mv_Time = (\<lambda>t. t), mv_Condition = (\<lambda>c. c),
     mv_zeroObjectMeta = ('''', None, ''''), mv_zeroListMeta = ''''\<rparr>"

type_synonym sample_memory = "(string \<times> addr option \<times> string, string, unit) memory"

definition sample_oview :: "sample_memory \<Rightarrow> string \<times> addr option \<times> string \<Rightarrow> (string \<times> parms option \<times> string) option" where
  "sample_oview h o1 = do {
     l \<leftarrow> view_opt (view_map as_StringMap) h (fst (snd o1)); Some (fst o1, l, snd (snd o1)) }"

definition sample_ofoot :: "sample_memory \<Rightarrow> string \<times> addr option \<times> string \<Rightarrow> addr set" where
  "sample_ofoot h o1 = foot_opt (\<lambda>h a. {a}) h (fst (snd o1))"

lemma sample_meta_documented: "documented_meta sample_meta sample_oview sample_ofoot (\<lambda>_. Some) (\<lambda>_ _. {})"
proof -
  have c: "mv_ObjectMeta sample_meta = (\<lambda>o1 h. do {
      (l, h) \<leftarrow> copy_opt (copy_map StringMap as_StringMap) (fst (snd o1)) h; Some ((fst o1, l, snd (snd o1)), h) })"
    by (intro ext) (simp add: sample_meta_def case_prod_beta)
  have "deep_copier (mv_ObjectMeta sample_meta) sample_oview sample_ofoot"
    unfolding c sample_oview_def [abs_def] sample_ofoot_def [abs_def] by (rule field_copier [OF string_map_copier]) simp_all
  moreover have "deep_copier (mv_ListMeta sample_meta) (\<lambda>_. Some) (\<lambda>_ _. {})"
    using plain_copier by (simp add: sample_meta_def)
  ultimately show ?thesis by (simp add: documented_meta_def) (simp add: sample_meta_def)
qed

text \<open>An object whose two accelerator profiles share a map of parameters and are a window on an array of
  three, with a condition; and a list of it.\<close>

definition sample_va :: "(string \<times> addr option \<times> string) VariantAutoscalingM" where
  "sample_va = \<lparr>val_TypeMeta = \<lparr>tm_Kind = ''VariantAutoscaling'', tm_APIVersion = ''llmd.ai/v1alpha1''\<rparr>,
     val_ObjectMeta = (''va'', Some 0, ''''),
     val_Spec = \<lparr>spl_ModelID = ''m'', spl_ModelProfile = \<lparr>mpl_Accelerators = Some \<lparr>sl_base = 2, sl_off = 1, sl_len = 2\<rparr>\<rparr>,
       spl_VariantCost = ''10''\<rparr>,
     val_Status = zero_Status\<lparr>stl_Conditions := Some \<lparr>sl_base = 3, sl_off = 0, sl_len = 1\<rparr>\<rparr>\<rparr>"

definition sample_mem :: sample_memory where
  "sample_mem = \<lparr>hp_cells = [
     0 \<mapsto> StringMap [(''accelerator'', ''A100'')],
     1 \<mapsto> StringMap [(''alpha'', ''7.0''), (''beta'', ''0.04'')],
     2 \<mapsto> ProfileArray [zero_AcceleratorProfile,
       \<lparr>apl_Acc = ''A100'', apl_AccCount = 1, apl_PerfParms = \<lparr>ppl_DecodeParms = Some 1, ppl_PrefillParms = None\<rparr>, apl_MaxBatchSize = 4\<rparr>,
       \<lparr>apl_Acc = ''G2'', apl_AccCount = 1, apl_PerfParms = \<lparr>ppl_DecodeParms = Some 1, ppl_PrefillParms = Some 1\<rparr>, apl_MaxBatchSize = 8\<rparr>],
     3 \<mapsto> ConditionArray [zero_Condition\<lparr>cn_Type := ''MetricsAvailable''\<rparr>],
     4 \<mapsto> VariantAutoscalingCell sample_va,
     5 \<mapsto> ItemArray [sample_va],
     6 \<mapsto> VariantAutoscalingListCell \<lparr>vll_TypeMeta = \<lparr>tm_Kind = '''', tm_APIVersion = ''''\<rparr>, vll_ListMeta = ''7'',
       vll_Items = Some \<lparr>sl_base = 5, sl_off = 0, sl_len = 1\<rparr>\<rparr>], hp_lim = 7\<rparr>"

definition sample_va_value :: "(string \<times> parms option \<times> string) VariantAutoscalingT" where
  "sample_va_value = (let m = [(''alpha'', ''7.0''), (''beta'', ''0.04'')] in
     \<lparr>val_TypeMeta = \<lparr>tm_Kind = ''VariantAutoscaling'', tm_APIVersion = ''llmd.ai/v1alpha1''\<rparr>,
       val_ObjectMeta = (''va'', Some [(''accelerator'', ''A100'')], ''''),
       val_Spec = \<lparr>spl_ModelID = ''m'', spl_ModelProfile = \<lparr>mpl_Accelerators = Some [
         \<lparr>apl_Acc = ''A100'', apl_AccCount = 1, apl_PerfParms = \<lparr>ppl_DecodeParms = Some m, ppl_PrefillParms = None\<rparr>, apl_MaxBatchSize = 4\<rparr>,
         \<lparr>apl_Acc = ''G2'', apl_AccCount = 1, apl_PerfParms = \<lparr>ppl_DecodeParms = Some m, ppl_PrefillParms = Some m\<rparr>, apl_MaxBatchSize = 8\<rparr>]\<rparr>,
         spl_VariantCost = ''10''\<rparr>,
       val_Status = \<lparr>stl_CurrentAlloc = zero_CrAllocation, stl_DesiredOptimizedAlloc = zero_OptimizedAlloc,
         stl_Actuation = zero_ActuationStatus, stl_Conditions = Some [zero_Condition\<lparr>cn_Type := ''MetricsAvailable''\<rparr>]\<rparr>\<rparr>)"

lemma sample_mem_ok: "heap_ok sample_mem"
  by (auto simp: heap_ok_def sample_mem_def)

lemmas view_defs = view_ptr_def view_opt_def view_map_def view_slice_def slice_elems_def load_def
  VariantAutoscalingList_view_def VariantAutoscaling_view_def Spec_view_def Status_view_def ModelProfile_view_def
  AcceleratorProfile_view_def PerfParms_view_def as_cell_defs

lemma sample_va_view: "VariantAutoscaling_view sample_oview sample_mem sample_va = Some sample_va_value"
  by (simp add: view_defs sample_oview_def sample_mem_def sample_va_def sample_va_value_def zero_Status_def wf_map_def Let_def)

lemma sample_list_view:
  "list_view sample_oview (\<lambda>_. Some) sample_mem 6 =
     Some \<lparr>vll_TypeMeta = \<lparr>tm_Kind = '''', tm_APIVersion = ''''\<rparr>, vll_ListMeta = ''7'', vll_Items = Some [sample_va_value]\<rparr>"
proof -
  have "hp_cells sample_mem 5 = Some (ItemArray [sample_va])" "hp_cells sample_mem 6 = Some (VariantAutoscalingListCell
      \<lparr>vll_TypeMeta = \<lparr>tm_Kind = '''', tm_APIVersion = ''''\<rparr>, vll_ListMeta = ''7'', vll_Items = Some \<lparr>sl_base = 5, sl_off = 0, sl_len = 1\<rparr>\<rparr>)"
    by (simp_all add: sample_mem_def)
  then show ?thesis
    using sample_va_view
    by (simp add: view_ptr_def VariantAutoscalingList_view_def view_opt_def view_slice_def slice_elems_def load_def as_cell_defs)
qed

theorem deep_copy_isolated_witness:
  "\<exists>q h'. VariantAutoscalingList_DeepCopy sample_meta (Some 6) sample_mem = Some (Some q, h') \<and>
     list_view sample_oview (\<lambda>_. Some) h' q =
       Some \<lparr>vll_TypeMeta = \<lparr>tm_Kind = '''', tm_APIVersion = ''''\<rparr>, vll_ListMeta = ''7'', vll_Items = Some [sample_va_value]\<rparr>"
  using deep_copy_isolated [OF sample_meta_documented sample_mem_ok sample_list_view] by blast

end
