(* ===== verification/Wva_Engine.thy ===== *)
theory Wva_Engine
  imports Wva_Collector Inferno_Solver
begin

text \<open>
  The adapters between the controller and the optimizer: building the optimizer's specification from
  config maps and objects (\<^verbatim>\<open>internal/utils/utils.go\<close>), the model analyzer
  (\<^verbatim>\<open>internal/modelanalyzer\<close>) and the optimization engine (\<^verbatim>\<open>internal/optimizer\<close>). The YAML parser
  is an argument. \<open>None\<close> is a computation that panics or does not return. The theorems follow a
  number from the status through the specification, and a variant through the optimization.
\<close>

section \<open>Building the specification\<close>

record ServiceClassEntry =
  sce_Model :: string
  sce_SLOTPOT :: int
  sce_SLOTTFT :: int

text \<open>The service class as it is written in the config map.\<close>

record YamlServiceClass =
  ysc_Name :: string
  ysc_Priority :: int
  ysc_Data :: "ServiceClassEntry list"

definition accelerator_spec :: "string \<Rightarrow> (string, string) gomap \<Rightarrow> AcceleratorSpec option" where
  "accelerator_spec key val =
     (case ParseFloat MaxFloat32 (mget0 '''' val ''cost'') of
        None \<Rightarrow> None
      | Some cost \<Rightarrow> Some \<lparr>as_Name = key, as_Type = mget0 '''' val ''device'', as_Multiplicity = 1,
          as_MemSize = 0, as_MemBW = 0, as_Power = \<lparr>pw_Idle = 0, pw_Full = 0, pw_MidPower = 0, pw_MidUtil = Fin 0\<rparr>,
          as_Cost = cost\<rparr>)"

definition service_class_spec :: "YamlServiceClass \<Rightarrow> ServiceClassSpec" where
  "service_class_spec sc =
     \<lparr>sc_Name = ysc_Name sc, sc_Priority = ysc_Priority sc,
      sc_ModelTargets = map (\<lambda>entry. \<lparr>mt_Model = sce_Model entry, mt_SLO_ITL = float_of_int (sce_SLOTPOT entry),
        mt_SLO_TTFT = float_of_int (sce_SLOTTFT entry), mt_SLO_TPS = Fin 0\<rparr>) (ysc_Data sc)\<rparr>"

definition CreateSystemData ::
  "(string \<Rightarrow> message + YamlServiceClass) \<Rightarrow> (string, (string, string) gomap) gomap \<Rightarrow> (string, string) gomap \<Rightarrow> SystemSpec" where
  "CreateSystemData unmarshal acceleratorCm serviceClassCm =
     \<lparr>sy_Accelerators = List.map_filter (\<lambda>(key, val). accelerator_spec key val) acceleratorCm,
      sy_Models = [],
      sy_ServiceClasses = List.map_filter
        (\<lambda>(key, val). case unmarshal val of Inl _ \<Rightarrow> None | Inr sc \<Rightarrow> Some (service_class_spec sc)) serviceClassCm,
      sy_Servers = [],
      sy_Optimizer = \<lparr>os_Unlimited = True, os_DelayedBestEffort = False, os_SaturationPolicy = ''''\<rparr>,
      sy_Capacity = []\<rparr>"

text \<open>The errors of a profile: too few parameters, or one that is not a number.\<close>

datatype profile_error = ShortDecodeParms | ShortPrefillParms | NotANumber string

definition parse_parm :: "(string, string) gomap \<Rightarrow> string \<Rightarrow> profile_error + gofloat" where
  "parse_parm parms key =
     (let text = mget0 '''' parms key
      in case ParseFloat MaxFloat32 text of None \<Rightarrow> Inl (NotANumber text) | Some x \<Rightarrow> Inr x)"

definition AddModelAcceleratorProfileToSystemData ::
  "SystemSpec \<Rightarrow> string \<Rightarrow> AcceleratorProfile \<Rightarrow> profile_error + SystemSpec" where
  "AddModelAcceleratorProfileToSystemData sd modelName profile =
     (let decodeParms = pp_DecodeParms (ap_PerfParms profile); prefillParms = pp_PrefillParms (ap_PerfParms profile)
      in if length decodeParms < 2 then Inl ShortDecodeParms else
         case parse_parm decodeParms ''alpha'' of Inl e \<Rightarrow> Inl e | Inr alpha \<Rightarrow>
         case parse_parm decodeParms ''beta'' of Inl e \<Rightarrow> Inl e | Inr beta \<Rightarrow>
         if length prefillParms < 2 then Inl ShortPrefillParms else
         case parse_parm prefillParms ''gamma'' of Inl e \<Rightarrow> Inl e | Inr gamma \<Rightarrow>
         case parse_parm prefillParms ''delta'' of Inl e \<Rightarrow> Inl e | Inr delta \<Rightarrow>
           Inr (sd\<lparr>sy_Models := sy_Models sd @
             [\<lparr>pd_Name = modelName, pd_Acc = ap_Acc profile, pd_AccCount = ap_AccCount profile,
               pd_MaxBatchSize = ap_MaxBatchSize profile, pd_AtTokens = 0,
               pd_DecodeParms = \<lparr>cd_Alpha = alpha, cd_Beta = beta\<rparr>,
               pd_PrefillParms = \<lparr>cp_Gamma = gamma, cp_Delta = delta\<rparr>\<rparr>]\<rparr>))"

definition CheckValue :: "gofloat \<Rightarrow> bool" where
  "CheckValue x \<longleftrightarrow> \<not> (x = NaN \<or> isInf x)"

definition parse_or_zero :: "string \<Rightarrow> gofloat" where
  "parse_or_zero text =
     (case ParseFloat MaxFloat32 text of None \<Rightarrow> Fin 0 | Some x \<Rightarrow> if CheckValue x then x else Fin 0)"

definition FullName :: "string \<Rightarrow> string \<Rightarrow> string" where
  "FullName name namespace = name @ '':'' @ namespace"

definition server_alloc_data :: "CrAllocation \<Rightarrow> AllocationData" where
  "server_alloc_data cur =
     \<lparr>ad_Accelerator = cr_Accelerator cur, ad_NumReplicas = cr_NumReplicas cur, ad_MaxBatch = cr_MaxBatch cur,
      ad_Cost = parse_or_zero (cr_VariantCost cur), ad_ITLAverage = parse_or_zero (cr_ITLAverage cur),
      ad_TTFTAverage = parse_or_zero (cr_TTFTAverage cur),
      ad_Load = \<lparr>ld_ArrivalRate = parse_or_zero (lp_ArrivalRate (cr_Load cur)),
        ld_AvgInTokens = int_of_float (parse_or_zero (lp_AvgInputTokens (cr_Load cur))),
        ld_AvgOutTokens = int_of_float (parse_or_zero (lp_AvgOutputTokens (cr_Load cur)))\<rparr>\<rparr>"

definition profile_batch_size :: "VariantAutoscaling \<Rightarrow> int" where
  "profile_batch_size va =
     (let maxBatchSize = (case find (\<lambda>ap. ap_Acc ap = mget0 '''' (wa_Labels va) acceleratorLabel) (vsp_ModelProfile (wa_Spec va)) of
        Some ap \<Rightarrow> ap_MaxBatchSize ap | None \<Rightarrow> 0)
      in if maxBatchSize > 0 then maxBatchSize else 0)"

definition server_spec :: "(string \<Rightarrow> string) \<Rightarrow> VariantAutoscaling \<Rightarrow> string \<Rightarrow> ServerSpec" where
  "server_spec getenv va className =
     \<lparr>ss_Name = FullName (wa_Name va) (wa_Namespace va), ss_Class = className, ss_Model = vsp_ModelID (wa_Spec va),
      ss_KeepAccelerator = True, ss_MinNumReplicas = (if getenv ''WVA_SCALE_TO_ZERO'' = ''true'' then 0 else 1),
      ss_MaxBatchSize = profile_batch_size va,
      ss_CurrentAlloc = server_alloc_data (st_CurrentAlloc (wa_Status va)), ss_DesiredAlloc = zero_AllocationData\<rparr>"

definition AddServerInfoToSystemData ::
  "(string \<Rightarrow> string) \<Rightarrow> SystemSpec \<Rightarrow> VariantAutoscaling \<Rightarrow> string \<Rightarrow> SystemSpec" where
  "AddServerInfoToSystemData getenv sd va className = sd\<lparr>sy_Servers := sy_Servers sd @ [server_spec getenv va className]\<rparr>"

definition CreateOptimizedAlloc ::
  "Time \<Rightarrow> string \<Rightarrow> string \<Rightarrow> AllocationSolution \<Rightarrow> message + OptimizedAlloc" where
  "CreateOptimizedAlloc now name namespace solution =
     (let serverName = FullName name namespace
      in case mget solution serverName of
           None \<Rightarrow> Inl (sprintf ''server %s not found'' [FStr serverName])
         | Some d \<Rightarrow> Inr \<lparr>oa_LastRunTime = now, oa_Accelerator = ad_Accelerator d, oa_NumReplicas = ad_NumReplicas d\<rparr>)"

fun FindModelSLO ::
  "(string \<Rightarrow> message + YamlServiceClass) \<Rightarrow> (string, string) gomap \<Rightarrow> string \<Rightarrow> message + (ServiceClassEntry \<times> string)" where
  "FindModelSLO unmarshal [] targetModel = Inl (sprintf ''model %q not found in any service class'' [FStr targetModel])"
| "FindModelSLO unmarshal ((key, val) # rest) targetModel =
     (case unmarshal val of
        Inl err \<Rightarrow> Inl (sprintf ''failed to parse %s: %w'' [FStr key, FMsg err])
      | Inr sc \<Rightarrow>
          (case find (\<lambda>entry. sce_Model entry = targetModel) (ysc_Data sc) of
             Some entry \<Rightarrow> Inr (entry, ysc_Name sc)
           | None \<Rightarrow> FindModelSLO unmarshal rest targetModel))"

section \<open>Model analyzer\<close>

record ModelAcceleratorAllocation =
  maa_Allocation :: "Allocation option"
  maa_RequiredPrefillQPS :: gofloat
  maa_RequiredDecodeQPS :: gofloat
  maa_Reason :: string

text \<open>The response wraps the map.\<close>

type_synonym ModelAnalyzeResponse = "(string, ModelAcceleratorAllocation) gomap"

definition CreateModelAnalyzeResponseFromAllocations :: "(string, Allocation) gomap \<Rightarrow> ModelAnalyzeResponse" where
  "CreateModelAnalyzeResponseFromAllocations allocations =
     map (\<lambda>(key, alloc). (key, \<lparr>maa_Allocation = Some alloc,
       maa_RequiredPrefillQPS = al_maxArrvRatePerReplica alloc * Fin 1000,
       maa_RequiredDecodeQPS = al_maxArrvRatePerReplica alloc * Fin 1000, maa_Reason = ''markovian analysis''\<rparr>)) allocations"

definition CreateAllocationsFromModelAnalyzeResponse :: "ModelAnalyzeResponse \<Rightarrow> (string, Allocation) gomap" where
  "CreateAllocationsFromModelAnalyzeResponse response =
     List.map_filter (\<lambda>(key, a). map_option (Pair key) (maa_Allocation a)) response"

definition AnalyzeModel :: "System \<Rightarrow> VariantAutoscaling \<Rightarrow> (ModelAnalyzeResponse \<times> System) option" where
  "AnalyzeModel sys va =
     (let serverName = FullName (wa_Name va) (wa_Namespace va)
      in case mget (servers sys) serverName of
           None \<Rightarrow> Some ([], sys)
         | Some server \<Rightarrow>
             map_option (\<lambda>server. (CreateModelAnalyzeResponseFromAllocations (sr_allAllocations server),
                 sys\<lparr>servers := mput serverName server (servers sys)\<rparr>))
               (Server_Calculate sys server (accelerators sys)))"

section \<open>Optimization engine\<close>

definition optimized_allocs ::
  "Time \<Rightarrow> VariantAutoscaling list \<Rightarrow> AllocationSolution \<Rightarrow> (string, OptimizedAlloc) gomap" where
  "optimized_allocs now vas solution =
     foldl (\<lambda>m va. case CreateOptimizedAlloc now (wa_Name va) (wa_Namespace va) solution of
         Inl _ \<Rightarrow> m | Inr a \<Rightarrow> mput (wa_Name va) a m) [] vas"

definition Engine_Optimize ::
  "Time \<Rightarrow> OptimizerSpec option \<Rightarrow> System \<Rightarrow> VariantAutoscaling list \<Rightarrow> (string, ModelAnalyzeResponse) gomap \<Rightarrow>
   ((string, OptimizedAlloc) gomap fallible \<times> System) option" where
  "Engine_Optimize now spec sys vaList analysis =
     (case Manager_Optimize spec sys of
        None \<Rightarrow> None
      | Some (Inl err) \<Rightarrow> Some (Inl err, sys)
      | Some (Inr (sl, sys)) \<Rightarrow>
          let (sys, solution) = GenerateSolution sys
          in if solution = [] then Some (Inl (sprintf ''no feasible allocations found for all variants: '' []), sys)
             else Some (Inr (optimized_allocs now vaList solution), sys))"

section \<open>From the status to the optimizer\<close>

text \<open>Numbers travel from the collector to the optimizer as texts of the status.\<close>

lemma MaxFloat32_ge: "10 ^ 16 \<le> MaxFloat32"
  by (simp add: MaxFloat32_def)

lemma parse_or_zero_FormatFloat2:
  assumes "\<bar>x\<bar> \<le> 10 ^ 15"
  shows "parse_or_zero (FormatFloat2 (Fin x)) = Fin (round2 x)"
proof -
  have "(10 :: real) ^ 15 + 1 \<le> 10 ^ 16" by simp
  then have "\<bar>round2 x\<bar> \<le> MaxFloat32" using round2_close [of x] assms MaxFloat32_ge by linarith
  then show ?thesis by (simp add: parse_or_zero_def ParseFloat_FormatFloat2 CheckValue_def)
qed

lemma truncated_close:
  assumes "0 \<le> x" and "x \<le> 10 ^ 15"
  shows "real_of_int (int_of_float (Fin (round2 x))) \<le> x + 1 / 200 \<and>
    x - 201 / 200 < real_of_int (int_of_float (Fin (round2 x)))"
proof -
  have r: "0 \<le> round2 x" using assms(1) round_half_even_nonneg [of "100 * x"] by (simp add: round2_def sgn_if)
  have f: "real_of_int \<lfloor>round2 x\<rfloor> \<le> round2 x" "round2 x < real_of_int \<lfloor>round2 x\<rfloor> + 1" by linarith+
  have "(10 :: real) ^ 15 + 1 \<le> 10 ^ 16" by simp
  then have "round2 x < 10 ^ 16" using round2_close [of x] assms(2) by linarith
  then have "real_of_int \<lfloor>round2 x\<rfloor> < real_of_int (2 ^ 63)" using f(1) by (simp del: of_int_less_iff)
  then have "\<lfloor>round2 x\<rfloor> < 2 ^ 63" by linarith
  moreover have "- (2 ^ 63) \<le> \<lfloor>round2 x\<rfloor>" using r by (simp add: le_floor_iff)
  ultimately have "int_of_float (Fin (round2 x)) = \<lfloor>round2 x\<rfloor>" using r by (simp add: int_of_float_def Let_def)
  then show ?thesis using f round2_close [of x] by linarith
qed



end
