(* ===== verification/Go_Encoding.thy ===== *)
theory Go_Encoding
  imports Go_Strconv
begin

text \<open>
  Two decoders of the Go library that the controller uses on the texts of config maps:
  \<^item> \<open>ParseDuration\<close> is \<^verbatim>\<open>time.ParseDuration\<close>: numbers with units, in nanoseconds, with the checks
    against overflow of 64 bits;
  \<^item> \<open>json_string_map\<close> is \<^verbatim>\<open>json.Unmarshal\<close> into a \<^verbatim>\<open>map[string]string\<close>: an object whose values are
    strings or null, or null itself; every other text is an error. Texts are valid UTF-8, as
    those of a config map are.
\<close>

section \<open>Durations\<close>

definition duration_unit :: "string \<Rightarrow> int option" where
  "duration_unit u =
     (if u = ''ns'' then Some 1
      else if u = ''us'' \<or> u = [CHR 0xC2, CHR 0xB5, CHR ''s''] \<or> u = [CHR 0xCE, CHR 0xBC, CHR ''s''] then Some 1000
      else if u = ''ms'' then Some 1000000
      else if u = ''s'' then Some 1000000000
      else if u = ''m'' then Some (60 * 1000000000)
      else if u = ''h'' then Some (3600 * 1000000000)
      else None)"

text \<open>The digits after the point, up to where they would overflow: their value and the scale.\<close>

definition leadingFraction :: "string \<Rightarrow> int \<times> int" where
  "leadingFraction ds =
     (let (x, scale, _) = foldl (\<lambda>(x, scale, overflow) c.
          let y = 10 * x + int (digit_val c)
          in if overflow \<or> x > (2 ^ 63 - 1) div 10 \<or> y > 2 ^ 63 then (x, scale, True) else (y, 10 * scale, False))
        (0, 1, False) ds
      in (x, scale))"

definition duration_term :: "string \<Rightarrow> string \<Rightarrow> int \<Rightarrow> int option" where
  "duration_term ds fs unit =
     (let v = int (digits_val ds); (f, scale) = leadingFraction fs
      in if v > 2 ^ 63 div unit then None
         else let v = v * unit + (f * unit) div scale in if v > 2 ^ 63 then None else Some v)"

definition is_unit_char :: "char \<Rightarrow> bool" where
  "is_unit_char c \<longleftrightarrow> c \<noteq> CHR ''.'' \<and> \<not> is_digit c"

definition after_point :: "string \<Rightarrow> string \<times> string" where
  "after_point s = (case s of [] \<Rightarrow> ([], [])
     | c # r \<Rightarrow> if c = CHR ''.'' then (takeWhile is_digit r, dropWhile is_digit r) else ([], s))"

lemma length_after_point: "length (snd (after_point s)) \<le> length s"
  by (cases s) (auto simp: after_point_def intro: le_SucI length_dropWhile_le)

function duration_loop :: "string \<Rightarrow> int \<Rightarrow> string \<Rightarrow> message + int" where
  "duration_loop orig d s =
     (if s = [] then Inr d
      else
        let ds = takeWhile is_digit s; (fs, s2) = after_point (dropWhile is_digit s);
            u = takeWhile is_unit_char s2; s3 = dropWhile is_unit_char s2
        in if (ds = [] \<and> fs = []) \<or> int (digits_val ds) > 2 ^ 63 then Inl (sprintf ''time: invalid duration %q'' [FStr orig])
           else if u = [] then Inl (sprintf ''time: missing unit in duration %q'' [FStr orig])
           else case duration_unit u of
             None \<Rightarrow> Inl (sprintf ''time: unknown unit %q in duration %q'' [FStr u, FStr orig])
           | Some unit \<Rightarrow>
               (case duration_term ds fs unit of
                  None \<Rightarrow> Inl (sprintf ''time: invalid duration %q'' [FStr orig])
                | Some v \<Rightarrow> if d + v > 2 ^ 63 then Inl (sprintf ''time: invalid duration %q'' [FStr orig])
                            else duration_loop orig (d + v) s3))"
  by pat_completeness auto

text \<open>Every round consumes at least a unit.\<close>

lemma duration_rest_shorter:
  assumes "after_point (dropWhile is_digit s) = (fs, s2)" and "takeWhile is_unit_char s2 \<noteq> []"
  shows "length (dropWhile is_unit_char s2) < length s"
proof -
  have "length (takeWhile is_unit_char s2) + length (dropWhile is_unit_char s2) = length s2"
    by (metis length_append takeWhile_dropWhile_id)
  moreover have "length s2 \<le> length s"
    using length_after_point [of "dropWhile is_digit s"] assms(1) length_dropWhile_le [of is_digit s] by simp
  ultimately show ?thesis using assms(2) by (cases "takeWhile is_unit_char s2") auto
qed

termination duration_loop
  by (relation "measure (\<lambda>(orig, d, s). length s)") (auto dest: sym intro: duration_rest_shorter)

declare duration_loop.simps [simp del]

definition ParseDuration :: "string \<Rightarrow> message + int" where
  "ParseDuration orig =
     (let (neg, s) = parse_sign orig
      in if s = ''0'' then Inr 0
         else if s = '''' then Inl (sprintf ''time: invalid duration %q'' [FStr orig])
         else case duration_loop orig 0 s of
           Inl e \<Rightarrow> Inl e
         | Inr d \<Rightarrow> if neg then Inr (- d)
                    else if d > 2 ^ 63 - 1 then Inl (sprintf ''time: invalid duration %q'' [FStr orig])
                    else Inr d)"

text \<open>A parsed duration fits a 64-bit integer.\<close>

lemma leadingFraction_nonneg: "0 \<le> fst (leadingFraction ds) \<and> 0 < snd (leadingFraction ds)"
proof -
  let ?f = "\<lambda>(x, scale, overflow) c. let y = 10 * x + int (digit_val c)
      in if overflow \<or> x > (2 ^ 63 - 1) div 10 \<or> y > 2 ^ 63 then (x, scale, True) else (y, 10 * scale, False)"
  have "0 \<le> x \<Longrightarrow> 0 < sc \<Longrightarrow> 0 \<le> fst (foldl ?f (x, sc, b) ds) \<and> 0 < fst (snd (foldl ?f (x, sc, b) ds))" for x sc :: int and b
    by (induction ds arbitrary: x sc b) (simp_all add: Let_def)
  from this [of 0 1 False] show ?thesis by (simp add: leadingFraction_def case_prod_beta)
qed

lemma duration_term_nonneg: "duration_term ds fs unit = Some v \<Longrightarrow> 0 < unit \<Longrightarrow> 0 \<le> v"
  using leadingFraction_nonneg [of fs]
  by (auto simp: duration_term_def Let_def pos_imp_zdiv_nonneg_iff split: prod.splits if_splits)

lemma duration_unit_pos: "duration_unit u = Some n \<Longrightarrow> 0 < n"
  by (auto simp: duration_unit_def split: if_splits)

lemma duration_loop_bound: "duration_loop orig d s = Inr n \<Longrightarrow> 0 \<le> d \<Longrightarrow> d \<le> 2 ^ 63 \<Longrightarrow> 0 \<le> n \<and> n \<le> 2 ^ 63"
proof (induction "length s" arbitrary: d s rule: less_induct)
  case less
  show ?case
  proof (cases "s = []")
    case True
    then show ?thesis using less.prems by (simp add: duration_loop.simps)
  next
    case False
    obtain fs s2 where a: "after_point (dropWhile is_digit s) = (fs, s2)" by fastforce
    obtain u v where u: "takeWhile is_unit_char s2 \<noteq> []" "duration_unit (takeWhile is_unit_char s2) = Some u"
        "duration_term (takeWhile is_digit s) fs u = Some v" "d + v \<le> 2 ^ 63"
        "duration_loop orig (d + v) (dropWhile is_unit_char s2) = Inr n"
      using less.prems(1) False a unfolding duration_loop.simps [of orig d s]
      by (auto simp: Let_def not_less split: if_splits option.splits)
    have "0 \<le> d + v" using duration_term_nonneg [OF u(3) duration_unit_pos [OF u(2)]] less.prems(2) by simp
    from less.hyps [OF duration_rest_shorter [OF a u(1)] u(5) this u(4)] show ?thesis .
  qed
qed

lemma ParseDuration_range: "ParseDuration s = Inr n \<Longrightarrow> - (2 ^ 63) \<le> n \<and> n < 2 ^ 63"
  by (auto simp: ParseDuration_def split: prod.splits if_splits sum.splits dest!: duration_loop_bound)

section \<open>JSON objects of strings\<close>

definition json_space :: "char \<Rightarrow> bool" where
  "json_space c \<longleftrightarrow> c = CHR 0x20 \<or> c = CHR 0x09 \<or> c = CHR 0x0A \<or> c = CHR 0x0D"

definition skip_space :: "string \<Rightarrow> string" where
  "skip_space s = dropWhile json_space s"

definition hex_val :: "char \<Rightarrow> int option" where
  "hex_val c =
     (let n = of_char c
      in if 48 \<le> n \<and> n \<le> 57 then Some (n - 48)
         else if 97 \<le> n \<and> n \<le> 102 then Some (n - 87)
         else if 65 \<le> n \<and> n \<le> 70 then Some (n - 55) else None)"

definition hex4 :: "string \<Rightarrow> int option" where
  "hex4 s = (if length s < 4 then None
     else foldl (\<lambda>a c. case (a, hex_val c) of (Some x, Some d) \<Rightarrow> Some (16 * x + d) | _ \<Rightarrow> None) (Some 0) (take 4 s))"

definition utf8 :: "int \<Rightarrow> string" where
  "utf8 n = map char_of
     (if n < 0x80 then [n]
      else if n < 0x800 then [0xC0 + n div 64, 0x80 + n mod 64]
      else if n < 0x10000 then [0xE0 + n div 4096, 0x80 + n div 64 mod 64, 0x80 + n mod 64]
      else [0xF0 + n div 262144, 0x80 + n div 4096 mod 64, 0x80 + n div 64 mod 64, 0x80 + n mod 64])"

text \<open>A \<^verbatim>\<open>\u\<close> escape after these two characters; a surrogate without its partner is replaced by U+FFFD.\<close>

definition unicode_escape :: "string \<Rightarrow> (string \<times> string) option" where
  "unicode_escape s =
     (case hex4 s of
        None \<Rightarrow> None
      | Some u \<Rightarrow>
          let r = drop 4 s
          in if u < 0xD800 \<or> 0xE000 \<le> u then Some (utf8 u, r)
             else (case (if u < 0xDC00 \<and> take 2 r = [CHR 0x5C, CHR ''u''] then hex4 (drop 2 r) else None) of
               Some l \<Rightarrow> if 0xDC00 \<le> l \<and> l < 0xE000
                         then Some (utf8 (0x10000 + (u - 0xD800) * 0x400 + (l - 0xDC00)), drop 6 r)
                         else Some (utf8 0xFFFD, r)
             | None \<Rightarrow> Some (utf8 0xFFFD, r)))"

text \<open>An escape after the backslash.\<close>

definition json_escape :: "string \<Rightarrow> (string \<times> string) option" where
  "json_escape s =
     (case s of [] \<Rightarrow> None
      | c # r \<Rightarrow>
          if c = CHR 0x22 \<or> c = CHR 0x5C \<or> c = CHR ''/'' then Some ([c], r)
          else if c = CHR ''b'' then Some ([CHR 0x08], r)
          else if c = CHR ''f'' then Some ([CHR 0x0C], r)
          else if c = CHR ''n'' then Some ([CHR 0x0A], r)
          else if c = CHR ''r'' then Some ([CHR 0x0D], r)
          else if c = CHR ''t'' then Some ([CHR 0x09], r)
          else if c = CHR ''u'' then unicode_escape r
          else None)"

lemma json_escape_shorter: "json_escape s = Some (t, r) \<Longrightarrow> length r < length s"
  by (cases s) (auto simp: json_escape_def unicode_escape_def Let_def split: if_splits option.splits)

text \<open>The characters of a string after the opening quote: the text and what follows the closing quote.\<close>

function json_chars :: "string \<Rightarrow> (string \<times> string) option" where
  "json_chars [] = None"
| "json_chars (c # s) =
     (if c = CHR 0x22 then Some ([], s)
      else if of_char c < (0x20 :: int) then None
      else if c = CHR 0x5C
      then (case json_escape s of None \<Rightarrow> None | Some (t, r) \<Rightarrow> map_option (\<lambda>(u, r'). (t @ u, r')) (json_chars r))
      else map_option (\<lambda>(u, r'). (c # u, r')) (json_chars s))"
  by pat_completeness auto

termination json_chars
  by (relation "measure length") (auto dest: json_escape_shorter)

lemma json_chars_shorter: "json_chars s = Some (t, r) \<Longrightarrow> length r < length s"
proof (induction "length s" arbitrary: s t rule: less_induct)
  case less
  show ?case
  proof (cases s)
    case Nil
    then show ?thesis using less.prems by simp
  next
    case (Cons c s')
    have sub: "length r < length s" if "length r' < length s" "json_chars r' = Some (u, r)" for r' u
      using less.hyps [OF that] that(1) by simp
    show ?thesis
      using less.prems sub json_escape_shorter [of s'] unfolding Cons
      by (auto split: if_splits option.splits) (metis less_SucI)+
  qed
qed

definition json_string :: "string \<Rightarrow> (string \<times> string) option" where
  "json_string s = (case s of [] \<Rightarrow> None | c # r \<Rightarrow> if c = CHR 0x22 then json_chars r else None)"

text \<open>A value: a string, or null for the empty string.\<close>

definition json_value :: "string \<Rightarrow> (string \<times> string) option" where
  "json_value s = (if take 4 s = ''null'' then Some ([], drop 4 s) else json_string s)"

text \<open>One member of an object, from the key to the character after the value.\<close>

definition json_member :: "string \<Rightarrow> (string \<times> string \<times> string) option" where
  "json_member s =
     (case json_string (skip_space s) of None \<Rightarrow> None | Some (k, r) \<Rightarrow>
      case skip_space r of [] \<Rightarrow> None | c # r \<Rightarrow>
      if c \<noteq> CHR '':'' then None else
      case json_value (skip_space r) of None \<Rightarrow> None | Some (v, r) \<Rightarrow> Some (k, v, skip_space r))"

lemma length_skip_space: "length (skip_space s) \<le> length s"
  by (simp add: skip_space_def length_dropWhile_le)

lemma json_string_shorter: "json_string s = Some (t, r) \<Longrightarrow> length r < length s"
  by (cases s) (auto simp: json_string_def split: if_splits dest: json_chars_shorter)

lemma json_value_shorter: "json_value s = Some (t, r) \<Longrightarrow> length r \<le> length s"
  by (auto simp: json_value_def split: if_splits dest: json_string_shorter)

lemma json_member_shorter:
  assumes "json_member s = Some (k, v, r)"
  shows "length r < length s"
proof -
  obtain r1 r2 r3 where r: "json_string (skip_space s) = Some (k, r1)" "skip_space r1 = CHR '':'' # r2"
      "json_value (skip_space r2) = Some (v, r3)" "r = skip_space r3"
    using assms by (auto simp: json_member_def split: option.splits list.splits if_splits)
  show ?thesis
    using json_string_shorter [OF r(1)] json_value_shorter [OF r(3)] r(2,4) length_skip_space [of s]
      length_skip_space [of r1] length_skip_space [of r2] length_skip_space [of r3] by simp
qed

function json_members :: "(string, string) gomap \<Rightarrow> string \<Rightarrow> ((string, string) gomap \<times> string) option" where
  "json_members m s =
     (case json_member s of None \<Rightarrow> None | Some (k, v, r) \<Rightarrow>
      case r of [] \<Rightarrow> None | c # r' \<Rightarrow>
        if c = CHR ''}'' then Some (mput k v m, r')
        else if c = CHR '','' then json_members (mput k v m) r' else None)"
  by pat_completeness auto

termination json_members
  by (relation "measure (\<lambda>(m, s). length s)") (auto dest: json_member_shorter)

declare json_members.simps [simp del]

definition json_string_map :: "string \<Rightarrow> (string, string) gomap option" where
  "json_string_map text =
     (let s = skip_space text;
          res = (if take 4 s = ''null'' then Some ([], drop 4 s)
                 else case s of [] \<Rightarrow> None
                   | c # r \<Rightarrow> if c \<noteq> CHR ''{'' then None
                              else case skip_space r of [] \<Rightarrow> None
                                | d # r' \<Rightarrow> if d = CHR ''}'' then Some ([], r') else json_members [] r)
      in case res of Some (m, r) \<Rightarrow> if skip_space r = [] then Some m else None | None \<Rightarrow> None)"

end
