(* ===== verification/Wva_Reconcile.thy ===== *)
theory Wva_Reconcile
  imports Wva_Cache Wva_Engine Go_Encoding
begin

text \<open>
  One reconciliation (\<^verbatim>\<open>Reconcile\<close> and \<^verbatim>\<open>prepareVariantAutoscalings\<close> of
  \<^verbatim>\<open>internal/controller/variantautoscaling_controller.go\<close>): the choice of the mode, the capacity analysis and
  the model-based optimization of every model with their fallbacks, and the application of the
  decisions. Owner references, the merge patch and the YAML parser are arguments. \<open>None\<close> is a panic or
  an optimization that does not return.
\<close>

section \<open>Configuration\<close>

definition configMapName :: string where
  "configMapName = ''workload-variant-autoscaler-variantautoscaling-config''"

definition EnvExperimentalHybridOptimization :: string where
  "EnvExperimentalHybridOptimization = ''EXPERIMENTAL_HYBRID_OPTIMIZATION''"

record 'w ReconcileEnv =
  re_Env :: "'w Env"
  re_Getenv :: "string \<Rightarrow> string"
  re_UnmarshalServiceClass :: "string \<Rightarrow> message + YamlServiceClass"
  re_IsControlledBy :: "VariantAutoscaling \<Rightarrow> Deployment \<Rightarrow> bool"
  re_SetControllerReference :: "Deployment \<Rightarrow> VariantAutoscaling \<Rightarrow> message + VariantAutoscaling"
  re_Patch :: "VariantAutoscaling \<Rightarrow> ('w, VariantAutoscaling) call"

definition readServiceClassConfig ::
  "'w Env \<Rightarrow> string \<Rightarrow> string \<Rightarrow> 'w \<Rightarrow> (message + ConfigMap) \<times> 'w" where
  "readServiceClassConfig env cmName cmNamespace w =
     (let (err, cm, w) = GetConfigMapWithBackoff (ev_Client env) cmName cmNamespace w
      in case err of Some e \<Rightarrow> (Inl (kmessage e), w) | None \<Rightarrow> (Inr cm, w))"

text \<open>The decoder's own message is not reproduced.\<close>

definition readAcceleratorConfig ::
  "'w Env \<Rightarrow> string \<Rightarrow> string \<Rightarrow> 'w \<Rightarrow> (message + (string, (string, string) gomap) gomap) \<times> 'w" where
  "readAcceleratorConfig env cmName cmNamespace w =
     (let (err, cm, w) = GetConfigMapWithBackoff (ev_Client env) cmName cmNamespace w
      in case err of
           Some e \<Rightarrow> (Inl (sprintf ''failed to read ConfigMap %s/%s: %w'' [FStr cmNamespace, FStr cmName, FMsg (kmessage e)]), w)
         | None \<Rightarrow>
             (foldl (\<lambda>out (acc, accInfoStr). case out of Inl e \<Rightarrow> Inl e | Inr m \<Rightarrow>
                  (case json_string_map accInfoStr of
                     None \<Rightarrow> Inl (sprintf ''failed to read entry %s in ConfigMap %s/%s'' [FStr acc, FStr cmNamespace, FStr cmName])
                   | Some info \<Rightarrow> Inr (mput acc info m))) (Inr []) cm, w))"

definition readOptimizationConfig :: "'w Env \<Rightarrow> 'w \<Rightarrow> (message + string) \<times> 'w" where
  "readOptimizationConfig env w =
     (let (err, cm, w) = GetConfigMapWithBackoff (ev_Client env) configMapName (ev_Namespace env) w
      in case err of
           Some e \<Rightarrow> (Inl (sprintf ''failed to get optimization configmap after retries: %w'' [FMsg (kmessage e)]), w)
         | None \<Rightarrow> (Inr (mget0 '''' cm ''GLOBAL_OPT_INTERVAL''), w))"

text \<open>The mode: whether the model-based optimizer and the capacity analyzer run.\<close>

definition optimization_mode :: "string \<Rightarrow> bool \<times> bool" where
  "optimization_mode mode =
     (let enableModelOptimizer = (mode = ''on'' \<or> mode = ''model-only'');
          enableCapacityAnalyzer = (mode = '''' \<or> mode = ''off'')
      in (enableModelOptimizer, if \<not> enableModelOptimizer \<and> \<not> enableCapacityAnalyzer then True else enableCapacityAnalyzer))"

section \<open>Preparation of the model-based optimization\<close>

text \<open>The state of the loop: the specification, the update list, the map by full name, and the outside
  world.\<close>

type_synonym 'w prep = "SystemSpec \<times> VariantAutoscaling list \<times> va_map \<times> 'w"

definition add_profiles :: "SystemSpec \<Rightarrow> string \<Rightarrow> AcceleratorProfile list \<Rightarrow> SystemSpec" where
  "add_profiles sd modelName profiles =
     foldl (\<lambda>sd p. case AddModelAcceleratorProfileToSystemData sd modelName p of Inl _ \<Rightarrow> sd | Inr sd \<Rightarrow> sd) sd profiles"

text \<open>Setting the owner reference where it is missing; no result when the object is skipped.\<close>

definition own_va ::
  "'w ReconcileEnv \<Rightarrow> Deployment \<Rightarrow> VariantAutoscaling \<Rightarrow> 'w \<Rightarrow> VariantAutoscaling option \<times> 'w" where
  "own_va re deploy updateVA w =
     (if re_IsControlledBy re updateVA deploy then (Some updateVA, w)
      else case re_SetControllerReference re deploy updateVA of
        Inl _ \<Rightarrow> (None, w)
      | Inr va \<Rightarrow> (let (err, va, w) = re_Patch re updateVA va w in (if err = None then Some va else None, w)))"

text \<open>The part of the loop body after the lookups of the service level and of the accelerator's cost.\<close>

definition prepare_found ::
  "'w ReconcileEnv \<Rightarrow> string \<Rightarrow> gofloat \<Rightarrow> 'w prep \<Rightarrow> VariantAutoscaling \<Rightarrow> 'w prep option" where
  "prepare_found re className cost st va =
     (let env = re_Env re; (sd, updateList, vaMap, w) = st;
          (err, deploy, w) = GetDeploymentWithBackoff (ev_Client env) (wa_Name va) (wa_Namespace va) w
      in if err \<noteq> None then Some (sd, updateList, vaMap, w)
         else let (err, updateVA, w) = GetVariantAutoscalingWithBackoff (ev_Client env) (dp_Name deploy) (dp_Namespace deploy) w
         in if err \<noteq> None then Some (sd, updateList, vaMap, w)
         else case own_va re deploy updateVA w of (None, w) \<Rightarrow> Some (sd, updateList, vaMap, w)
         | (Some updateVA, w) \<Rightarrow>
           let (v, w) = ValidateMetricsAvailability (ev_Prom env) (ev_Deadline env) (vsp_ModelID (wa_Spec va)) (dp_Namespace deploy) w
           in if \<not> mvr_Available v then Some (sd, updateList, vaMap, w)
           else let updateVA = SetCondition (ev_Conditions env) (pm_Now (ev_Prom env) w) updateVA TypeMetricsAvailable
                      ConditionTrue (mvr_Reason v) (mvr_Message v)
           in case AddMetricsToOptStatus (ev_Prom env) (ev_Deadline env) updateVA deploy cost w of
             None \<Rightarrow> None
           | Some (Inl _, w) \<Rightarrow> Some (sd, updateList, vaMap, w)
           | Some (Inr currentAllocation, w) \<Rightarrow>
               let updateVA = updateVA\<lparr>wa_Status := (wa_Status updateVA)\<lparr>st_CurrentAlloc := currentAllocation\<rparr>\<rparr>
               in Some (AddServerInfoToSystemData (re_Getenv re) sd updateVA className, updateList @ [updateVA],
                        mput (FullName (wa_Name va) (wa_Namespace va)) va vaMap, w))"

definition prepare_one ::
  "'w ReconcileEnv \<Rightarrow> (string, (string, string) gomap) gomap \<Rightarrow> ConfigMap \<Rightarrow> 'w prep \<Rightarrow> VariantAutoscaling \<Rightarrow> 'w prep option" where
  "prepare_one re acceleratorCm serviceClassCm st va =
     (let (sd, updateList, vaMap, w) = st; modelName = vsp_ModelID (wa_Spec va)
      in if modelName = '''' then Some st
         else case FindModelSLO (re_UnmarshalServiceClass re) serviceClassCm modelName of
           Inl _ \<Rightarrow> Some st
         | Inr (entry, className) \<Rightarrow>
             let sd = add_profiles sd modelName (vsp_ModelProfile (wa_Spec va));
                 accName = mget0 '''' (wa_Labels va) acceleratorLabel
             in (case mget (mget0 [] acceleratorCm accName) ''cost'' of
                   None \<Rightarrow> Some (sd, updateList, vaMap, w)
                 | Some text \<Rightarrow>
                     (case ParseFloat MaxFloat32 text of
                        None \<Rightarrow> Some (sd, updateList, vaMap, w)
                      | Some cost \<Rightarrow> prepare_found re className cost (sd, updateList, vaMap, w) va)))"

definition prepareVariantAutoscalings ::
  "'w ReconcileEnv \<Rightarrow> VariantAutoscaling list \<Rightarrow> (string, (string, string) gomap) gomap \<Rightarrow> ConfigMap \<Rightarrow> SystemSpec \<Rightarrow>
   'w \<Rightarrow> 'w prep option" where
  "prepareVariantAutoscalings re activeVAs acceleratorCm serviceClassCm systemData w =
     ofoldl (prepare_one re acceleratorCm serviceClassCm) (systemData, [], [], w) activeVAs"

section \<open>Model-based optimization of a model\<close>

text \<open>Analysis of every server; a server without an entry in the map is a nil dereference.\<close>

definition analyze_servers ::
  "va_map \<Rightarrow> System \<Rightarrow> ((string, ModelAnalyzeResponse) gomap \<times> System) option" where
  "analyze_servers prepareVaMap sys =
     ofoldl (\<lambda>(responses, sys) name. case mget prepareVaMap name of
         None \<Rightarrow> None
       | Some va \<Rightarrow> map_option (\<lambda>(response, sys). (if response = [] then responses else mput name response responses, sys))
           (AnalyzeModel sys va)) ([], sys) (map (\<lambda>(_, s). sr_name s) (servers sys))"

text \<open>The targets of the optimization, or an error.\<close>

definition optimize_model ::
  "Time \<Rightarrow> SystemSpec \<Rightarrow> VariantAutoscaling list \<Rightarrow> va_map \<Rightarrow> VariantAutoscaling list \<Rightarrow> (string, int) gomap fallible option" where
  "optimize_model now systemData updateList prepareVaMap modelVAs =
     (let (sys, optimizerSpec) = SetFromSpec NewSystem systemData
      in case analyze_servers prepareVaMap sys of
           None \<Rightarrow> None
         | Some (responses, sys) \<Rightarrow>
             (case Engine_Optimize now (Some optimizerSpec) sys updateList responses of
                None \<Rightarrow> None
              | Some (Inl err, _) \<Rightarrow> Some (Inl err)
              | Some (Inr optimizedAllocation, _) \<Rightarrow>
                  Some (Inr (foldl (\<lambda>m va. case mget optimizedAllocation (wa_Name va) of
                      None \<Rightarrow> m | Some alloc \<Rightarrow> mput (wa_Name va) (oa_NumReplicas alloc) m) [] modelVAs))))"

definition model_only_decision :: "string \<Rightarrow> VariantAutoscaling \<Rightarrow> int \<Rightarrow> VariantDecision" where
  "model_only_decision modelID va targetReplicas =
     (let cur = st_CurrentAlloc (wa_Status va);
          acceleratorName = (if cr_Accelerator cur = '''' then mget0 '''' (wa_Labels va) acceleratorLabel else cr_Accelerator cur)
      in \<lparr>vd_VariantName = wa_Name va, vd_Namespace = wa_Namespace va, vd_ModelID = modelID,
          vd_AcceleratorName = acceleratorName, vd_Cost = Fin 0, vd_Action = action_for targetReplicas (cr_NumReplicas cur),
          vd_CurrentReplicas = cr_NumReplicas cur, vd_TargetReplicas = targetReplicas, vd_DesiredReplicas = 0,
          vd_Reason = sprintf ''model-based only (capacity unavailable)'' [], vd_CapacityBased = False,
          vd_ModelBasedDecision = True, vd_SafetyOverride = False, vd_CapacityOnly = False\<rparr>)"

definition model_only_decisions ::
  "string \<Rightarrow> VariantAutoscaling list \<Rightarrow> (string, int) gomap \<Rightarrow> va_map \<Rightarrow> VariantDecision list \<times> va_map" where
  "model_only_decisions modelID updateList modelBasedTargets vaMap =
     foldl (\<lambda>(ds, vaMap) va. case mget modelBasedTargets (wa_Name va) of
         None \<Rightarrow> (ds, vaMap)
       | Some t \<Rightarrow> (ds @ [model_only_decision modelID va t], mput (wa_Name va) va vaMap)) ([], vaMap) updateList"

section \<open>One model\<close>

text \<open>The state of the loop over the models: decisions, the map by name, the number of errors, the gauge
  calls and the outside world.\<close>

record 'w loop_state =
  lo_allDecisions :: "VariantDecision list"
  lo_vaMap :: va_map
  lo_errorCount :: nat
  lo_emissions :: "emission list"
  lo_world :: 'w

definition count_error :: "'w loop_state \<Rightarrow> 'w loop_state" where
  "count_error st = st\<lparr>lo_errorCount := lo_errorCount st + 1\<rparr>"

definition decide :: "'w loop_state \<Rightarrow> VariantDecision list \<Rightarrow> 'w loop_state" where
  "decide st finalDecisions = st\<lparr>lo_allDecisions := lo_allDecisions st @ finalDecisions\<rparr>"

definition safety_net :: "'w Env \<Rightarrow> VariantAutoscaling list \<Rightarrow> 'w loop_state \<Rightarrow> 'w loop_state" where
  "safety_net env modelVAs st =
     (let (es, w) = emitSafetyNetMetrics env modelVAs (lo_world st)
      in st\<lparr>lo_emissions := lo_emissions st @ es, lo_world := w\<rparr>)"

text \<open>When the model-based optimization cannot run or fails: the capacity targets if there are any, else the
  safety net.\<close>

definition fall_back ::
  "'w Env \<Rightarrow> VariantAutoscaling list \<Rightarrow> capacity_result \<Rightarrow> 'w loop_state \<Rightarrow> 'w loop_state" where
  "fall_back env modelVAs capRes st =
     (case capRes of
        Some (capacityTargets, capacityAnalysis, variantStates) \<Rightarrow>
          decide (count_error st) (convertCapacityTargetsToDecisions capacityTargets capacityAnalysis variantStates)
      | None \<Rightarrow> safety_net env modelVAs (count_error st))"

text \<open>The capacity analysis: no result when the model is skipped.\<close>

definition capacity_phase ::
  "'w Env \<Rightarrow> (string, CapacityScalingConfig) gomap \<Rightarrow> bool \<Rightarrow> string \<Rightarrow> VariantAutoscaling list \<Rightarrow> 'w loop_state \<Rightarrow>
   (capacity_result option \<times> 'w loop_state) option" where
  "capacity_phase env configs enableModelOptimizer modelID modelVAs st =
     (case collectMetricsForCapacityMode env modelVAs (lo_vaMap st) (lo_world st) of
        None \<Rightarrow> None
      | Some (vaMap, w) \<Rightarrow>
          let capacityConfig = (case modelVAs of [] \<Rightarrow> DefaultCapacityScalingConfig
                | va # _ \<Rightarrow> Merge DefaultCapacityScalingConfig (getCapacityScalingConfigForVariant configs modelID (wa_Namespace va)));
              (res, w) = runCapacityAnalysis env modelID modelVAs capacityConfig w;
              st = st\<lparr>lo_vaMap := vaMap, lo_world := w\<rparr>
          in Some (case res of
               Inl err \<Rightarrow> (if enableModelOptimizer then Some None else None, count_error st)
             | Inr capRes \<Rightarrow> (Some capRes, st)))"

text \<open>The model-based phase: the targets and the prepared objects, or nothing after a fallback.\<close>

definition model_phase ::
  "'w ReconcileEnv \<Rightarrow> VariantAutoscaling list \<Rightarrow> capacity_result \<Rightarrow> 'w loop_state \<Rightarrow>
   (((string, int) gomap \<times> VariantAutoscaling list) option \<times> 'w loop_state) option" where
  "model_phase re modelVAs capRes st =
     (let env = re_Env re; ns = ev_Namespace env;
          (acc, w) = readAcceleratorConfig env ''accelerator-unit-costs'' ns (lo_world st)
      in case acc of Inl _ \<Rightarrow> Some (None, fall_back env modelVAs capRes (st\<lparr>lo_world := w\<rparr>))
       | Inr acceleratorCm \<Rightarrow>
         (let (svc, w) = readServiceClassConfig env ''service-classes-config'' ns w
          in case svc of Inl _ \<Rightarrow> Some (None, fall_back env modelVAs capRes (st\<lparr>lo_world := w\<rparr>))
           | Inr serviceClassCm \<Rightarrow>
             (case prepareVariantAutoscalings re modelVAs acceleratorCm serviceClassCm
                     (CreateSystemData (re_UnmarshalServiceClass re) acceleratorCm serviceClassCm) w of
                None \<Rightarrow> None
              | Some (systemData, updateList, prepareVaMap, w) \<Rightarrow>
                  let st = st\<lparr>lo_world := w\<rparr>
                  in (case optimize_model (pm_Now (ev_Prom env) w) systemData updateList prepareVaMap modelVAs of
                        None \<Rightarrow> None
                      | Some (Inl err) \<Rightarrow> Some (None, fall_back env modelVAs capRes st)
                      | Some (Inr modelBasedTargets) \<Rightarrow> Some (Some (modelBasedTargets, updateList), st)))))"

text \<open>The decisions, given the results of the two phases; \<open>model\<close> is absent when the optimizer is disabled.\<close>

definition final_phase ::
  "'w Env \<Rightarrow> bool \<Rightarrow> bool \<Rightarrow> string \<Rightarrow> VariantAutoscaling list \<Rightarrow> capacity_result \<Rightarrow>
   ((string, int) gomap \<times> VariantAutoscaling list) option \<Rightarrow> 'w loop_state \<Rightarrow> 'w loop_state" where
  "final_phase env enableModelOptimizer enableCapacityAnalyzer modelID modelVAs capRes model st =
     (let (modelBasedTargets, updateList) = (case model of None \<Rightarrow> ([], []) | Some m \<Rightarrow> m)
      in if enableCapacityAnalyzer \<and> \<not> enableModelOptimizer then
           (case capRes of
              Some (capacityTargets, capacityAnalysis, variantStates) \<Rightarrow>
                decide st (convertCapacityTargetsToDecisions capacityTargets capacityAnalysis variantStates)
            | None \<Rightarrow> safety_net env modelVAs (count_error st))
         else if enableCapacityAnalyzer \<and> enableModelOptimizer then
           (case capRes of
              Some (capacityTargets, capacityAnalysis, variantStates) \<Rightarrow>
                if capacityTargets \<noteq> []
                then decide st (ArbitrateWithModelBased (Some capacityAnalysis) capacityTargets modelBasedTargets variantStates)
                else st
            | None \<Rightarrow> st)
         else if enableModelOptimizer then
           if updateList = [] then safety_net env modelVAs st
           else let (ds, vaMap) = model_only_decisions modelID updateList modelBasedTargets (lo_vaMap st)
                in decide (st\<lparr>lo_vaMap := vaMap\<rparr>) ds
         else st)"

definition process_model ::
  "'w ReconcileEnv \<Rightarrow> (string, CapacityScalingConfig) gomap \<Rightarrow> bool \<Rightarrow> bool \<Rightarrow> 'w loop_state \<Rightarrow>
   string \<times> VariantAutoscaling list \<Rightarrow> 'w loop_state option" where
  "process_model re configs enableModelOptimizer enableCapacityAnalyzer st modelGroup =
     (let env = re_Env re; (modelID, modelVAs) = modelGroup
      in case (if enableCapacityAnalyzer then capacity_phase env configs enableModelOptimizer modelID modelVAs st
               else Some (Some None, st)) of
           None \<Rightarrow> None
         | Some (None, st) \<Rightarrow> Some st
         | Some (Some capRes, st) \<Rightarrow>
             if \<not> enableModelOptimizer
             then Some (final_phase env False enableCapacityAnalyzer modelID modelVAs capRes None st)
             else (case model_phase re modelVAs capRes st of
                     None \<Rightarrow> None
                   | Some (None, st) \<Rightarrow> Some st
                   | Some (Some model, st) \<Rightarrow>
                       Some (final_phase env True enableCapacityAnalyzer modelID modelVAs capRes (Some model) st)))"

section \<open>Reconciliation\<close>

definition name_map :: "VariantAutoscaling list \<Rightarrow> va_map" where
  "name_map vas = foldl (\<lambda>m va. mput (wa_Name va) va m) [] vas"

text \<open>The result is an error or the time until the next reconciliation.\<close>

definition Reconcile ::
  "'w ReconcileEnv \<Rightarrow> Reconciler \<Rightarrow> 'w \<Rightarrow> ((message + Duration) \<times> emission list \<times> 'w) option" where
  "Reconcile re r w =
     (let env = re_Env re; (cfg, w) = readOptimizationConfig env w
      in case cfg of Inl err \<Rightarrow> Some (Inl err, [], w)
       | Inr interval \<Rightarrow>
         (case (if interval = '''' then Inr (60 * Second) else ParseDuration interval) of
            Inl err \<Rightarrow> Some (Inl err, [], w)
          | Inr requeueDuration \<Rightarrow>
              let (enableModelOptimizer, enableCapacityAnalyzer) =
                    optimization_mode (re_Getenv re EnvExperimentalHybridOptimization);
                  (vas, w) = cl_ListVariantAutoscalings (ev_Client env) w
              in (case vas of Inl err \<Rightarrow> Some (Inl (kmessage err), [], w)
                  | Inr items \<Rightarrow>
                    let activeVAs = filterActiveVariantAutoscalings items
                    in if activeVAs = [] then Some (Inr requeueDuration, [], w)
                       else
                         let configs = fst (getCapacityConfigSafe r)
                         in (case ofoldl (process_model re configs enableModelOptimizer enableCapacityAnalyzer)
                                   \<lparr>lo_allDecisions = [], lo_vaMap = name_map activeVAs, lo_errorCount = 0,
                                    lo_emissions = [], lo_world = w\<rparr> (groupVAsByModel activeVAs) of
                               None \<Rightarrow> None
                             | Some st \<Rightarrow>
                                 let (es, w) = applyCapacityDecisions env (lo_allDecisions st) (lo_vaMap st) (lo_world st)
                                 in Some (Inr requeueDuration, lo_emissions st @ es, w)))))"

end
