(* ===== verification/Wva_Ownership.thy ===== *)
theory Wva_Ownership
  imports Wva_Deepcopy Wva_Reconcile
begin

text \<open>
  The step of the reconciliation that sets the owner reference
  (\<^verbatim>\<open>internal/controller/variantautoscaling_controller.go\<close>, \<^verbatim>\<open>prepareVariantAutoscalings\<close>) over the explicit
  memory of \<open>Wva_Deepcopy\<close>. The program keeps a deep copy of the object, changes the object in place and
  sends the difference. \<open>Wva_Reconcile\<close> models this with values; the theorem is that the program with
  pointers implements it.
\<close>

section \<open>The step with values and with pointers\<close>

text \<open>The step for an arbitrary type of objects.\<close>

definition own_value ::
  "('v \<Rightarrow> bool) \<Rightarrow> ('v \<Rightarrow> message + 'v) \<Rightarrow> ('v \<Rightarrow> 'v \<Rightarrow> 'w \<Rightarrow> kerror option \<times> 'v \<times> 'w) \<Rightarrow> 'v \<Rightarrow> 'w \<Rightarrow> 'v option \<times> 'w" where
  "own_value isControlledBy setReference patch updateVA w =
     (if isControlledBy updateVA then (Some updateVA, w)
      else case setReference updateVA of
        Inl _ \<Rightarrow> (None, w)
      | Inr va \<Rightarrow> (let (err, va, w) = patch updateVA va w in (if err = None then Some va else None, w)))"

lemma own_va_value:
  "own_va re deploy =
     own_value (\<lambda>va. re_IsControlledBy re va deploy) (re_SetControllerReference re deploy) (re_Patch re)"
  by (intro ext) (simp add: own_va_def own_value_def)

text \<open>The step with pointers. \<^verbatim>\<open>SetControllerReference\<close> and \<^verbatim>\<open>Patch\<close> change the object in place. The result is
  whether the loop goes on with the object. \<^verbatim>\<open>DeepCopy\<close> of a pointer that is not nil is not nil.\<close>

definition own_va_mem ::
  "('o, 'l, 'x) MetaV1 \<Rightarrow> (addr \<Rightarrow> ('o, 'l, 'x) memory \<Rightarrow> bool) \<Rightarrow>
   (addr \<Rightarrow> ('o, 'l, 'x) memory \<Rightarrow> message option \<times> ('o, 'l, 'x) memory) \<Rightarrow>
   (addr \<Rightarrow> addr \<Rightarrow> ('o, 'l, 'x) memory \<Rightarrow> 'w \<Rightarrow> kerror option \<times> ('o, 'l, 'x) memory \<times> 'w) \<Rightarrow>
   addr \<Rightarrow> ('o, 'l, 'x) memory \<Rightarrow> 'w \<Rightarrow> (bool \<times> ('o, 'l, 'x) memory \<times> 'w) option" where
  "own_va_mem mv isControlledBy setReference patch updateVA h w =
     (if isControlledBy updateVA h then Some (True, h, w)
      else do {
        (original, h) \<leftarrow> VariantAutoscaling_DeepCopy mv (Some updateVA) h;
        original \<leftarrow> original;
        let (err, h) = setReference updateVA h;
        if err \<noteq> None then Some (False, h, w)
        else let (err, h, w) = patch original updateVA h w in Some (err = None, h, w) })"

section \<open>The step with pointers implements the step with values\<close>

text \<open>The three calls on an object in memory, by their effect on the value. \<^verbatim>\<open>SetControllerReference\<close> writes only
  to cells of the object and to new ones.\<close>

definition calls_on_values ::
  "(('o, 'l, 'x) memory \<Rightarrow> addr \<Rightarrow> 'v option) \<Rightarrow> (('o, 'l, 'x) memory \<Rightarrow> addr \<Rightarrow> addr set) \<Rightarrow>
   (addr \<Rightarrow> ('o, 'l, 'x) memory \<Rightarrow> bool) \<Rightarrow> (addr \<Rightarrow> ('o, 'l, 'x) memory \<Rightarrow> message option \<times> ('o, 'l, 'x) memory) \<Rightarrow>
   (addr \<Rightarrow> addr \<Rightarrow> ('o, 'l, 'x) memory \<Rightarrow> 'w \<Rightarrow> kerror option \<times> ('o, 'l, 'x) memory \<times> 'w) \<Rightarrow>
   ('v \<Rightarrow> bool) \<Rightarrow> ('v \<Rightarrow> message + 'v) \<Rightarrow> ('v \<Rightarrow> 'v \<Rightarrow> 'w \<Rightarrow> kerror option \<times> 'v \<times> 'w) \<Rightarrow> bool" where
  "calls_on_values view foot isC setR patch isCV setRV patchV \<longleftrightarrow>
     (\<forall>p h t. view h p = Some t \<longrightarrow> isC p h = isCV t) \<and>
     (\<forall>p h t. view h p = Some t \<longrightarrow> agree (allocated h - foot h p) h (snd (setR p h)) \<and>
        (case setRV t of Inl e \<Rightarrow> fst (setR p h) = Some e
         | Inr t' \<Rightarrow> fst (setR p h) = None \<and> view (snd (setR p h)) p = Some t')) \<and>
     (\<forall>q p h s t w. view h q = Some s \<longrightarrow> view h p = Some t \<longrightarrow>
        fst (patch q p h w) = fst (patchV s t w) \<and> snd (snd (patch q p h w)) = snd (snd (patchV s t w)) \<and>
        view (fst (snd (patch q p h w))) p = Some (fst (snd (patchV s t w))))"

text \<open>C19: The pointer program that sets the owner reference implements the step of the reconciliation on
  values: it returns, goes on with the object exactly when the step on values does, and the object in
  memory and the outside world are then as that step says. In particular the patch is computed
  against the object as it was before its metadata changed, because the copy is not affected by the
  change in place.\<close>

theorem ownership_patch_refines:
  assumes "documented_meta mv oview ofoot lview lfoot" and "heap_ok h" and "va_view oview h p = Some t"
    and "calls_on_values (va_view oview) (va_foot ofoot) isC setR patch isCV setRV patchV"
  shows "\<exists>b h' w'. own_va_mem mv isC setR patch p h w = Some (b, h', w') \<and>
    (case own_value isCV setRV patchV t w of (r, u) \<Rightarrow> w' = u \<and> b = (r \<noteq> None) \<and> (b \<longrightarrow> va_view oview h' p = r))"
proof (cases "isCV t")
  case True
  then have "isC p h" using assms(3,4) by (simp add: calls_on_values_def)
  with True assms(3) show ?thesis by (intro exI [of _ True] exI [of _ h] exI [of _ w]) (simp add: own_va_mem_def own_value_def)
next
  case False
  then have n: "\<not> isC p h" using assms(3,4) by (simp add: calls_on_values_def)
  obtain q h1 where c: "new_copy VariantAutoscalingCell as_VariantAutoscaling
        (zero_VariantAutoscalingM (mv_zeroObjectMeta mv)) (VariantAutoscaling_DeepCopyInto mv) p h = Some (q, h1)"
      "va_view oview h1 p = Some t"
      "\<And>g. agree (allocated h1 - va_foot ofoot h1 p) h1 g \<Longrightarrow> va_view oview g q = Some t"
    using deep_copier.isolated [OF va_ptr_copier [OF assms(1)] assms(2,3)] by blast
  then have d: "VariantAutoscaling_DeepCopy mv (Some p) h = Some (Some q, h1)"
    by (simp add: VariantAutoscaling_DeepCopy_def copy_opt_def)
  obtain e h2 where s: "setR p h1 = (e, h2)" by fastforce
  have a: "agree (allocated h1 - va_foot ofoot h1 p) h1 h2"
    and r: "case setRV t of Inl e' \<Rightarrow> e = Some e' | Inr t' \<Rightarrow> e = None \<and> va_view oview h2 p = Some t'"
    using assms(4) c(2) s unfolding calls_on_values_def by (metis fst_conv snd_conv)+
  show ?thesis
  proof (cases "setRV t")
    case (Inl e')
    with r False n d s show ?thesis by (auto simp: own_va_mem_def own_value_def)
  next
    case (Inr t')
    with r have e: "e = None" "va_view oview h2 p = Some t'" by simp_all
    obtain e3 h3 w3 where pt: "patch q p h2 w = (e3, h3, w3)" by (metis prod_cases3)
    obtain e4 t4 w4 where pv: "patchV t t' w = (e4, t4, w4)" by (metis prod_cases3)
    have "e3 = e4 \<and> w3 = w4 \<and> va_view oview h3 p = Some t4"
      using assms(4) c(3) [OF a] e(2) pt pv unfolding calls_on_values_def by (metis fst_conv snd_conv)
    with False n d s e Inr pt pv show ?thesis by (simp add: own_va_mem_def own_value_def)
  qed
qed

section \<open>A concrete owner reference\<close>

text \<open>The owner is a name in the metadata; setting it stores the changed struct. The server accepts a patch
  and logs the owners before and after.\<close>

definition sample_isC :: "addr \<Rightarrow> sample_memory \<Rightarrow> bool" where
  "sample_isC p h = (case load as_VariantAutoscaling p h of None \<Rightarrow> False | Some x \<Rightarrow> snd (snd (val_ObjectMeta x)) = ''dep'')"

definition sample_setR :: "addr \<Rightarrow> sample_memory \<Rightarrow> message option \<times> sample_memory" where
  "sample_setR p h = (case load as_VariantAutoscaling p h of
       None \<Rightarrow> (None, h)
     | Some x \<Rightarrow> (None, store p (VariantAutoscalingCell (x\<lparr>val_ObjectMeta :=
         (fst (val_ObjectMeta x), fst (snd (val_ObjectMeta x)), ''dep'')\<rparr>)) h))"

definition sample_patch :: "addr \<Rightarrow> addr \<Rightarrow> sample_memory \<Rightarrow> (string \<times> string) list \<Rightarrow> kerror option \<times> sample_memory \<times> (string \<times> string) list" where
  "sample_patch q p h w = (case (load as_VariantAutoscaling q h, load as_VariantAutoscaling p h) of
       (Some x, Some y) \<Rightarrow> (None, h, w @ [(snd (snd (val_ObjectMeta x)), snd (snd (val_ObjectMeta y)))])
     | _ \<Rightarrow> (None, h, w))"

type_synonym sample_value = "(string \<times> parms option \<times> string) VariantAutoscalingT"

definition sample_owner :: "sample_value \<Rightarrow> string" where
  "sample_owner t = snd (snd (val_ObjectMeta t))"

definition sample_setRV :: "sample_value \<Rightarrow> message + sample_value" where
  "sample_setRV t = Inr (t\<lparr>val_ObjectMeta := (fst (val_ObjectMeta t), fst (snd (val_ObjectMeta t)), ''dep'')\<rparr>)"

definition sample_patchV :: "sample_value \<Rightarrow> sample_value \<Rightarrow> (string \<times> string) list \<Rightarrow> kerror option \<times> sample_value \<times> (string \<times> string) list" where
  "sample_patchV s t w = (None, t, w @ [(sample_owner s, sample_owner t)])"

text \<open>The maps and arrays that an object reaches are not the struct itself.\<close>

lemma map_cell_kind:
  "view_opt (view_map as_StringMap) h x = Some t \<Longrightarrow> a \<in> foot_opt (\<lambda>h a. {a}) h x \<Longrightarrow> load as_VariantAutoscaling a h = None"
  by (auto simp: view_opt_def view_map_def foot_opt_def load_def as_cell_defs split: option.splits Option.bind_splits cell.splits)

lemma profile_kind:
  "AcceleratorProfile_view h x = Some t \<Longrightarrow> a \<in> AcceleratorProfile_foot h x \<Longrightarrow> load as_VariantAutoscaling a h = None"
  using map_cell_kind
  by (fastforce simp: AcceleratorProfile_view_def PerfParms_view_def AcceleratorProfile_foot_def PerfParms_foot_def
    split: Option.bind_splits)

lemma spec_kind:
  assumes "Spec_view h x = Some t" and "a \<in> Spec_foot h x"
  shows "load as_VariantAutoscaling a h = None"
proof (cases "mpl_Accelerators (spl_ModelProfile x)")
  case None
  with assms(2) show ?thesis by (simp add: Spec_foot_def ModelProfile_foot_def foot_opt_def)
next
  case (Some s)
  with assms(1) obtain ts where "view_slice as_ProfileArray AcceleratorProfile_view h s = Some ts"
    by (auto simp: Spec_view_def ModelProfile_view_def view_opt_def split: Option.bind_splits)
  then obtain xs where xs: "slice_elems as_ProfileArray h s = Some xs" "\<And>i. i < length xs \<Longrightarrow> AcceleratorProfile_view h (xs ! i) = Some (ts ! i)"
    by (auto simp: profile_array.view_slice_Some)
  consider "a = sl_base s" | x where "x \<in> set xs" "a \<in> AcceleratorProfile_foot h x"
    using assms(2) Some xs(1) by (auto simp: Spec_foot_def ModelProfile_foot_def foot_opt_def foot_slice_def)
  then show ?thesis
  proof cases
    case 1
    with xs(1) show ?thesis
      by (auto simp: slice_elems_def load_def as_cell_defs split: Option.bind_splits cell.splits)
  next
    case 2
    with xs(2) profile_kind show ?thesis by (metis in_set_conv_nth)
  qed
qed

lemma status_kind:
  "Status_view h x = Some t \<Longrightarrow> a \<in> Status_foot h x \<Longrightarrow> load as_VariantAutoscaling a h = None"
  by (auto simp: Status_view_def Status_foot_def view_opt_def foot_opt_def view_slice_def foot_slice_def slice_elems_def load_def
    as_cell_defs split: option.splits Option.bind_splits cell.splits)

lemma sample_va_kind:
  assumes "VariantAutoscaling_view sample_oview h x = Some t" and "load as_VariantAutoscaling p h = Some y"
  shows "p \<notin> VariantAutoscaling_foot sample_ofoot h x"
proof -
  obtain m s u where v: "sample_oview h (val_ObjectMeta x) = Some m" "Spec_view h (val_Spec x) = Some s"
      "Status_view h (val_Status x) = Some u"
    using assms(1) by (auto simp: VariantAutoscaling_view_def split: Option.bind_splits)
  obtain l where "view_opt (view_map as_StringMap) h (fst (snd (val_ObjectMeta x))) = Some l"
    using v(1) by (auto simp: sample_oview_def split: Option.bind_splits)
  from map_cell_kind [OF this, of p] spec_kind [OF v(2), of p] status_kind [OF v(3), of p] assms(2) show ?thesis
    by (auto simp: VariantAutoscaling_foot_def sample_ofoot_def)
qed

lemma sample_set_owner:
  assumes "VariantAutoscaling_view sample_oview h x = Some t"
  defines "y \<equiv> x\<lparr>val_ObjectMeta := (fst (val_ObjectMeta x), fst (snd (val_ObjectMeta x)), ''dep'')\<rparr>"
  shows "VariantAutoscaling_view sample_oview h y = Some (t\<lparr>val_ObjectMeta := (fst (val_ObjectMeta t), fst (snd (val_ObjectMeta t)), ''dep'')\<rparr>)"
    and "snd (snd (val_ObjectMeta x)) = sample_owner t"
  using assms by (auto simp: VariantAutoscaling_view_def sample_oview_def sample_owner_def split: Option.bind_splits)

lemma sample_va_view_Some:
  "va_view sample_oview h p = Some t \<longleftrightarrow>
    (\<exists>x. load as_VariantAutoscaling p h = Some x \<and> VariantAutoscaling_view sample_oview h x = Some t)"
  by (auto simp: view_ptr_def split: Option.bind_splits)

lemma sample_setR_view:
  assumes "va_view sample_oview h p = Some t"
  shows "fst (sample_setR p h) = None"
    and "va_view sample_oview (snd (sample_setR p h)) p =
      Some (t\<lparr>val_ObjectMeta := (fst (val_ObjectMeta t), fst (snd (val_ObjectMeta t)), ''dep'')\<rparr>)"
    and "agree (allocated h - va_foot sample_ofoot h p) h (snd (sample_setR p h))"
proof -
  obtain x where x: "load as_VariantAutoscaling p h = Some x" "VariantAutoscaling_view sample_oview h x = Some t"
    using assms by (auto simp: sample_va_view_Some)
  define y where "y = x\<lparr>val_ObjectMeta := (fst (val_ObjectMeta x), fst (snd (val_ObjectMeta x)), ''dep'')\<rparr>"
  have s: "sample_setR p h = (None, store p (VariantAutoscalingCell y) h)" using x(1) by (simp add: sample_setR_def y_def)
  show "fst (sample_setR p h) = None" by (simp add: s)
  note vy = sample_set_owner(1) [OF x(2), folded y_def]
  have "load as_VariantAutoscaling p (store p (VariantAutoscalingCell y) h) = Some y" by (simp add: load_def as_cell_defs)
  with deep_copier.view_store(1) [OF VariantAutoscaling_copier [OF sample_meta_documented] vy sample_va_kind [OF vy x(1)]]
  show "va_view sample_oview (snd (sample_setR p h)) p =
      Some (t\<lparr>val_ObjectMeta := (fst (val_ObjectMeta t), fst (snd (val_ObjectMeta t)), ''dep'')\<rparr>)"
    by (simp add: s view_ptr_def)
  show "agree (allocated h - va_foot sample_ofoot h p) h (snd (sample_setR p h))"
    unfolding s snd_conv by (rule agree_store) (simp add: foot_ptr_def)
qed

lemma sample_calls:
  "calls_on_values (va_view sample_oview) (va_foot sample_ofoot) sample_isC sample_setR sample_patch
     (\<lambda>t. sample_owner t = ''dep'') sample_setRV sample_patchV"
proof -
  have o: "\<exists>x. load as_VariantAutoscaling p h = Some x \<and> snd (snd (val_ObjectMeta x)) = sample_owner t"
    if "va_view sample_oview h p = Some t" for h p t
    using that sample_set_owner(2) by (auto simp: sample_va_view_Some)
  show ?thesis
    unfolding calls_on_values_def
  proof (intro conjI allI impI, goal_cases)
    case (1 p h t)
    then show ?case using o by (fastforce simp: sample_isC_def)
  next
    case (2 p h t)
    then show ?case by (rule sample_setR_view(3))
  next
    case (3 p h t)
    then show ?case by (simp add: sample_setRV_def sample_setR_view)
  next
    case (4 q p h s t w)
    then show ?case using o [OF 4(1)] o [OF 4(2)] by (auto simp: sample_patch_def sample_patchV_def)
  next
    case (5 q p h s t w)
    then show ?case using o [OF 5(1)] o [OF 5(2)] by (auto simp: sample_patch_def sample_patchV_def)
  next
    case (6 q p h s t w)
    then show ?case using o [OF 6(1)] o [OF 6(2)] by (auto simp: sample_patch_def sample_patchV_def)
  qed
qed

theorem ownership_patch_refines_witness:
  "\<exists>h'. own_va_mem sample_meta sample_isC sample_setR sample_patch 4 sample_mem [] = Some (True, h', [('''', ''dep'')]) \<and>
     va_view sample_oview h' 4 = Some (sample_va_value\<lparr>val_ObjectMeta := (''va'', Some [(''accelerator'', ''A100'')], ''dep'')\<rparr>)"
proof -
  have "hp_cells sample_mem 4 = Some (VariantAutoscalingCell sample_va)" by (simp add: sample_mem_def)
  then have "va_view sample_oview sample_mem 4 = Some sample_va_value"
    using sample_va_view by (simp add: view_ptr_def load_def as_cell_defs)
  from ownership_patch_refines [OF sample_meta_documented sample_mem_ok this sample_calls, of "[]"]
  show ?thesis by (auto simp: own_value_def sample_owner_def sample_setRV_def sample_patchV_def sample_va_value_def Let_def)
qed

end
