(* ===== verification/Wva_World.thy ===== *)
theory Wva_World
  imports Wva_Reconcile
begin

text \<open>
  What a reconciliation does to the outside world. Apart from status updates and the patch of owner
  references, every call of the controller is a read: a property of the world that reads keep is
  kept by collection, analysis, preparation and the safety net, in every mode and on every error path.
  With that, the theorem of the application of decisions extends to a whole reconciliation.
\<close>

section \<open>Reads\<close>

definition prom_keeps :: "'w Prom \<Rightarrow> ('w \<Rightarrow> bool) \<Rightarrow> bool" where
  "prom_keeps prom I \<longleftrightarrow> (\<forall>ctx q t w. I w \<longrightarrow> I (snd (pm_Query prom ctx q t w)))"

text \<open>A property of the world that reads keep, with a client that behaves as documented.\<close>

definition observed :: "'w Env \<Rightarrow> ('w \<Rightarrow> bool) \<Rightarrow> bool" where
  "observed env I \<longleftrightarrow> documented_client (ev_Client env) \<and> reads_keep (ev_Client env) I \<and> prom_keeps (ev_Prom env) I"

lemma observed_reads:
  assumes "observed env I" and "I w"
  shows "I (snd (snd (GetDeploymentWithBackoff (ev_Client env) n ns w)))"
    and "I (snd (snd (GetConfigMapWithBackoff (ev_Client env) n ns w)))"
    and "I (snd (snd (GetVariantAutoscalingWithBackoff (ev_Client env) n ns w)))"
    and "I (snd (cl_ListVariantAutoscalings (ev_Client env) w))" and "I (snd (cl_ListPods (ev_Client env) ns sel w))"
    and "I (snd (pm_Query (ev_Prom env) ctx q t w))"
  using client_reads_keep [of "ev_Client env" I w] assms by (simp_all add: observed_def prom_keeps_def)

lemma ValidateMetricsAvailability_keeps:
  assumes "observed env I" and "I w"
  shows "I (snd (ValidateMetricsAvailability (ev_Prom env) ctx modelID ns w))"
proof -
  note q = observed_reads(6) [OF assms(1)]
  show ?thesis
    using q [OF assms(2)] q [OF q [OF assms(2)]]
    by (auto simp: ValidateMetricsAvailability_def Let_def case_prod_beta split: sum.splits PromValue.splits list.splits)
qed

lemma query_all_keeps:
  assumes "observed env I"
  shows "I w \<Longrightarrow> I (snd (query_all (ev_Prom env) ctx qs w))"
proof (induction qs arbitrary: w)
  case (Cons qm qs)
  obtain q m where qm: "qm = (q, m)" by fastforce
  obtain r w1 where e: "queryAndExtractMetric (ev_Prom env) ctx q m w = (r, w1)" by fastforce
  have "I w1" using observed_reads(6) [OF assms Cons.prems] e
    by (auto simp: queryAndExtractMetric_def Let_def split: prod.splits sum.splits PromValue.splits list.splits)
      (metis snd_conv)+
  with Cons.IH [of w1] show ?case
    by (auto simp: qm e split: sum.splits prod.splits)
qed simp

lemma AddMetricsToOptStatus_keeps:
  assumes "observed env I" and "I w" and "AddMetricsToOptStatus (ev_Prom env) ctx va d cost w = Some (r, w')"
  shows "I w'"
  using assms(3) query_all_keeps [OF assms(1,2), of ctx "opt_queries (vsp_ModelID (wa_Spec va)) (dp_Namespace d)"]
  by (auto simp: AddMetricsToOptStatus_def Let_def split: prod.splits sum.splits list.splits option.splits if_splits)

lemma find_by_selector_keeps:
  assumes "observed env I"
  shows "I w \<Longrightarrow> I (snd (find_by_selector (ev_Client env) pod ns ds w))"
proof (induction ds arbitrary: w)
  case (Cons nd ds)
  obtain n d where nd: "nd = (n, d)" by fastforce
  show ?case
    using Cons.IH [OF Cons.prems] Cons.IH observed_reads(5) [OF assms Cons.prems, of ns] Cons.prems
    by (auto simp: nd split: sum.splits prod.splits) (metis snd_conv)+
qed simp

lemma mergeMetrics_keeps:
  assumes "observed env I" and "I w"
  shows "I (snd (mergeMetrics (Some (ev_Client env)) kv q modelID ns ds vas cs w))"
proof -
  have f: "I v \<Longrightarrow> I (snd (findDeploymentForPod (Some (ev_Client env)) pod ns ds v))" for v pod
    using find_by_selector_keeps [OF assms(1), of v pod ns ds]
    by (auto simp: findDeploymentForPod_def Let_def case_prod_beta split: option.splits)
  let ?step = "\<lambda>(replicaMetrics, w) podName.
         let (variantName, w) = findDeploymentForPod (Some (ev_Client env)) podName ns ds w
         in if variantName = '''' then (replicaMetrics, w)
            else (replicaMetrics @ [replica_metric kv q modelID ns vas cs podName variantName], w)"
  have "I (snd st) \<Longrightarrow> I (snd (foldl ?step st pods))" for st pods
    by (induction pods arbitrary: st) (use f in \<open>simp_all add: case_prod_beta Let_def\<close>)
  then show ?thesis using assms(2) by (simp add: mergeMetrics_def)
qed

lemma query_by_pod_keeps:
  assumes "observed env I" and "I w"
  shows "I (snd (query_by_pod (ev_Prom env) ctx q f w))"
  using observed_reads(6) [OF assms] by (auto simp: query_by_pod_def Let_def case_prod_beta split: sum.splits)

lemma CollectReplicaMetrics_keeps:
  assumes "observed env I" and "I w"
  shows "I (snd (CollectReplicaMetrics b (ev_Prom env) (Some (ev_Client env)) ctx modelID ns ds vas cs w))"
proof -
  have "I (snd (query_both b (queryKvCacheMetrics (ev_Prom env) ctx modelID ns) (queryQueueMetrics (ev_Prom env) ctx modelID ns) w))"
    using assms(2) by (simp add: query_by_pod_keeps [OF assms(1)] query_both_def queryKvCacheMetrics_def queryQueueMetrics_def Let_def case_prod_beta)
  then show ?thesis
    using mergeMetrics_keeps [OF assms(1)]
    by (auto simp: CollectReplicaMetrics_def Let_def case_prod_beta split: option.splits)
qed

section \<open>The phases\<close>

lemma gather_keeps:
  assumes "observed env I"
  shows "I (snd (snd (snd st))) \<Longrightarrow> I (snd (snd (snd (foldl (gather_step (ev_Client env)) st vas))))"
proof (induction vas arbitrary: st)
  case (Cons va vas)
  obtain cs ds vs w where st: "st = (cs, ds, vs, w)" by (metis prod_cases4)
  have "I (snd (snd (snd (gather_step (ev_Client env) st va))))"
    using observed_reads(1) [OF assms, of w "wa_Name va" "wa_Namespace va"] Cons.prems
    by (auto simp: st gather_step_def Let_def split: prod.splits option.splits)
  then show ?case using Cons.IH by simp
qed simp

lemma buildVariantStates_keeps:
  assumes "observed env I" and "I w"
  shows "I (snd (buildVariantStates (ev_Client env) vas w))"
proof -
  have v: "I v \<Longrightarrow> I (snd (variant_state (ev_Client env) va v))" for v va
    using observed_reads(1) [OF assms(1), of v "wa_Name va" "wa_Namespace va"]
    by (auto simp: variant_state_def Let_def split: prod.splits option.splits)
  have "I (snd st) \<Longrightarrow> I (snd (foldl (\<lambda>(states, w) va. let (s, w) = variant_state (ev_Client env) va w in (states @ [s], w)) st vas))" for st
    by (induction vas arbitrary: st) (use v in \<open>simp_all add: case_prod_beta Let_def\<close>)
  then show ?thesis using assms(2) by (simp add: buildVariantStates_def)
qed

lemma runCapacityAnalysis_keeps:
  assumes "observed env I" and "I w"
  shows "I (snd (runCapacityAnalysis env modelID vas config w))"
proof (cases vas)
  case Nil
  then show ?thesis using assms(2) by (simp add: runCapacityAnalysis_def)
next
  case (Cons va0 vas')
  obtain cs ds vs w1 where g: "foldl (gather_step (ev_Client env)) ([], [], [], w) vas = (cs, ds, vs, w1)" by (metis prod_cases4)
  have w1: "I w1" using gather_keeps [OF assms(1), of "([], [], [], w)" vas] assms(2) g by simp
  obtain res w2 where c: "CollectReplicaMetrics (ev_KvFirst env) (ev_Prom env) (Some (ev_Client env)) (ev_Deadline env)
      modelID (wa_Namespace va0) ds vs cs w1 = (res, w2)" by fastforce
  have "I w2" using CollectReplicaMetrics_keeps [OF assms(1) w1] c by (metis snd_conv)
  with buildVariantStates_keeps [OF assms(1) this, of vas] show ?thesis
    using g c by (auto simp: runCapacityAnalysis_def Cons Let_def case_prod_beta split: sum.splits)
qed

lemma collect_one_keeps:
  assumes "observed env I" and "I w" and "collect_one env vaMap va w = Some (vaMap', w')"
  shows "I w'"
proof -
  obtain e1 d w1 where r1: "GetDeploymentWithBackoff (ev_Client env) (wa_Name va) (wa_Namespace va) w = (e1, d, w1)"
    by (metis prod_cases3)
  have w1: "I w1" using observed_reads(1) [OF assms(1,2), of "wa_Name va" "wa_Namespace va"] r1 by simp
  obtain e2 u w2 where r2: "GetVariantAutoscalingWithBackoff (ev_Client env) (dp_Name d) (dp_Namespace d) w1 = (e2, u, w2)"
    by (metis prod_cases3)
  have w2: "I w2" using observed_reads(3) [OF assms(1) w1, of "dp_Name d" "dp_Namespace d"] r2 by simp
  obtain v w3 where r3: "ValidateMetricsAvailability (ev_Prom env) (ev_Deadline env) (vsp_ModelID (wa_Spec va)) (dp_Namespace d) w2 = (v, w3)"
    by fastforce
  have w3: "I w3" using ValidateMetricsAvailability_keeps [OF assms(1) w2] r3 by (metis snd_conv)
  show ?thesis
    using assms(2,3) w1 w2 w3 AddMetricsToOptStatus_keeps [OF assms(1) w3] r1 r2 r3
    by (auto simp: collect_one_def Let_def split: if_splits option.splits sum.splits prod.splits)
qed

lemma collectMetrics_keeps:
  assumes "observed env I" and "I w" and "collectMetricsForCapacityMode env vas vaMap w = Some (vaMap', w')"
  shows "I w'"
proof -
  have "I (snd (vaMap', w'))"
    by (rule ofoldl_inv [OF assms(3) [unfolded collectMetricsForCapacityMode_def], where P = "\<lambda>st. I (snd st)"])
      (use assms(2) collect_one_keeps [OF assms(1)] in \<open>auto split: prod.splits\<close>)
  then show ?thesis by simp
qed

lemma emitSafetyNet_keeps: "observed env I \<Longrightarrow> I w \<Longrightarrow> I (snd (emitSafetyNetMetrics env vas w))"
  using safety_net_keeps [of env I] by (simp add: observed_def)

definition patch_keeps :: "'w ReconcileEnv \<Rightarrow> ('w \<Rightarrow> bool) \<Rightarrow> bool" where
  "patch_keeps re I \<longleftrightarrow> (\<forall>original obj w. I w \<longrightarrow> I (snd (snd (re_Patch re original obj w))))"

lemma prepare_found_keeps:
  assumes "observed (re_Env re) I" and "patch_keeps re I" and "I (snd (snd (snd st)))"
    and "prepare_found re className cost st va = Some st'"
  shows "I (snd (snd (snd st')))"
proof -
  let ?env = "re_Env re"
  obtain sd ul vm w where st: "st = (sd, ul, vm, w)" by (metis prod_cases4)
  obtain e1 d w1 where r1: "GetDeploymentWithBackoff (ev_Client ?env) (wa_Name va) (wa_Namespace va) w = (e1, d, w1)"
    by (metis prod_cases3)
  have w1: "I w1" using observed_reads(1) [OF assms(1), of w "wa_Name va" "wa_Namespace va"] assms(3) r1 st by simp
  obtain e2 u w2 where r2: "GetVariantAutoscalingWithBackoff (ev_Client ?env) (dp_Name d) (dp_Namespace d) w1 = (e2, u, w2)"
    by (metis prod_cases3)
  have w2: "I w2" using observed_reads(3) [OF assms(1) w1, of "dp_Name d" "dp_Namespace d"] r2 by simp
  obtain own w3 where r3: "own_va re d u w2 = (own, w3)" by fastforce
  have w3: "I w3" using assms(2) w2 r3
    by (auto simp: own_va_def patch_keeps_def case_prod_beta split: if_splits sum.splits)
  obtain v w4 where r4: "ValidateMetricsAvailability (ev_Prom ?env) (ev_Deadline ?env) (vsp_ModelID (wa_Spec va)) (dp_Namespace d) w3 = (v, w4)"
    by fastforce
  have w4: "I w4" using ValidateMetricsAvailability_keeps [OF assms(1) w3] r4 by (metis snd_conv)
  show ?thesis
    using assms(4) w1 w2 w3 w4 AddMetricsToOptStatus_keeps [OF assms(1) w4] r1 r2 r3 r4
    by (auto simp: prepare_found_def st Let_def split: if_splits option.splits sum.splits prod.splits)
qed

lemma prepare_keeps:
  assumes "observed (re_Env re) I" and "patch_keeps re I" and "I w"
    and "prepareVariantAutoscalings re vas acc svc sd w = Some (sd', ul, vm, w')"
  shows "I w'"
proof -
  have one: "I (snd (snd (snd st')))" if i: "I (snd (snd (snd st)))" and p: "prepare_one re acc svc st va = Some st'" for st st' va
  proof -
    obtain sd ul vm v where st: "st = (sd, ul, vm, v)" by (metis prod_cases4)
    have pf: "prepare_found re cn cost (x, y, z, v) va = Some st' \<Longrightarrow> I (snd (snd (snd st')))" for cn cost x y z
      using prepare_found_keeps [OF assms(1,2), of "(x, y, z, v)"] i by (simp add: st)
    show ?thesis
      using p i pf unfolding prepare_one_def st
      by (auto simp: Let_def split: if_splits option.splits sum.splits)
  qed
  have "I (snd (snd (snd (sd', ul, vm, w'))))"
    by (rule ofoldl_inv [OF assms(4) [unfolded prepareVariantAutoscalings_def], where P = "\<lambda>st. I (snd (snd (snd st)))"])
      (use assms(3) one in auto)
  then show ?thesis by simp
qed

lemma config_reads_keep:
  assumes "observed env I" and "I w"
  shows "I (snd (readAcceleratorConfig env n ns w))" and "I (snd (readServiceClassConfig env n ns w))"
    and "I (snd (readOptimizationConfig env w))"
proof -
  note k = observed_reads(2) [OF assms]
  show "I (snd (readAcceleratorConfig env n ns w))" "I (snd (readServiceClassConfig env n ns w))"
    using k [of n ns] by (auto simp: readAcceleratorConfig_def readServiceClassConfig_def Let_def split: prod.splits option.splits)
  show "I (snd (readOptimizationConfig env w))"
    using k [of configMapName "ev_Namespace env"]
    by (auto simp: readOptimizationConfig_def Let_def split: prod.splits option.splits)
qed

lemma loop_state_world [simp]:
  "lo_world (count_error st) = lo_world st" "lo_world (decide st ds) = lo_world st"
  by (simp_all add: count_error_def decide_def)

lemma safety_net_world: "observed env I \<Longrightarrow> I (lo_world st) \<Longrightarrow> I (lo_world (safety_net env vas st))"
  using emitSafetyNet_keeps [of env I "lo_world st" vas] by (simp add: safety_net_def case_prod_beta)

lemma fall_back_world: "observed env I \<Longrightarrow> I (lo_world st) \<Longrightarrow> I (lo_world (fall_back env vas c st))"
  using safety_net_world [of env I "count_error st" vas] by (auto simp: fall_back_def split: option.splits)

lemma capacity_phase_world:
  assumes "observed env I" and "I (lo_world st)" and "capacity_phase env configs m modelID vas st = Some (c, st')"
  shows "I (lo_world st')"
proof -
  obtain vaMap w1 where r1: "collectMetricsForCapacityMode env vas (lo_vaMap st) (lo_world st) = Some (vaMap, w1)"
    using assms(3) by (auto simp: capacity_phase_def split: option.splits)
  have w1: "I w1" by (rule collectMetrics_keeps [OF assms(1,2) r1])
  show ?thesis
    using assms(3) r1 runCapacityAnalysis_keeps [OF assms(1) w1, of modelID vas]
    by (auto simp: capacity_phase_def Let_def case_prod_beta split: sum.splits if_splits)
qed

lemma model_phase_world:
  assumes "observed (re_Env re) I" and "patch_keeps re I" and "I (lo_world st)" and "model_phase re vas c st = Some (m, st')"
  shows "I (lo_world st')"
proof -
  let ?env = "re_Env re"
  obtain acc w1 where r1: "readAcceleratorConfig ?env ''accelerator-unit-costs'' (ev_Namespace ?env) (lo_world st) = (acc, w1)"
    by fastforce
  have w1: "I w1" using config_reads_keep(1) [OF assms(1,3)] r1 by (metis snd_conv)
  obtain svc w2 where r2: "readServiceClassConfig ?env ''service-classes-config'' (ev_Namespace ?env) w1 = (svc, w2)"
    by fastforce
  have w2: "I w2" using config_reads_keep(2) [OF assms(1) w1] r2 by (metis snd_conv)
  note p = prepare_keeps [OF assms(1,2) w2, of vas]
  show ?thesis
    using assms(4) w1 w2 r1 r2 p fall_back_world [OF assms(1)]
    by (auto simp: model_phase_def Let_def split: sum.splits option.splits prod.splits)
qed

lemma process_model_world:
  assumes "observed (re_Env re) I" and "patch_keeps re I" and "I (lo_world st)"
    and "process_model re configs m c st modelGroup = Some st'"
  shows "I (lo_world st')"
proof -
  obtain modelID vas where g: "modelGroup = (modelID, vas)" by fastforce
  have fin: "I (lo_world s) \<Longrightarrow> I (lo_world (final_phase (re_Env re) m' c' modelID vas cr mo s))" for m' c' cr mo s
    using safety_net_world [OF assms(1), of "count_error s" vas] safety_net_world [OF assms(1), of s vas]
    by (auto simp: final_phase_def split: option.splits prod.splits)
  show ?thesis
  proof (cases "if c then capacity_phase (re_Env re) configs m modelID vas st else Some (Some None, st)")
    case None
    then show ?thesis using assms(4) by (auto simp: process_model_def g)
  next
    case (Some p)
    obtain cr s where p: "p = (cr, s)" by fastforce
    have s: "I (lo_world s)"
      using capacity_phase_world [OF assms(1,3), of configs m modelID vas cr s] Some assms(3) p by (cases c) simp_all
    note mp = model_phase_world [OF assms(1,2) s]
    show ?thesis
      using assms(4) Some s mp fin unfolding process_model_def g p
      by (cases cr; cases m) (auto simp: Let_def split: option.splits)
  qed
qed

section \<open>Decisions\<close>

text \<open>An object that the server listed in a state of the world with a given property.\<close>

definition listed :: "'w Env \<Rightarrow> ('w \<Rightarrow> bool) \<Rightarrow> VariantAutoscaling \<Rightarrow> bool" where
  "listed env I va \<longleftrightarrow> (\<exists>v items v'. I v \<and> cl_ListVariantAutoscalings (ev_Client env) v = (Inr items, v') \<and> va \<in> set items)"

text \<open>What the preparation of objects can yield, for any contents of the config maps.\<close>

definition prepared_by ::
  "'w ReconcileEnv \<Rightarrow> VariantAutoscaling list \<Rightarrow> SystemSpec \<Rightarrow> VariantAutoscaling list \<Rightarrow> va_map \<Rightarrow> bool" where
  "prepared_by re vas sd ul vm \<longleftrightarrow> (\<exists>acc svc v v'. prepareVariantAutoscalings re vas acc svc
     (CreateSystemData (re_UnmarshalServiceClass re) acc svc) v = Some (sd, ul, vm, v'))"

text \<open>The decisions that a reconciliation can make about listed objects: in capacity-only mode those of a capacity analysis of the
  active objects of one model with its configuration, and otherwise those for the targets of a
  model-based optimization of these objects.\<close>

definition decided ::
  "'w ReconcileEnv \<Rightarrow> (string, CapacityScalingConfig) gomap \<Rightarrow> (VariantAutoscaling \<Rightarrow> bool) \<Rightarrow> VariantDecision \<Rightarrow> bool" where
  "decided re configs L d \<longleftrightarrow>
     (\<exists>modelID vas. vas \<noteq> [] \<and>
        (\<forall>va\<in>set vas. vsp_ModelID (wa_Spec va) = modelID \<and> is_zero_time (wa_DeletionTimestamp va) \<and> L va) \<and>
        (if fst (optimization_mode (re_Getenv re EnvExperimentalHybridOptimization))
         then \<exists>now sd ul vm ts va t. prepared_by re vas sd ul vm \<and> optimize_model now sd ul vm vas = Some (Inr ts) \<and>
                va \<in> set ul \<and> mget ts (wa_Name va) = Some t \<and> d = model_only_decision modelID va t
         else \<exists>ts ca ss v v'. runCapacityAnalysis (re_Env re) modelID vas
                  (Merge DefaultCapacityScalingConfig
                    (getCapacityScalingConfigForVariant configs modelID (wa_Namespace (hd vas)))) v =
                (Inr (Some (ts, ca, ss)), v') \<and> d \<in> set (convertCapacityTargetsToDecisions ts ca ss)))"

lemma optimization_mode_exclusive: "snd (optimization_mode mode) \<longleftrightarrow> \<not> fst (optimization_mode mode)"
  by (auto simp: optimization_mode_def Let_def)

lemma loop_state_decisions [simp]:
  "lo_allDecisions (count_error st) = lo_allDecisions st"
  "lo_allDecisions (safety_net env vas st) = lo_allDecisions st"
  "lo_allDecisions (decide st ds) = lo_allDecisions st @ ds"
  by (simp_all add: count_error_def safety_net_def decide_def case_prod_beta)

lemma model_only_decisions_members:
  assumes "d \<in> set (fst (model_only_decisions modelID ul ts vaMap))"
  shows "\<exists>va\<in>set ul. \<exists>t. mget ts (wa_Name va) = Some t \<and> d = model_only_decision modelID va t"
proof -
  let ?f = "\<lambda>(ds, vaMap) va. case mget ts (wa_Name va) of
         None \<Rightarrow> (ds, vaMap)
       | Some t \<Rightarrow> (ds @ [model_only_decision modelID va t], mput (wa_Name va) va vaMap)"
  have "d \<in> set (fst (foldl ?f st ul)) \<Longrightarrow> d \<in> set (fst st) \<or>
      (\<exists>va\<in>set ul. \<exists>t. mget ts (wa_Name va) = Some t \<and> d = model_only_decision modelID va t)" for st
  proof (induction ul arbitrary: st)
    case (Cons va ul)
    have "d \<in> set (fst (?f st va)) \<Longrightarrow> d \<in> set (fst st) \<or> (\<exists>t. mget ts (wa_Name va) = Some t \<and> d = model_only_decision modelID va t)"
      by (auto simp: case_prod_beta split: option.splits)
    with Cons.IH [of "?f st va"] Cons.prems show ?case by auto
  qed simp
  from this [of "([], vaMap)"] assms show ?thesis by (simp add: model_only_decisions_def)
qed

lemma capacity_phase_decisions:
  assumes "capacity_phase env configs m modelID vas st = Some (c, st')" and "vas \<noteq> []"
  shows "lo_allDecisions st' = lo_allDecisions st"
    and "c = Some (Some (ts, ca, ss)) \<Longrightarrow> \<exists>v v'. runCapacityAnalysis env modelID vas
       (Merge DefaultCapacityScalingConfig (getCapacityScalingConfigForVariant configs modelID (wa_Namespace (hd vas)))) v =
         (Inr (Some (ts, ca, ss)), v')"
proof -
  obtain va vas' where vas: "vas = va # vas'" using assms(2) by (cases vas) auto
  obtain vaMap w where w: "collectMetricsForCapacityMode env vas (lo_vaMap st) (lo_world st) = Some (vaMap, w)"
    using assms(1) by (auto simp: capacity_phase_def split: option.splits)
  obtain res w' where r: "runCapacityAnalysis env modelID vas
      (Merge DefaultCapacityScalingConfig (getCapacityScalingConfigForVariant configs modelID (wa_Namespace va))) w = (res, w')"
    by fastforce
  show "lo_allDecisions st' = lo_allDecisions st"
    using assms(1) w r unfolding capacity_phase_def vas by (auto simp: Let_def split: sum.splits if_splits)
  show "\<exists>v v'. runCapacityAnalysis env modelID vas
       (Merge DefaultCapacityScalingConfig (getCapacityScalingConfigForVariant configs modelID (wa_Namespace (hd vas)))) v =
         (Inr (Some (ts, ca, ss)), v')" if "c = Some (Some (ts, ca, ss))"
    using assms(1) w r that unfolding capacity_phase_def vas
    by (intro exI [of _ w] exI [of _ w']) (auto simp: Let_def split: sum.splits if_splits)
qed

lemma model_phase_decisions:
  assumes "model_phase re vas None st = Some (m, st')"
  shows "lo_allDecisions st' = lo_allDecisions st"
    and "m = Some (ts, ul) \<Longrightarrow> \<exists>now sd vm. prepared_by re vas sd ul vm \<and> optimize_model now sd ul vm vas = Some (Inr ts)"
proof -
  show "lo_allDecisions st' = lo_allDecisions st"
    using assms by (auto simp: model_phase_def fall_back_def Let_def split: prod.splits sum.splits option.splits)
  show "\<exists>now sd vm. prepared_by re vas sd ul vm \<and> optimize_model now sd ul vm vas = Some (Inr ts)" if "m = Some (ts, ul)"
    using assms that unfolding prepared_by_def
    by (auto simp: model_phase_def Let_def split: prod.splits sum.splits option.splits) blast
qed

lemma process_model_decided:
  assumes "optimization_mode (re_Getenv re EnvExperimentalHybridOptimization) = (m, c)" and "vas \<noteq> []"
    and "\<forall>va\<in>set vas. vsp_ModelID (wa_Spec va) = modelID \<and> is_zero_time (wa_DeletionTimestamp va) \<and> L va"
    and "process_model re configs m c st (modelID, vas) = Some st'"
  shows "\<exists>ds. lo_allDecisions st' = lo_allDecisions st @ ds \<and> (\<forall>d\<in>set ds. decided re configs L d)"
proof (cases m)
  case True
  with assms(1) optimization_mode_exclusive [of "re_Getenv re EnvExperimentalHybridOptimization"] have c: "\<not> c" by simp
  obtain mo s where mp: "model_phase re vas None st = Some (mo, s)"
    using assms(4) True c by (auto simp: process_model_def Let_def split: option.splits)
  note s = model_phase_decisions [OF mp]
  show ?thesis
  proof (cases mo)
    case None
    then show ?thesis using assms(4) True c mp s(1) by (auto simp: process_model_def Let_def)
  next
    case (Some tu)
    obtain ts ul where tu: "tu = (ts, ul)" by fastforce
    obtain now sd vm where opt: "prepared_by re vas sd ul vm" "optimize_model now sd ul vm vas = Some (Inr ts)" using s(2) [of ts ul] Some tu by blast
    have "d \<in> set (fst (model_only_decisions modelID ul ts vaMap)) \<Longrightarrow> decided re configs L d" for d vaMap
      using model_only_decisions_members [of d modelID ul ts vaMap] opt assms(1-3) True unfolding decided_def by force
    then show ?thesis using assms(4) True c mp s(1)
      by (auto simp: process_model_def final_phase_def Some tu Let_def case_prod_beta)
  qed
next
  case False
  with assms(1) optimization_mode_exclusive [of "re_Getenv re EnvExperimentalHybridOptimization"] have c: "c" by simp
  obtain cr s where cp: "capacity_phase (re_Env re) configs False modelID vas st = Some (cr, s)"
    using assms(4) False c by (auto simp: process_model_def Let_def split: option.splits)
  note s = capacity_phase_decisions [OF cp assms(2)]
  have "decided re configs L d" if "cr = Some (Some (ts, ca, ss))" "d \<in> set (convertCapacityTargetsToDecisions ts ca ss)" for d ts ca ss
    using s(2) [OF that(1)] that(2) assms(1-3) False unfolding decided_def by force
  then show ?thesis
    using assms(4) False c cp s(1)
    by (auto simp: process_model_def final_phase_def Let_def split: option.splits)
qed

section \<open>A reconciliation\<close>

lemma group_members:
  assumes "(modelID, vas) \<in> set (groupVAsByModel (filterActiveVariantAutoscalings items))"
  shows "vas \<noteq> []" and "\<forall>va\<in>set vas. vsp_ModelID (wa_Spec va) = modelID \<and> is_zero_time (wa_DeletionTimestamp va) \<and> va \<in> set items"
  using assms by (auto simp: groupVAsByModel_entry filterActiveVariantAutoscalings_def)

text \<open>A reconciliation ends early with nothing emitted and only reads done, or runs the loop over the groups of
  active objects and applies its decisions.\<close>

lemma Reconcile_cases:
  assumes "Reconcile re r w = Some (res, es, w')" and "observed (re_Env re) I" and "I w"
  obtains (early) "es = []" and "I w'"
  | (loop) d items v m c st where "res = Inr d" and "I v" and "\<forall>va\<in>set items. listed (re_Env re) I va" and
      "optimization_mode (re_Getenv re EnvExperimentalHybridOptimization) = (m, c)" and
      "ofoldl (process_model re (rc_capacityConfigCache r) m c)
         \<lparr>lo_allDecisions = [], lo_vaMap = name_map (filterActiveVariantAutoscalings items), lo_errorCount = 0,
          lo_emissions = [], lo_world = v\<rparr> (groupVAsByModel (filterActiveVariantAutoscalings items)) = Some st" and
      "es = lo_emissions st @ fst (applyCapacityDecisions (re_Env re) (lo_allDecisions st) (lo_vaMap st) (lo_world st))" and
      "w' = snd (applyCapacityDecisions (re_Env re) (lo_allDecisions st) (lo_vaMap st) (lo_world st))"
proof -
  let ?env = "re_Env re"
  obtain cfg w1 where r1: "readOptimizationConfig ?env w = (cfg, w1)" by fastforce
  have w1: "I w1" using config_reads_keep(3) [OF assms(2,3)] r1 by simp
  obtain vas w2 where r2: "cl_ListVariantAutoscalings (ev_Client ?env) w1 = (vas, w2)" by fastforce
  have w2: "I w2" using observed_reads(4) [OF assms(2) w1] r2 by simp
  obtain m c where mc: "optimization_mode (re_Getenv re EnvExperimentalHybridOptimization) = (m, c)" by fastforce
  show thesis
  proof (cases cfg)
    case (Inl e)
    then show thesis using assms(1) r1 w1 early by (simp add: Reconcile_def)
  next
    case interval: (Inr interval)
    show thesis
    proof (cases "if interval = '''' then Inr (60 * Second) else ParseDuration interval")
      case (Inl e)
      then show thesis using assms(1) r1 w1 interval early by (simp add: Reconcile_def)
    next
      case d: (Inr d)
      show thesis
      proof (cases vas)
        case (Inl e)
        then show thesis using assms(1) r1 r2 w2 interval d early by (simp add: Reconcile_def mc)
      next
        case items: (Inr items)
        let ?active = "filterActiveVariantAutoscalings items"
        let ?loop = "ofoldl (process_model re (rc_capacityConfigCache r) m c)
          \<lparr>lo_allDecisions = [], lo_vaMap = name_map ?active, lo_errorCount = 0, lo_emissions = [], lo_world = w2\<rparr>
          (groupVAsByModel ?active)"
        have R: "Reconcile re r w = (if ?active = [] then Some (Inr d, [], w2) else case ?loop of None \<Rightarrow> None
            | Some st \<Rightarrow> Some (Inr d, lo_emissions st @ fst (applyCapacityDecisions ?env (lo_allDecisions st) (lo_vaMap st) (lo_world st)),
                snd (applyCapacityDecisions ?env (lo_allDecisions st) (lo_vaMap st) (lo_world st))))"
          using r1 r2 interval d items mc
          by (simp add: Reconcile_def getCapacityConfigSafe_def Let_def case_prod_beta split: option.split)
        show thesis
        proof (cases "?active = []")
          case True
          then show thesis using assms(1) R w2 early by simp
        next
          case False
          obtain st where st: "?loop = Some st" using assms(1) R False by (cases ?loop) simp_all
          have "\<forall>va\<in>set items. listed ?env I va" using w1 r2 items by (auto simp: listed_def)
          then show thesis using assms(1) by (intro loop [of d w2 items m c st]) (simp_all add: R False st w2 mc)
        qed
      qed
    qed
  qed
qed

text \<open>A property that reads, the patch and the updates for decisions about listed objects keep is kept by a
  reconciliation.\<close>

lemma Reconcile_keeps:
  fixes re :: "'w ReconcileEnv"
  assumes "observed (re_Env re) I" and "patch_keeps re I" and "condition_store (ev_Conditions (re_Env re))"
    and "failed_update_keeps (cl_UpdateVariantAutoscalingStatus (ev_Client (re_Env re)))"
    and "\<forall>vaMap ds. (\<forall>d\<in>set ds. decided re (rc_capacityConfigCache r) (listed (re_Env re) I) d) \<longrightarrow>
      updates_keep (re_Env re) vaMap ds I"
    and "I w" and "Reconcile re r w = Some (res, es, w')"
  shows "I w'"
  using assms(7,1,6)
proof (cases rule: Reconcile_cases)
  case (loop d items v m c st)
  let ?D = "decided re (rc_capacityConfigCache r) (listed (re_Env re) I)"
  let ?P = "\<lambda>st. I (lo_world st) \<and> (\<forall>d\<in>set (lo_allDecisions st). ?D d)"
  have "?P st"
  proof (rule ofoldl_inv [OF loop(5), where P = ?P])
    fix s g s' assume s: "?P s" and g: "g \<in> set (groupVAsByModel (filterActiveVariantAutoscalings items))"
      and p: "process_model re (rc_capacityConfigCache r) m c s g = Some s'"
    obtain modelID vas where mv: "g = (modelID, vas)" by fastforce
    note mem = group_members [OF g [unfolded mv]]
    have "\<forall>va\<in>set vas. vsp_ModelID (wa_Spec va) = modelID \<and> is_zero_time (wa_DeletionTimestamp va) \<and> listed (re_Env re) I va"
      using mem(2) loop(3) by blast
    then obtain ds where "lo_allDecisions s' = lo_allDecisions s @ ds" "\<forall>d\<in>set ds. ?D d"
      using process_model_decided [OF loop(4) mem(1) _ p [unfolded mv]] by blast
    moreover have "I (lo_world s')" using process_model_world [OF assms(1,2) _ p] s by blast
    ultimately show "?P s'" using s by auto
  qed (use loop(2) in simp)
  then have u: "updates_keep (re_Env re) (lo_vaMap st) (lo_allDecisions st) I" and w: "I (lo_world st)" using assms(5) by simp_all
  have "documented_client (ev_Client (re_Env re))" "reads_keep (ev_Client (re_Env re)) I" using assms(1) by (simp_all add: observed_def)
  from applyCapacityDecisions_keeps [where I = I, OF this(1) assms(3) this(2) assms(4) u w] show ?thesis unfolding loop(7) .
qed

text \<open>C3: what a reconciliation writes. Whatever Kubernetes and Prometheus answer and in every mode, a
  reconciliation changes the outside world only by the patch of owner references and by status
  updates for decisions it made about objects that the server listed: in capacity-only mode those of a capacity analysis of the active
  objects of a model under its configuration, and in the other mode those for the targets of the
  model-based optimization. Each written status has the target and the accelerator of such a decision,
  a current allocation with an accelerator, is marked as applied and ready, and has no other condition
  that the server did not already have. The arbitration between the two analyses never takes part:
  the two are never enabled together.\<close>

theorem reconcile_writes:
  fixes re :: "'w ReconcileEnv"
  assumes "observed (re_Env re) I" and "patch_keeps re I" and "condition_store (ev_Conditions (re_Env re))"
    and "failed_update_keeps (cl_UpdateVariantAutoscalingStatus (ev_Client (re_Env re)))"
    and "\<forall>vaMap ds. (\<forall>d\<in>set ds. decided re (rc_capacityConfigCache r) (listed (re_Env re) I) d) \<longrightarrow>
      updates_keep (re_Env re) vaMap ds I"
    and "I w" and "Reconcile re r w = Some (res, es, w')"
  shows "I w'"
  by (rule Reconcile_keeps [OF assms])

section \<open>Outage of Prometheus\<close>

text \<open>Every query fails.\<close>

definition prom_down :: "'w Prom \<Rightarrow> bool" where
  "prom_down prom \<longleftrightarrow> (\<forall>ctx q t w. \<exists>e. fst (pm_Query prom ctx q t w) = Inl e)"

lemma down_unavailable: "prom_down prom \<Longrightarrow> \<not> mvr_Available (fst (ValidateMetricsAvailability prom ctx m ns w))"
proof -
  assume "prom_down prom"
  then obtain e where "fst (pm_Query prom ctx (availability_query m ns) (pm_Now prom w) w) = Inl e"
    unfolding prom_down_def by blast
  then show ?thesis
    by (simp add: ValidateMetricsAvailability_def Let_def case_prod_beta prometheus_error_def)
qed

lemma down_collect:
  assumes "prom_down (ev_Prom env)"
  shows "\<exists>w'. collectMetricsForCapacityMode env vas vaMap w = Some (vaMap, w')"
proof -
  have one: "\<exists>w'. collect_one env vaMap va w = Some (vaMap, w')" for va w
    using down_unavailable [OF assms]
    by (auto simp: collect_one_def Let_def case_prod_beta split: option.splits)
  show ?thesis unfolding collectMetricsForCapacityMode_def
  proof (induction vas arbitrary: w)
    case (Cons va vas)
    obtain w1 where "collect_one env vaMap va w = Some (vaMap, w1)" using one by blast
    with Cons.IH [of w1] show ?case by simp
  qed simp
qed

lemma down_analysis:
  assumes "prom_down (ev_Prom env)" and "vas \<noteq> []"
  shows "\<exists>err w'. runCapacityAnalysis env modelID vas config w = (Inl err, w')"
proof -
  have q: "\<exists>e w'. query_by_pod (ev_Prom env) ctx q f v = (([], Some e), w')" for ctx q f v
  proof -
    obtain e where "fst (pm_Query (ev_Prom env) (Some (contextWithRespectedDeadline ctx (pm_Now (ev_Prom env) v) (5 * Second))) q
        (pm_Now (ev_Prom env) v) v) = Inl e" using assms(1) unfolding prom_down_def by blast
    then show ?thesis by (simp add: query_by_pod_def Let_def case_prod_beta)
  qed
  have "\<exists>err w'. CollectReplicaMetrics b (ev_Prom env) k ctx modelID ns ds vs cs v = (Inl err, w')" for b k ctx ns ds vs cs v
  proof -
    obtain e w1 where kv: "queryKvCacheMetrics (ev_Prom env) ctx modelID ns (if b then v else
        snd (queryQueueMetrics (ev_Prom env) ctx modelID ns v)) = (([], Some e), w1)"
      using q unfolding queryKvCacheMetrics_def by blast
    then show ?thesis by (cases b) (auto simp: CollectReplicaMetrics_def query_both_def Let_def case_prod_beta)
  qed
  note c = this
  obtain va vas' where vas: "vas = va # vas'" using assms(2) by (cases vas) auto
  obtain cs ds vs w1 where g: "foldl (gather_step (ev_Client env)) ([], [], [], w) vas = (cs, ds, vs, w1)" by (metis prod_cases4)
  obtain e w2 where "CollectReplicaMetrics (ev_KvFirst env) (ev_Prom env) (Some (ev_Client env)) (ev_Deadline env) modelID
      (wa_Namespace va) ds vs cs w1 = (Inl e, w2)" using c by blast
  with g show ?thesis by (simp add: runCapacityAnalysis_def vas Let_def)
qed

lemma down_process:
  assumes "prom_down (ev_Prom (re_Env re))" and "vas \<noteq> []" and "process_model re configs False True st (modelID, vas) = Some st'"
  shows "lo_emissions st' = lo_emissions st" and "lo_allDecisions st' = lo_allDecisions st"
proof -
  obtain w1 where c: "collectMetricsForCapacityMode (re_Env re) vas (lo_vaMap st) (lo_world st) = Some (lo_vaMap st, w1)"
    using down_collect [OF assms(1)] by blast
  obtain va vas' where vas: "vas = va # vas'" using assms(2) by (cases vas) auto
  obtain e w2 where "runCapacityAnalysis (re_Env re) modelID vas (Merge DefaultCapacityScalingConfig
      (getCapacityScalingConfigForVariant configs modelID (wa_Namespace va))) w1 = (Inl e, w2)"
    using down_analysis [OF assms(1,2)] by blast
  with c assms(3) have "st' = count_error (st\<lparr>lo_world := w2\<rparr>)"
    by (simp add: process_model_def capacity_phase_def vas)
  then show "lo_emissions st' = lo_emissions st" "lo_allDecisions st' = lo_allDecisions st"
    by (simp_all add: count_error_def)
qed

text \<open>C39: an outage of Prometheus silences the controller. When every query fails, a reconciliation in
  capacity-only mode emits no gauge and writes nothing for any variant: the failure counts as an error of
  the analysis, for which the safety net is not activated; it is only activated when the queries
  succeed without samples.\<close>

theorem outage_emits_nothing:
  fixes re :: "'w ReconcileEnv"
  assumes "prom_down (ev_Prom (re_Env re))" and "\<not> fst (optimization_mode (re_Getenv re EnvExperimentalHybridOptimization))"
    and "observed (re_Env re) I" and "patch_keeps re I" and "I w" and "Reconcile re r w = Some (res, es, w')"
  shows "es = [] \<and> I w'"
  using assms(6,3,5)
proof (cases rule: Reconcile_cases)
  case (loop d items v m c st)
  have mc: "\<not> m" "c" using loop(4) assms(2) optimization_mode_exclusive [of "re_Getenv re EnvExperimentalHybridOptimization"] by auto
  let ?P = "\<lambda>st. I (lo_world st) \<and> lo_emissions st = [] \<and> lo_allDecisions st = []"
  have "?P st"
  proof (rule ofoldl_inv [OF loop(5), where P = ?P])
    fix s g s' assume s: "?P s" and g: "g \<in> set (groupVAsByModel (filterActiveVariantAutoscalings items))"
      and p: "process_model re (rc_capacityConfigCache r) m c s g = Some s'"
    obtain modelID vas where mv: "g = (modelID, vas)" by fastforce
    have "I (lo_world s')" using process_model_world [OF assms(3,4) _ p] s by blast
    then show "?P s'" using down_process [OF assms(1) group_members(1) [OF g [unfolded mv]], of "rc_capacityConfigCache r" s modelID s'] p s mc mv
      by simp
  qed (use loop(2) in simp)
  then show ?thesis using loop(6,7) by (simp add: applyCapacityDecisions_def)
qed simp

section \<open>Termination in capacity-only mode\<close>

text \<open>A deployment read from the API server states its number of replicas (the server fills in one).\<close>

definition deployments_sized :: "'w Client \<Rightarrow> bool" where
  "deployments_sized c \<longleftrightarrow>
     (\<forall>n ns d w d' w'. cl_GetDeployment c n ns d w = (None, d', w') \<longrightarrow> dp_SpecReplicas d' \<noteq> None)"

lemma sized_get:
  assumes "documented_client c" and "deployments_sized c" and "GetDeploymentWithBackoff c n ns w = (None, d, w')"
  shows "dp_SpecReplicas d \<noteq> None"
proof -
  have wait: "documented_wait (cl_WaitDeployment c)" using assms(1) by (simp add: documented_client_def)
  obtain s where "get_condition (cl_GetDeployment c n ns) s = (Inr True, d, w')"
    using wait_success [OF wait assms(3) [unfolded GetDeploymentWithBackoff_def GetResourceWithBackoff_def]] by blast
  with assms(2) show ?thesis unfolding get_condition_success deployments_sized_def by blast
qed

lemma AddMetricsToOptStatus_returns:
  "dp_SpecReplicas d \<noteq> None \<Longrightarrow> AddMetricsToOptStatus prom ctx va d cost w \<noteq> None"
proof -
  assume d: "dp_SpecReplicas d \<noteq> None"
  obtain r w1 where q: "query_all prom ctx (opt_queries (vsp_ModelID (wa_Spec va)) (dp_Namespace d)) w = (r, w1)" by fastforce
  show ?thesis
  proof (cases r)
    case (Inr xs)
    have "length xs = length (opt_queries (vsp_ModelID (wa_Spec va)) (dp_Namespace d))"
      using q Inr by (intro query_all_length) simp
    then have "length xs = 5" by (simp add: opt_queries_def)
    then obtain a b e f g where "xs = [a, b, e, f, g]" by (auto simp: length_Suc_conv eval_nat_numeral)
    then show ?thesis using d q Inr by (auto simp: AddMetricsToOptStatus_def Let_def)
  qed (use q in \<open>simp add: AddMetricsToOptStatus_def\<close>)
qed

lemma collect_one_returns:
  assumes "documented_client (ev_Client env)" and "deployments_sized (ev_Client env)"
  shows "collect_one env vaMap va w \<noteq> None"
proof -
  obtain e1 d w1 where r1: "GetDeploymentWithBackoff (ev_Client env) (wa_Name va) (wa_Namespace va) w = (e1, d, w1)"
    by (metis prod_cases3)
  have A: "e1 = None \<Longrightarrow> AddMetricsToOptStatus (ev_Prom env) ctx u d cost v \<noteq> None" for ctx u cost v
    using sized_get [OF assms, of "wa_Name va" "wa_Namespace va" w d w1] r1 AddMetricsToOptStatus_returns [of d] by simp
  show ?thesis using r1
    by (simp add: collect_one_def Let_def case_prod_beta A split: option.split sum.split)
qed

lemma process_model_returns:
  assumes "documented_client (ev_Client (re_Env re))" and "deployments_sized (ev_Client (re_Env re))"
  shows "process_model re configs False True st g \<noteq> None"
proof -
  obtain modelID vas where g: "g = (modelID, vas)" by fastforce
  have "collectMetricsForCapacityMode (re_Env re) vas (lo_vaMap st) (lo_world st) \<noteq> None"
    unfolding collectMetricsForCapacityMode_def
    by (rule ofoldl_Some) (use collect_one_returns [OF assms] in \<open>simp add: case_prod_beta\<close>)
  then show ?thesis
    by (auto simp: process_model_def capacity_phase_def g Let_def case_prod_beta split: option.splits sum.splits)
qed


section \<open>A run\<close>

text \<open>A cluster whose config maps all hold an interval of thirty seconds, with no environment variable set, and
  objects with a current allocation of an earlier run.\<close>

definition demo_re :: "VariantAutoscaling list Env \<Rightarrow> VariantAutoscaling list ReconcileEnv" where
  "demo_re env =
     \<lparr>re_Env = env\<lparr>ev_Client := (ev_Client env)
        \<lparr>cl_GetConfigMap := (\<lambda>n ns m w. (None, [(''GLOBAL_OPT_INTERVAL'', ''30s'')], w))\<rparr>\<rparr>,
      re_Getenv = (\<lambda>_. ''''), re_UnmarshalServiceClass = (\<lambda>_. Inl (sprintf ''no service class'' [])),
      re_IsControlledBy = (\<lambda>_ _. True), re_SetControllerReference = (\<lambda>_ va. Inr va),
      re_Patch = (\<lambda>_ va w. (None, va, w))\<rparr>"

definition demo_current :: "string \<Rightarrow> int \<Rightarrow> VariantAutoscaling" where
  "demo_current n desired = (demo_va n '''' desired)\<lparr>wa_Status := (wa_Status (demo_va n '''' desired))
     \<lparr>st_CurrentAlloc := zero_CrAllocation\<lparr>cr_Accelerator := ''A100'', cr_NumReplicas := desired\<rparr>\<rparr>\<rparr>"

definition demo_cluster :: "VariantAutoscaling list ReconcileEnv" where
  "demo_cluster = demo_re (demo_env [demo_deployment ''a'' 1, demo_deployment ''b'' 3]
     [demo_current ''a'' 1, demo_current ''b'' 3]
     [(''a-1'', Fin (9 / 10)), (''b-1'', Fin (9 / 10)), (''b-2'', Fin (9 / 10))])"

lemma demo_cluster_targets:
  "map_option (\<lambda>(res, es, w). (res, map (\<lambda>u. (wa_Name u, oa_NumReplicas (st_DesiredOptimizedAlloc (wa_Status u)))) w))
     (Reconcile demo_cluster loaded_cache []) = Some (Inr (30 * Second), [(''a'', 2), (''b'', 2)])"
  by code_simp

lemma demo_re_documented:
  "observed (re_Env (demo_re (demo_env ds vas ss))) I" "patch_keeps (demo_re env) I"
  "condition_store (ev_Conditions (re_Env (demo_re (demo_env ds vas ss))))"
  "failed_update_keeps (cl_UpdateVariantAutoscalingStatus (ev_Client (re_Env (demo_re (demo_env ds vas ss)))))"
  by (simp_all add: observed_def demo_re_def demo_env_def demo_client_def demo_prom_def documented_client_def documented_wait_poll
      list_conditions_store failed_update_keeps_def reads_keep_def prom_keeps_def patch_keeps_def split: option.splits)

theorem reconcile_writes_witness:
  "\<exists>res es w'. Reconcile demo_cluster loaded_cache [] = Some (res, es, w') \<and>
     map (\<lambda>u. oa_NumReplicas (st_DesiredOptimizedAlloc (wa_Status u))) w' = [2, 2] \<and>
     list_all (\<lambda>u. act_Applied (st_Actuation (wa_Status u))) w'"
proof -
  obtain res es w' where R: "Reconcile demo_cluster loaded_cache [] = Some (res, es, w')"
      "map (\<lambda>u. (wa_Name u, oa_NumReplicas (st_DesiredOptimizedAlloc (wa_Status u)))) w' = [(''a'', 2), (''b'', 2)]"
    using demo_cluster_targets by auto
  let ?I = "\<lambda>w. list_all (\<lambda>u. act_Applied (st_Actuation (wa_Status u))) w"
  have u: "\<forall>vaMap ds. (\<forall>d\<in>set ds. decided demo_cluster (rc_capacityConfigCache loaded_cache) (listed (re_Env demo_cluster) ?I) d) \<longrightarrow>
      updates_keep (re_Env demo_cluster) vaMap ds ?I"
    by (auto simp: updates_keep_def acceptable_update_def demo_cluster_def demo_re_def demo_env_def demo_client_def)
  have "?I w'"
    by (rule reconcile_writes [where I = ?I, OF _ _ _ _ u _ R(1)])
      (simp_all add: demo_cluster_def demo_re_documented)
  moreover have "map (\<lambda>u. oa_NumReplicas (st_DesiredOptimizedAlloc (wa_Status u))) w' = [2, 2]"
    using arg_cong [OF R(2), of "map snd"] by (simp add: comp_def)
  ultimately show ?thesis using R(1) by (intro exI [of _ res] exI [of _ es] exI [of _ w']) simp
qed

text \<open>The same cluster while Prometheus is down.\<close>

definition demo_outage :: "VariantAutoscaling list ReconcileEnv" where
  "demo_outage = demo_cluster\<lparr>re_Env := (re_Env demo_cluster)
     \<lparr>ev_Prom := \<lparr>pm_Query = (\<lambda>_ _ _ w. (Inl (sprintf ''connection refused'' []), w)), pm_Now = (\<lambda>_. 1)\<rparr>\<rparr>\<rparr>"

lemma demo_cluster_sized: "deployments_sized (ev_Client (re_Env demo_cluster))"
  by (auto simp: deployments_sized_def demo_cluster_def demo_re_def demo_env_def demo_client_def demo_deployment_def
      split: if_splits)


theorem outage_emits_nothing_witness:
  "\<exists>res. Reconcile demo_outage loaded_cache [] = Some (res, [], [])"
proof -
  have "\<not> Option.is_none (Reconcile demo_outage loaded_cache [])" by code_simp
  then obtain res es w' where R: "Reconcile demo_outage loaded_cache [] = Some (res, es, w')"
    by (auto simp: Option.is_none_def)
  have obs: "observed (re_Env demo_outage) I" for I
    using demo_re_documented(1) by (simp add: demo_outage_def demo_cluster_def observed_def prom_keeps_def)
  have "es = [] \<and> w' = []"
    by (rule outage_emits_nothing [where I = "\<lambda>w. w = []", OF _ _ obs _ _ R])
      (simp_all add: prom_down_def demo_outage_def demo_cluster_def demo_re_def optimization_mode_def patch_keeps_def)
  with R show ?thesis by blast
qed

end
