(* ===== verification/Wva_Model_Mode.thy ===== *)
theory Wva_Model_Mode
  imports Wva_World
begin

text \<open>
  What the model-based optimization of a model yields. The controller asks the optimizer to keep the
  accelerator of every variant, so that each server has a single candidate: the theorem follows
  it from the objects through preparation, analysis of the servers, the unlimited solver and the
  solution to the target.
\<close>

section \<open>Allocations do not depend on candidates\<close>

definition bare :: "Server \<Rightarrow> Server" where
  "bare s = s\<lparr>sr_allAllocations := []\<rparr>"

lemma bare_fields [simp]:
  "sr_name (bare s) = sr_name s" "sr_load (bare s) = sr_load s" "sr_modelName (bare s) = sr_modelName s"
  "sr_serviceClassName (bare s) = sr_serviceClassName s" "sr_minNumReplicas (bare s) = sr_minNumReplicas s"
  "sr_keepAccelerator (bare s) = sr_keepAccelerator s" "sr_curAllocation (bare s) = sr_curAllocation s"
  "sr_maxBatchSize (bare s) = sr_maxBatchSize s"
  by (simp_all add: bare_def)

lemma bare_allocations [simp]:
  "zeroLoadAllocation (bare s) m acc p = zeroLoadAllocation s m acc p"
  "sizedAllocation (bare s) m acc p tg ld g = sizedAllocation s m acc p tg ld g"
  unfolding zeroLoadAllocation_def sizedAllocation_def batch_size_def bare_fields by (rule refl)+

lemma bare_eqD:
  assumes "bare s = bare t"
  shows "sr_name s = sr_name t" "sr_load s = sr_load t" "sr_modelName s = sr_modelName t"
    "sr_serviceClassName s = sr_serviceClassName t" "sr_minNumReplicas s = sr_minNumReplicas t"
    "sr_keepAccelerator s = sr_keepAccelerator t" "sr_curAllocation s = sr_curAllocation t"
    "zeroLoadAllocation s m acc p = zeroLoadAllocation t m acc p"
    "sizedAllocation s m acc p tg ld g = sizedAllocation t m acc p tg ld g"
  using assms by (metis bare_fields bare_allocations)+

lemma CreateAllocation_bare:
  assumes "accelerators sys = accelerators sys0" and "models sys = models sys0" and "serviceClasses sys = serviceClasses sys0"
    and "map_option bare (mget (servers sys) n) = map_option bare (mget (servers sys0) n)"
  shows "CreateAllocation sys n g = CreateAllocation sys0 n g"
proof (cases "mget (servers sys) n")
  case None
  then have "mget (servers sys0) n = None" using assms(4) by simp
  with None show ?thesis
    using assms(1) by (simp add: CreateAllocation_def GetAccelerator_def GetServer_def cong: option.case_cong)
next
  case (Some s)
  then obtain t where t: "mget (servers sys0) n = Some t" "bare s = bare t"
    using assms(4) by (cases "mget (servers sys0) n") auto
  show ?thesis
    using Some t(1) assms(1-3) unfolding CreateAllocation_def GetAccelerator_def GetServer_def GetModel_def GetServiceClass_def
    by (simp add: bare_eqD [OF t(2)] cong: option.case_cong if_cong)
qed

lemma CreateAllocation_min:
  assumes "CreateAllocation sys n g = Some (Some a)" and "GetServer sys n = Some s"
  shows "sr_minNumReplicas s \<le> al_numReplicas a"
  using assms
  by (auto simp: CreateAllocation_def sizedAllocation_def zeroLoadAllocation_def Let_def
      split: option.splits sum.splits prod.splits if_splits)

section \<open>Analysis of the servers\<close>

text \<open>The servers keep their accelerator.\<close>

definition keeping :: "System \<Rightarrow> bool" where
  "keeping sys \<longleftrightarrow> (\<forall>n s. mget (servers sys) n = Some s \<longrightarrow>
     sr_name s = n \<and> sr_keepAccelerator s \<and> (\<exists>cur. sr_curAllocation s = Some cur \<and> al_accelerator cur \<noteq> ''''))"

text \<open>A candidate is, but for its value, the allocation of the current accelerator.\<close>

definition candidate :: "System \<Rightarrow> Server \<Rightarrow> Allocation \<Rightarrow> bool" where
  "candidate sys0 s al \<longleftrightarrow> (\<exists>cur alloc. sr_curAllocation s = Some cur \<and>
     CreateAllocation sys0 (sr_name s) (al_accelerator cur) = Some (Some alloc) \<and> al_numReplicas al = al_numReplicas alloc)"

definition analyzed :: "System \<Rightarrow> System \<Rightarrow> bool" where
  "analyzed sys0 sys \<longleftrightarrow> accelerators sys = accelerators sys0 \<and> models sys = models sys0 \<and>
     serviceClasses sys = serviceClasses sys0 \<and> wf_map (servers sys) \<and>
     (\<forall>n. map_option bare (mget (servers sys) n) = map_option bare (mget (servers sys0) n)) \<and>
     (\<forall>n s. mget (servers sys) n = Some s \<longrightarrow> (\<forall>al\<in>snd ` set (sr_allAllocations s). candidate sys0 s al))"

lemma Server_Calculate_candidates:
  assumes "analyzed sys0 sys" and "keeping sys0" and "mget (servers sys) n = Some s"
    and "\<forall>(g, acc)\<in>set (accelerators sys0). ag_name acc = g" and "Server_Calculate sys s (accelerators sys) = Some s'"
  shows "bare s' = bare s" and "\<forall>al\<in>snd ` set (sr_allAllocations s'). candidate sys0 s' al"
proof -
  show b: "bare s' = bare s" using assms(5) by (auto simp: Server_Calculate_def bare_def)
  have acc: "accelerators sys = accelerators sys0" using assms(1) by (simp add: analyzed_def)
  have m: "map_option bare (mget (servers sys) n) = map_option bare (mget (servers sys0) n)" for n
    using assms(1) unfolding analyzed_def by blast
  obtain t where t: "mget (servers sys0) n = Some t" "bare s = bare t"
    using m [of n] assms(3) by (cases "mget (servers sys0) n") auto
  obtain cur where cur: "sr_keepAccelerator s" "sr_curAllocation s = Some cur" "al_accelerator cur \<noteq> ''''"
    using assms(2) t bare_eqD(6,7) [OF t(2)] unfolding keeping_def by fastforce
  have c: "CreateAllocation sys (sr_name s) g = CreateAllocation sys0 (sr_name s) g" for g
    using assms(1) by (intro CreateAllocation_bare) (auto simp: analyzed_def)
  have "sr_allAllocations s' = [] \<or> (\<exists>k al. sr_allAllocations s' = [(k, al)] \<and> candidate sys0 s al)"
  proof (cases "mget (accelerators sys) (al_accelerator cur)")
    case None
    then have "GetCandidateAccelerators s (accelerators sys) = []" using cur by (simp add: GetCandidateAccelerators_def)
    then show ?thesis using assms(5) by (auto simp: Server_Calculate_def)
  next
    case (Some g)
    then have g: "ag_name g = al_accelerator cur" using assms(4) acc map_of_SomeD [of "accelerators sys"] by fastforce
    have "GetCandidateAccelerators s (accelerators sys) = [(al_accelerator cur, g)]"
      using cur Some by (simp add: GetCandidateAccelerators_def)
    then show ?thesis using assms(5) g cur(2)
      by (auto simp: Server_Calculate_def candidate_step_def c candidate_def Let_def split: option.splits)
  qed
  then show "\<forall>al\<in>snd ` set (sr_allAllocations s'). candidate sys0 s' al"
    using bare_eqD [OF b] by (auto simp: candidate_def)
qed

lemma AnalyzeModel_analyzed:
  assumes "analyzed sys0 sys" and "keeping sys0" and "\<forall>(g, acc)\<in>set (accelerators sys0). ag_name acc = g"
    and "AnalyzeModel sys va = Some (r, sys')"
  shows "analyzed sys0 sys'"
proof (cases "mget (servers sys) (FullName (wa_Name va) (wa_Namespace va))")
  case None
  then show ?thesis using assms(1,4) by (simp add: AnalyzeModel_def)
next
  case (Some s)
  then obtain s' where s': "Server_Calculate sys s (accelerators sys) = Some s'"
      "sys' = sys\<lparr>servers := mput (FullName (wa_Name va) (wa_Namespace va)) s' (servers sys)\<rparr>"
    using assms(4) by (auto simp: AnalyzeModel_def)
  from Server_Calculate_candidates [OF assms(1,2) Some assms(3) s'(1)] show ?thesis
    using assms(1) Some s'(2) unfolding analyzed_def by auto (metis option.simps(9))
qed

lemma analyze_servers_analyzed:
  assumes "analyzed sys0 sys0" and "keeping sys0" and "\<forall>(g, acc)\<in>set (accelerators sys0). ag_name acc = g"
    and "analyze_servers vm sys0 = Some (rs, sys)"
  shows "analyzed sys0 sys"
proof -
  have "analyzed sys0 (snd (rs, sys))"
    by (rule ofoldl_inv [OF assms(4) [unfolded analyze_servers_def], where P = "\<lambda>st. analyzed sys0 (snd st)"])
      (use assms(1) in \<open>auto split: option.splits dest: AnalyzeModel_analyzed [OF _ assms(2,3)]\<close>)
  then show ?thesis by simp
qed

section \<open>Solution\<close>

lemma select_min_member: "select_min cs = Some a \<Longrightarrow> a \<in> snd ` set cs"
proof -
  let ?f = "\<lambda>(minVal, minAlloc) (k, alloc).
      if al_value alloc < minVal then (al_value alloc, Some alloc) else (minVal, minAlloc)"
  have "snd (foldl ?f st cs) = Some a \<Longrightarrow> snd st = Some a \<or> a \<in> snd ` set cs" for st
  proof (induction cs arbitrary: st)
    case (Cons c cs)
    have "snd (?f st c) = Some a \<Longrightarrow> snd st = Some a \<or> a = snd c" by (auto simp: case_prod_beta split: if_splits)
    with Cons.IH [of "?f st c"] Cons.prems show ?case by auto
  qed simp
  from this [of "(Fin MaxFloat32, None)"] show "select_min cs = Some a \<Longrightarrow> a \<in> snd ` set cs" by (simp add: select_min_def)
qed

lemma SolveUnlimited_server:
  assumes "(n, v') \<in> set (servers (SolveUnlimited sys))" and "sr_allocation v' = Some a"
  shows "\<exists>v. (n, v) \<in> set (servers sys) \<and> a \<in> snd ` set (sr_allAllocations v)"
proof -
  obtain v where v: "(n, v) \<in> set (servers sys)" "v' = (case select_min (sr_allAllocations (RemoveAllocation v)) of
      None \<Rightarrow> RemoveAllocation v | Some a \<Rightarrow> SetAllocation (RemoveAllocation v) a)"
    using assms(1) by (auto simp: SolveUnlimited_def Let_def)
  then have "select_min (sr_allAllocations v) = Some a"
    using assms(2) by (auto simp: SetAllocation_def UpdateDesiredAlloc_def RemoveAllocation_def split: option.splits)
  with v(1) select_min_member show ?thesis by blast
qed

lemma GenerateSolution_entry:
  assumes "mget (snd (GenerateSolution sys)) n = Some d"
  shows "\<exists>v a. (n, v) \<in> set (servers sys) \<and> sr_allocation v = Some a \<and> ad_NumReplicas d = al_numReplicas a"
proof -
  let ?f = "\<lambda>m (serverName, server). case sr_allocation server of None \<Rightarrow> m | Some a \<Rightarrow>
      mput serverName ((AllocationData_of a)\<lparr>ad_Load := the (sr_load server)\<rparr>) m"
  have "mget (foldl ?f m svs) n = Some d \<Longrightarrow> mget m n = Some d \<or>
      (\<exists>v a. (n, v) \<in> set svs \<and> sr_allocation v = Some a \<and> ad_NumReplicas d = al_numReplicas a)" for m svs
  proof (induction svs arbitrary: m)
    case (Cons nv svs)
    obtain k v where nv: "nv = (k, v)" by fastforce
    have "mget (?f m nv) n = Some d \<Longrightarrow> mget m n = Some d \<or>
        (k = n \<and> (\<exists>a. sr_allocation v = Some a \<and> ad_NumReplicas d = al_numReplicas a))"
      by (auto simp: nv AllocationData_of_def split: option.splits if_splits)
    with Cons.IH [of "?f m nv"] Cons.prems nv show ?case by auto
  qed simp
  from this [of "[]" "servers sys"] assms show ?thesis by (auto simp: GenerateSolution_def Let_def)
qed

lemma optimized_allocs_entry:
  assumes "mget (optimized_allocs now vas sol) k = Some oa"
  shows "\<exists>va d. va \<in> set vas \<and> wa_Name va = k \<and> mget sol (FullName (wa_Name va) (wa_Namespace va)) = Some d \<and>
    oa_NumReplicas oa = ad_NumReplicas d"
proof -
  let ?f = "\<lambda>m va. case CreateOptimizedAlloc now (wa_Name va) (wa_Namespace va) sol of Inl _ \<Rightarrow> m | Inr a \<Rightarrow> mput (wa_Name va) a m"
  have "mget (foldl ?f m vas) k = Some oa \<Longrightarrow> mget m k = Some oa \<or> (\<exists>va d. va \<in> set vas \<and> wa_Name va = k \<and>
      mget sol (FullName (wa_Name va) (wa_Namespace va)) = Some d \<and> oa_NumReplicas oa = ad_NumReplicas d)" for m
  proof (induction vas arbitrary: m)
    case (Cons va vas)
    have "mget (?f m va) k = Some oa \<Longrightarrow> mget m k = Some oa \<or> (wa_Name va = k \<and>
        (\<exists>d. mget sol (FullName (wa_Name va) (wa_Namespace va)) = Some d \<and> oa_NumReplicas oa = ad_NumReplicas d))"
      by (auto simp: CreateOptimizedAlloc_def Let_def split: option.splits if_splits)
    with Cons.IH [of "?f m va"] Cons.prems show ?case by auto
  qed simp
  from this [of "[]"] assms show ?thesis by (simp add: optimized_allocs_def)
qed

lemma Engine_Optimize_entry:
  assumes "Engine_Optimize now (Some spec) sys vas rs = Some (Inr m, sys')" and "os_Unlimited spec" and "wf_map (servers sys)"
    and "mget m k = Some oa"
  shows "\<exists>va s a. va \<in> set vas \<and> wa_Name va = k \<and> mget (servers sys) (FullName (wa_Name va) (wa_Namespace va)) = Some s \<and>
    a \<in> snd ` set (sr_allAllocations s) \<and> oa_NumReplicas oa = al_numReplicas a"
proof -
  let ?sol = "snd (GenerateSolution (AllocateByType (SolveUnlimited sys)))"
  have "m = optimized_allocs now vas ?sol"
    using assms(1,2) by (auto simp: Engine_Optimize_def Manager_Optimize_def Optimizer_Optimize_def Solve_def NewSolver_def Let_def
        split: prod.splits if_splits)
  then obtain va d where va: "va \<in> set vas" "wa_Name va = k" "mget ?sol (FullName (wa_Name va) (wa_Namespace va)) = Some d"
      "oa_NumReplicas oa = ad_NumReplicas d" using optimized_allocs_entry assms(4) by blast
  obtain v a where v: "(FullName (wa_Name va) (wa_Namespace va), v) \<in> set (servers (SolveUnlimited sys))"
      "sr_allocation v = Some a" "ad_NumReplicas d = al_numReplicas a"
    using GenerateSolution_entry [OF va(3)] by (auto simp: AllocateByType_def)
  obtain s where "(FullName (wa_Name va) (wa_Namespace va), s) \<in> set (servers sys)" "a \<in> snd ` set (sr_allAllocations s)"
    using SolveUnlimited_server [OF v(1,2)] by blast
  with va v wf_map_mget [OF assms(3)] show ?thesis by (intro exI [of _ va] exI [of _ s] exI [of _ a]) simp
qed

section \<open>Preparation\<close>

text \<open>What preparation establishes: the optimizer is unlimited, the servers are those of the prepared objects in
  their order, and each of these has an accelerator.\<close>

definition prepared :: "(string \<Rightarrow> string) \<Rightarrow> SystemSpec \<Rightarrow> VariantAutoscaling list \<Rightarrow> bool" where
  "prepared getenv sd ul \<longleftrightarrow> os_Unlimited (sy_Optimizer sd) \<and>
     list_all2 (\<lambda>va s. \<exists>className. s = server_spec getenv va className) ul (sy_Servers sd) \<and>
     (\<forall>va\<in>set ul. cr_Accelerator (st_CurrentAlloc (wa_Status va)) \<noteq> '''')"

lemma add_profiles_fields [simp]:
  "sy_Servers (add_profiles sd m ps) = sy_Servers sd" "sy_Optimizer (add_profiles sd m ps) = sy_Optimizer sd"
proof -
  have one: "AddModelAcceleratorProfileToSystemData sd m p = Inr sd' \<Longrightarrow>
      sy_Servers sd' = sy_Servers sd \<and> sy_Optimizer sd' = sy_Optimizer sd" for sd sd' p
    by (auto simp: AddModelAcceleratorProfileToSystemData_def Let_def split: if_splits sum.splits)
  have "sy_Servers (add_profiles sd m ps) = sy_Servers sd \<and> sy_Optimizer (add_profiles sd m ps) = sy_Optimizer sd"
    unfolding add_profiles_def
    by (rule foldl_inv [where P = "\<lambda>s. sy_Servers s = sy_Servers sd \<and> sy_Optimizer s = sy_Optimizer sd"])
      (auto split: sum.splits dest: one)
  then show "sy_Servers (add_profiles sd m ps) = sy_Servers sd" "sy_Optimizer (add_profiles sd m ps) = sy_Optimizer sd" by simp_all
qed

lemma AddMetrics_accelerator: "AddMetricsToOptStatus prom ctx va d c w = Some (Inr cur, w') \<Longrightarrow> cr_Accelerator cur \<noteq> ''''"
  by (auto simp: AddMetricsToOptStatus_def Let_def split: prod.splits sum.splits list.splits option.splits if_splits)

lemma prepare_found_prepared:
  assumes "prepared (re_Getenv re) sd ul" and "prepare_found re cn cost (sd, ul, vm, w) va = Some (sd', ul', vm', w')"
  shows "prepared (re_Getenv re) sd' ul'"
proof -
  have "(sd' = sd \<and> ul' = ul) \<or> (\<exists>u. cr_Accelerator (st_CurrentAlloc (wa_Status u)) \<noteq> '''' \<and> ul' = ul @ [u] \<and>
      sd' = AddServerInfoToSystemData (re_Getenv re) sd u cn)"
    using assms(2) AddMetrics_accelerator unfolding prepare_found_def
    by (fastforce simp: Let_def split: prod.splits if_splits option.splits sum.splits)
  then show ?thesis
    using assms(1) by (auto simp: prepared_def AddServerInfoToSystemData_def intro!: list_all2_appendI)
qed

lemma prepare_prepared:
  assumes "prepareVariantAutoscalings re vas acc svc (CreateSystemData unm acc svc) w = Some (sd, ul, vm, w')"
  shows "prepared (re_Getenv re) sd ul"
proof -
  let ?P = "\<lambda>(sd, ul, vm, w). prepared (re_Getenv re) sd ul"
  have "?P (sd, ul, vm, w')"
  proof (rule ofoldl_inv [OF assms [unfolded prepareVariantAutoscalings_def], where P = ?P])
    show "?P (CreateSystemData unm acc svc, [], [], w)" by (simp add: prepared_def CreateSystemData_def)
    fix s va s' assume s: "?P s" and p: "prepare_one re acc svc s va = Some s'"
    obtain sd1 ul1 vm1 w1 where s1: "s = (sd1, ul1, vm1, w1)" by (metis prod_cases4)
    have profiles: "prepared (re_Getenv re) (add_profiles sd1 m ps) ul1" for m ps using s by (simp add: s1 prepared_def)
    show "?P s'"
      using p s prepare_found_prepared [OF profiles] unfolding s1 prepare_one_def
      by (fastforce simp: Let_def profiles split: if_splits option.splits sum.splits prod.splits)
  qed
  then show ?thesis by simp
qed

section \<open>Targets\<close>

lemma SetFromSpec_servers:
  "servers (fst (SetFromSpec NewSystem d)) = foldl (\<lambda>m v. mput (ss_Name v) (NewServerFromSpec v) m) [] (sy_Servers d)"
proof -
  have a: "servers (foldl AddAcceleratorFromSpec s xs) = servers s" for s xs
    by (induction xs arbitrary: s) (simp_all add: AddAcceleratorFromSpec_def)
  have m: "servers (foldl SetModel_step s xs) = servers s" for s xs
    by (induction xs arbitrary: s) (simp_all add: SetModel_step_def Let_def)
  have c: "servers (foldl (\<lambda>s c. s\<lparr>serviceClasses := mput (sc_Name c) (NewServiceClassFromSpec c) (serviceClasses s)\<rparr>) s xs) = servers s"
    for s :: System and xs by (induction xs arbitrary: s) simp_all
  have n: "servers (foldl SetCountFromSpec s xs) = servers s" for s xs
    by (induction xs arbitrary: s) (simp_all add: SetCountFromSpec_def)
  have v: "servers (foldl (\<lambda>s v. s\<lparr>servers := mput (ss_Name v) (NewServerFromSpec v) (servers s)\<rparr>) s xs) =
      foldl (\<lambda>m v. mput (ss_Name v) (NewServerFromSpec v) m) (servers s) xs" for s :: System and xs
    by (induction xs arbitrary: s) simp_all
  show ?thesis
    by (simp add: SetFromSpec_def SetAcceleratorsFromSpec_def SetModelsFromSpec_def SetServiceClassesFromSpec_def
        SetServersFromSpec_def SetCapacityFromSpec_def Let_def a m c n v NewSystem_def)
qed

lemma SetFromSpec_server:
  assumes "mget (servers (fst (SetFromSpec NewSystem d))) n = Some s"
  shows "\<exists>v\<in>set (sy_Servers d). ss_Name v = n \<and> s = NewServerFromSpec v"
proof -
  have "mget (foldl (\<lambda>m v. mput (ss_Name v) (NewServerFromSpec v) m) m vs) n = Some s \<Longrightarrow> mget m n = Some s \<or>
      (\<exists>v\<in>set vs. ss_Name v = n \<and> s = NewServerFromSpec v)" for m vs
  proof (induction vs arbitrary: m)
    case (Cons v vs)
    from Cons.IH [of "mput (ss_Name v) (NewServerFromSpec v) m"] Cons.prems show ?case by (auto split: if_splits)
  qed simp
  from this [of "[]"] assms show ?thesis by (simp add: SetFromSpec_servers)
qed

lemma prepared_system:
  assumes "prepared getenv sd ul" and "sys0 = fst (SetFromSpec NewSystem sd)"
  shows "keeping sys0" and "analyzed sys0 sys0" and "\<forall>(g, acc)\<in>set (accelerators sys0). ag_name acc = g"
proof -
  have spec: "\<exists>va cn. va \<in> set ul \<and> v = server_spec getenv va cn" if "v \<in> set (sy_Servers sd)" for v
    using assms(1) that unfolding prepared_def list_all2_conv_all_nth in_set_conv_nth by metis
  have srv: "\<exists>va cn. va \<in> set ul \<and> s = NewServerFromSpec (server_spec getenv va cn) \<and> sr_name s = n" if s: "mget (servers sys0) n = Some s" for n s
  proof -
    obtain v where v: "v \<in> set (sy_Servers sd)" "ss_Name v = n" "s = NewServerFromSpec v"
      using SetFromSpec_server [OF s [unfolded assms(2)]] by blast
    with spec [OF v(1)] show ?thesis by (auto simp: NewServerFromSpec_def Let_def)
  qed
  show "keeping sys0" unfolding keeping_def
  proof (intro allI impI)
    fix n s assume "mget (servers sys0) n = Some s"
    from srv [OF this] obtain va cn where "va \<in> set ul" "s = NewServerFromSpec (server_spec getenv va cn)" "sr_name s = n" by blast
    with assms(1) show "sr_name s = n \<and> sr_keepAccelerator s \<and> (\<exists>cur. sr_curAllocation s = Some cur \<and> al_accelerator cur \<noteq> '''')"
      by (auto simp: prepared_def NewServerFromSpec_def server_spec_def server_alloc_data_def AllocationFromData_def Let_def)
  qed
  have "wf_map (servers sys0)" unfolding assms(2) SetFromSpec_servers by (rule foldl_inv [where P = wf_map]) simp_all
  moreover have "sr_allAllocations s = []" if "mget (servers sys0) n = Some s" for n s
    using srv [OF that] by (auto simp: NewServerFromSpec_def Let_def)
  ultimately show "analyzed sys0 sys0" by (auto simp: analyzed_def)
  show "\<forall>(g, acc)\<in>set (accelerators sys0). ag_name acc = g"
    using set_from_spec_wf [of NewSystem sd] assms(2) by (auto simp: system_wf_def NewSystem_def)
qed

lemma distinct_full_names:
  "distinct (map f xs) \<Longrightarrow> x \<in> set xs \<Longrightarrow> y \<in> set xs \<Longrightarrow> f x = f y \<Longrightarrow> x = y"
  by (auto simp: distinct_map dest: inj_onD)

lemma prepared_server:
  assumes "prepared getenv sd ul" and "distinct (map (\<lambda>va. FullName (wa_Name va) (wa_Namespace va)) ul)" and "va \<in> set ul"
    and "mget (servers (fst (SetFromSpec NewSystem sd))) (FullName (wa_Name va) (wa_Namespace va)) = Some s"
  shows "\<exists>className. s = NewServerFromSpec (server_spec getenv va className)"
proof -
  obtain v where v: "v \<in> set (sy_Servers sd)" "ss_Name v = FullName (wa_Name va) (wa_Namespace va)" "s = NewServerFromSpec v"
    using SetFromSpec_server [OF assms(4)] by blast
  obtain va' cn where va': "va' \<in> set ul" "v = server_spec getenv va' cn"
    using assms(1) v(1) unfolding prepared_def list_all2_conv_all_nth in_set_conv_nth by metis
  with v(2) have "FullName (wa_Name va') (wa_Namespace va') = FullName (wa_Name va) (wa_Namespace va)" by (simp add: server_spec_def)
  from distinct_full_names [OF assms(2) va'(1) assms(3) this] va'(2) v(3) show ?thesis by blast
qed

lemma optimize_model_entry:
  assumes "optimize_model now sd ul vm vas = Some (Inr ts)" and "mget ts k = Some t"
  shows "\<exists>rs sys m sys' oa. analyze_servers vm (fst (SetFromSpec NewSystem sd)) = Some (rs, sys) \<and>
    Engine_Optimize now (Some (sy_Optimizer sd)) sys ul rs = Some (Inr m, sys') \<and> mget m k = Some oa \<and> t = oa_NumReplicas oa"
proof -
  have spec: "SetFromSpec NewSystem sd = (fst (SetFromSpec NewSystem sd), sy_Optimizer sd)" by (simp add: SetFromSpec_def Let_def)
  obtain rs sys m sys' where r: "analyze_servers vm (fst (SetFromSpec NewSystem sd)) = Some (rs, sys)"
      "Engine_Optimize now (Some (sy_Optimizer sd)) sys ul rs = Some (Inr m, sys')"
      "ts = foldl (\<lambda>ts va. case mget m (wa_Name va) of None \<Rightarrow> ts | Some a \<Rightarrow> mput (wa_Name va) (oa_NumReplicas a) ts) [] vas"
    using assms(1) unfolding optimize_model_def
    by (subst (asm) spec) (auto split: option.splits sum.splits)
  let ?P = "\<lambda>ts. mget ts k = Some t \<longrightarrow> (\<exists>oa. mget m k = Some oa \<and> t = oa_NumReplicas oa)"
  have "?P ts" unfolding r(3) by (rule foldl_inv [where P = ?P]) (auto split: option.splits)
  with assms(2) r(1,2) show ?thesis by blast
qed


text \<open>One idle variant with a profile for its accelerator and a service level.\<close>

definition idle_va :: VariantAutoscaling where
  "idle_va = (demo_va ''a'' ''5'' 1)\<lparr>wa_Spec := \<lparr>vsp_ModelID = ''llama'',
     vsp_ModelProfile = [\<lparr>ap_Acc = ''A100'', ap_AccCount = 1,
       ap_PerfParms = \<lparr>pp_DecodeParms = [(''alpha'', ''7''), (''beta'', ''1'')],
         pp_PrefillParms = [(''gamma'', ''5''), (''delta'', ''1'')]\<rparr>, ap_MaxBatchSize = 4\<rparr>],
     vsp_VariantCost = ''5''\<rparr>\<rparr>"

definition idle_class :: YamlServiceClass where
  "idle_class = \<lparr>ysc_Name = ''premium'', ysc_Priority = 1,
     ysc_Data = [\<lparr>sce_Model = ''llama'', sce_SLOTPOT = 24, sce_SLOTTFT = 500\<rparr>]\<rparr>"

definition idle_re :: "VariantAutoscaling list ReconcileEnv" where
  "idle_re = (demo_re (demo_env [demo_deployment ''a'' 1] [idle_va] [(''a-1'', Fin 0)]))
     \<lparr>re_UnmarshalServiceClass := \<lambda>_. Inr idle_class\<rparr>"

definition idle_acc :: "(string, (string, string) gomap) gomap" where
  "idle_acc = [(''A100'', [(''device'', ''A100''), (''cost'', ''1'')])]"

definition idle_prep :: "VariantAutoscaling list prep option" where
  "idle_prep = prepareVariantAutoscalings idle_re [idle_va] idle_acc [(''premium'', ''text'')]
     (CreateSystemData (\<lambda>_. Inr idle_class) idle_acc [(''premium'', ''text'')]) []"

lemma idle_prep_run:
  "case idle_prep of None \<Rightarrow> False
   | Some (sd, ul, vm, w) \<Rightarrow> map (\<lambda>va. FullName (wa_Name va) (wa_Namespace va)) ul = [''a:ns''] \<and>
       optimize_model 1 sd ul vm [idle_va] = Some (Inr [(''a'', 1)])"
  by code_simp


end
