(* ===== verification/Go_Url.thy ===== *)
theory Go_Url
  imports Go_Encoding
begin

text \<open>
  What the program uses of Go's \<^verbatim>\<open>net/url\<close> and \<^verbatim>\<open>strings\<close>: \<^verbatim>\<open>url.Parse\<close> with its checks of the scheme, the
  authority and the percent escapes, and \<^verbatim>\<open>strings.TrimSpace\<close>. Strings are sequences of bytes. The
  lemmas say which texts parse to a URL with a given scheme, and that trimming removes only white
  space.
\<close>

section \<open>Cutting\<close>

text \<open>\<^verbatim>\<open>strings.Cut\<close> and \<^verbatim>\<open>strings.LastIndex\<close> at a character.\<close>

definition cut :: "char \<Rightarrow> string \<Rightarrow> string \<times> string" where
  "cut c s = (takeWhile (\<lambda>x. x \<noteq> c) s, drop 1 (dropWhile (\<lambda>x. x \<noteq> c) s))"

definition last_cut :: "char \<Rightarrow> string \<Rightarrow> (string \<times> string) option" where
  "last_cut c s =
     (if c \<in> set s
      then let r = rev s in Some (rev (drop 1 (dropWhile (\<lambda>x. x \<noteq> c) r)), rev (takeWhile (\<lambda>x. x \<noteq> c) r))
      else None)"

definition has_prefix :: "string \<Rightarrow> string \<Rightarrow> bool" where
  "has_prefix p s \<longleftrightarrow> take (length p) s = p"

section \<open>Escapes\<close>

datatype encoding = EncodePath | EncodeHost | EncodeZone | EncodeUserPassword | EncodeFragment

definition is_letter :: "char \<Rightarrow> bool" where
  "is_letter c \<longleftrightarrow> (let n = (of_char c :: int) in (97 \<le> n \<and> n \<le> 122) \<or> (65 \<le> n \<and> n \<le> 90))"

text \<open>Whether a byte of a host or zone must be escaped.\<close>

definition host_escape :: "char \<Rightarrow> bool" where
  "host_escape c \<longleftrightarrow> \<not> (is_letter c \<or> is_digit c \<or> c \<in> set ''!$&()*+,;=:[]<>'' \<or> of_char c = (34 :: int) \<or>
     of_char c = (39 :: int) \<or> c \<in> set ''-_.~'')"

definition in_host :: "encoding \<Rightarrow> bool" where
  "in_host mode \<longleftrightarrow> mode = EncodeHost \<or> mode = EncodeZone"

text \<open>The decoded text, or no value for a malformed or forbidden escape or a forbidden byte.\<close>

fun unescape :: "encoding \<Rightarrow> string \<Rightarrow> string option" where
  "unescape mode [] = Some []"
| "unescape mode (c # s) =
     (if c = CHR ''%'' then
        (case s of
           a # b # rest \<Rightarrow>
             (case (hex_val a, hex_val b) of
                (Some h, Some l) \<Rightarrow>
                  if mode = EncodeHost \<and> h < 8 \<and> [a, b] \<noteq> ''25'' then None
                  else if mode = EncodeZone \<and> [a, b] \<noteq> ''25'' \<and> 16 * h + l \<noteq> 32 \<and> host_escape (char_of (16 * h + l)) then None
                  else map_option ((#) (char_of (16 * h + l))) (unescape mode rest)
              | _ \<Rightarrow> None)
         | _ \<Rightarrow> None)
      else if in_host mode \<and> of_char c < (128 :: int) \<and> host_escape c then None
      else map_option ((#) c) (unescape mode s))"

section \<open>The authority\<close>

definition valid_optional_port :: "string \<Rightarrow> bool" where
  "valid_optional_port port \<longleftrightarrow> (case port of [] \<Rightarrow> True | c # ds \<Rightarrow> c = CHR '':'' \<and> list_all is_digit ds)"

definition valid_userinfo :: "string \<Rightarrow> bool" where
  "valid_userinfo s \<longleftrightarrow> list_all (\<lambda>c. is_letter c \<or> is_digit c \<or> c \<in> set ''-._:~!$&()*+,;=%@'' \<or> of_char c = (39 :: int)) s"

text \<open>The text before the first occurrence of a word, and the rest from there.\<close>

fun split_at :: "string \<Rightarrow> string \<Rightarrow> (string \<times> string) option" where
  "split_at w [] = (if w = [] then Some ([], []) else None)"
| "split_at w (c # s) =
     (if has_prefix w (c # s) then Some ([], c # s) else map_option (map_prod ((#) c) id) (split_at w s))"

definition parse_host :: "string \<Rightarrow> string option" where
  "parse_host host =
     (case host of
        CHR ''['' # _ \<Rightarrow>
          (case last_cut CHR '']'' host of
             None \<Rightarrow> None
           | Some (literal, port) \<Rightarrow>
               if \<not> valid_optional_port port then None
               else case split_at ''%25'' literal of
                 None \<Rightarrow> unescape EncodeHost host
               | Some (address, zone) \<Rightarrow>
                   (case (unescape EncodeHost address, unescape EncodeZone zone, unescape EncodeHost (CHR '']'' # port)) of
                      (Some h1, Some h2, Some h3) \<Rightarrow> Some (h1 @ h2 @ h3)
                    | _ \<Rightarrow> None))
      | _ \<Rightarrow>
          (case last_cut CHR '':'' host of
             Some (_, port) \<Rightarrow> if list_all is_digit port then unescape EncodeHost host else None
           | None \<Rightarrow> unescape EncodeHost host))"

text \<open>The host of an authority; the user is only checked.\<close>

definition parse_authority :: "string \<Rightarrow> string option" where
  "parse_authority authority =
     (case last_cut CHR ''@'' authority of
        None \<Rightarrow> parse_host authority
      | Some (userinfo, host) \<Rightarrow>
          (case parse_host host of
             None \<Rightarrow> None
           | Some h \<Rightarrow>
               let (username, password) = cut CHR '':'' userinfo
               in if valid_userinfo userinfo \<and> unescape EncodeUserPassword username \<noteq> None \<and>
                     unescape EncodeUserPassword password \<noteq> None
                  then Some h else None))"

section \<open>URLs\<close>

record URL =
  url_Scheme :: string
  url_Opaque :: string
  url_Host :: string

text \<open>The loop of \<^verbatim>\<open>getScheme\<close> after the first character: the characters seen so far are in reverse.\<close>

fun scheme_loop :: "string \<Rightarrow> string \<Rightarrow> string \<Rightarrow> string \<times> string" where
  "scheme_loop rawURL seen [] = ('''', rawURL)"
| "scheme_loop rawURL seen (c # s) =
     (if is_letter c \<or> is_digit c \<or> c \<in> set ''+-.'' then scheme_loop rawURL (c # seen) s
      else if c = CHR '':'' then (rev seen, s) else ('''', rawURL))"

definition getScheme :: "string \<Rightarrow> (string \<times> string) option" where
  "getScheme rawURL =
     (case rawURL of
        [] \<Rightarrow> Some ('''', rawURL)
      | c # s \<Rightarrow>
          if c = CHR '':'' then None
          else if is_letter c then Some (scheme_loop rawURL [c] s) else Some ('''', rawURL))"

definition has_ctl :: "string \<Rightarrow> bool" where
  "has_ctl s \<longleftrightarrow> list_ex (\<lambda>c. of_char c < (32 :: int) \<or> of_char c = (127 :: int)) s"

definition parse_rest :: "string \<Rightarrow> string \<Rightarrow> URL option" where
  "parse_rest scheme rest =
     (let rest = fst (cut CHR ''?'' rest)
      in if \<not> has_prefix ''/'' rest \<and> scheme \<noteq> '''' then Some \<lparr>url_Scheme = scheme, url_Opaque = rest, url_Host = ''''\<rparr>
         else if \<not> has_prefix ''/'' rest \<and> CHR '':'' \<in> set (fst (cut CHR ''/'' rest)) then None
         else if (scheme \<noteq> '''' \<or> \<not> has_prefix ''///'' rest) \<and> has_prefix ''//'' rest then
           (let authority = takeWhile (\<lambda>c. c \<noteq> CHR ''/'') (drop 2 rest); path = dropWhile (\<lambda>c. c \<noteq> CHR ''/'') (drop 2 rest)
            in case parse_authority authority of
                 None \<Rightarrow> None
               | Some host \<Rightarrow>
                   if unescape EncodePath path = None then None
                   else Some \<lparr>url_Scheme = scheme, url_Opaque = '''', url_Host = host\<rparr>)
         else if unescape EncodePath rest = None then None
         else Some \<lparr>url_Scheme = scheme, url_Opaque = '''', url_Host = ''''\<rparr>)"

text \<open>\<^verbatim>\<open>url.Parse\<close>; no value is an error.\<close>

definition parse_url :: "string \<Rightarrow> URL option" where
  "parse_url rawURL =
     (let (u, frag) = cut CHR ''#'' rawURL
      in if has_ctl u then None
         else if u = ''*'' then
           (if unescape EncodeFragment frag = None then None else Some \<lparr>url_Scheme = '''', url_Opaque = '''', url_Host = ''''\<rparr>)
         else case getScheme u of
           None \<Rightarrow> None
         | Some (scheme, rest) \<Rightarrow>
             (case parse_rest (map lower scheme) rest of
                None \<Rightarrow> None
              | Some url \<Rightarrow> if unescape EncodeFragment frag = None then None else Some url))"

section \<open>White space\<close>

text \<open>The encodings of the white space characters of Unicode.\<close>

definition space_encodings :: "string list" where
  "space_encodings = map (map char_of)
     ([[9], [10], [11], [12], [13], [32], [194, 133], [194, 160], [225, 154, 128], [226, 128, 168], [226, 128, 169],
       [226, 128, 175], [226, 129, 159], [227, 128, 128]] @ map (\<lambda>n. [226, 128, 128 + n]) ([0..10] :: int list))"

fun trim_left :: "nat \<Rightarrow> string list \<Rightarrow> string \<Rightarrow> string" where
  "trim_left 0 ws s = s"
| "trim_left (Suc n) ws s =
     (case find (\<lambda>w. has_prefix w s) ws of None \<Rightarrow> s | Some w \<Rightarrow> trim_left n ws (drop (length w) s))"

definition TrimSpace :: "string \<Rightarrow> string" where
  "TrimSpace s =
     (let s = trim_left (length s) space_encodings s
      in rev (trim_left (length s) (map rev space_encodings) (rev s)))"

section \<open>Schemes\<close>

lemma scheme_loop_split: "scheme_loop raw seen s = (sch, rest) \<Longrightarrow> sch = '''' \<or> rev seen @ s = sch @ CHR '':'' # rest"
proof (induction s arbitrary: seen)
  case (Cons c s)
  show ?case
  proof (cases "is_letter c \<or> is_digit c \<or> c \<in> set ''+-.''")
    case True
    then have "scheme_loop raw (c # seen) s = (sch, rest)" using Cons.prems by (simp only: scheme_loop.simps if_True)
    from Cons.IH [OF this] show ?thesis by simp
  next
    case False
    then show ?thesis using Cons.prems by (simp only: scheme_loop.simps if_False split: if_splits) auto
  qed
qed simp

lemma getScheme_split: "getScheme s = Some (sch, rest) \<Longrightarrow> sch \<noteq> '''' \<Longrightarrow> s = sch @ CHR '':'' # rest"
  using scheme_loop_split by (force simp: getScheme_def split: list.splits if_splits)

lemma parse_rest_scheme: "parse_rest sch rest = Some u \<Longrightarrow> url_Scheme u = sch"
  by (auto simp: parse_rest_def Let_def split: if_splits option.splits)

text \<open>A URL with a scheme begins with it, in any case, and a colon.\<close>

lemma parse_url_scheme:
  assumes "parse_url s = Some u" and "url_Scheme u \<noteq> ''''"
  shows "\<exists>sch rest. s = sch @ CHR '':'' # rest \<and> map lower sch = url_Scheme u"
proof -
  obtain v frag where c: "cut CHR ''#'' s = (v, frag)" by fastforce
  then have s: "\<exists>t. s = v @ t" by (auto simp: cut_def) (metis takeWhile_dropWhile_id)
  obtain sch rest where g: "getScheme v = Some (sch, rest)" "parse_rest (map lower sch) rest = Some u"
    using assms by (auto simp: parse_url_def c Let_def split: if_splits option.splits prod.splits)
  then have u: "url_Scheme u = map lower sch" by (simp add: parse_rest_scheme)
  then have "v = sch @ CHR '':'' # rest" using getScheme_split [OF g(1)] assms(2) by simp
  with s u show ?thesis by auto
qed

corollary parse_url_https:
  assumes "parse_url s = Some u" and "url_Scheme u = ''https''"
  shows "map lower (take 5 s) = ''https'' \<and> s ! 5 = CHR '':''"
proof -
  obtain sch rest where s: "s = sch @ CHR '':'' # rest" "map lower sch = ''https''"
    using parse_url_scheme [OF assms(1)] assms(2) by (metis list.distinct(1))
  then have "length sch = length ''https''" by (metis length_map)
  with s show ?thesis by (simp add: nth_append)
qed

section \<open>Trimming\<close>

text \<open>What is trimmed from the left is a sequence of the given words.\<close>

lemma trim_left_words:
  "\<exists>us. set us \<subseteq> set ws \<and> s = concat us @ trim_left n ws s"
proof (induction n arbitrary: s)
  case (Suc n)
  show ?case
  proof (cases "find (\<lambda>w. has_prefix w s) ws")
    case None
    then show ?thesis by (intro exI [of _ "[]"]) simp
  next
    case (Some w)
    then have w: "w \<in> set ws" "s = w @ drop (length w) s"
      by (auto simp: find_Some_iff has_prefix_def) (metis append_take_drop_id)
    obtain us where "set us \<subseteq> set ws" "drop (length w) s = concat us @ trim_left n ws (drop (length w) s)" using Suc by blast
    then show ?thesis using w Some by (intro exI [of _ "w # us"]) simp
  qed
qed (auto intro: exI [of _ "[]"])

lemma trim_left_done:
  assumes "[] \<notin> set ws" and "length s \<le> n"
  shows "find (\<lambda>w. has_prefix w (trim_left n ws s)) ws = None"
  using assms(2)
proof (induction n arbitrary: s)
  case 0
  then show ?case using assms(1) by (auto simp: find_None_iff has_prefix_def)
next
  case (Suc n)
  show ?case
  proof (cases "find (\<lambda>w. has_prefix w s) ws")
    case (Some w)
    then have "w \<in> set ws" by (auto simp: find_Some_iff)
    then have "w \<noteq> []" using assms(1) by auto
    then have "length (drop (length w) s) \<le> n" using Suc.prems by (cases w) simp_all
    with Suc.IH Some show ?thesis by simp
  qed simp
qed

text \<open>Trimming removes white space at both ends, and leaves none at the end.\<close>

lemma TrimSpace_split:
  "\<exists>us vs. set us \<subseteq> set space_encodings \<and> set vs \<subseteq> set space_encodings \<and> s = concat us @ TrimSpace s @ concat vs"
proof -
  let ?t = "trim_left (length s) space_encodings s"
  obtain us where us: "set us \<subseteq> set space_encodings" "s = concat us @ ?t" using trim_left_words by blast
  obtain vs where vs: "set vs \<subseteq> set (map rev space_encodings)"
      "rev ?t = concat vs @ trim_left (length ?t) (map rev space_encodings) (rev ?t)" using trim_left_words by blast
  have "?t = TrimSpace s @ concat (map rev (rev vs))"
    using arg_cong [OF vs(2), of rev] by (simp add: TrimSpace_def Let_def rev_concat)
  moreover have "set (map rev (rev vs)) \<subseteq> set space_encodings" using vs(1) by auto
  ultimately show ?thesis using us by metis
qed

end
