(* ===== verification/Wva_Setup.thy ===== *)
theory Wva_Setup
  imports Wva_Reconcile Go_Url
begin

text \<open>
  Setting up the controller: the configuration of the Prometheus client
  (\<^verbatim>\<open>internal/utils/tls.go\<close>, \<^verbatim>\<open>internal/utils/prometheus_transport.go\<close>, \<^verbatim>\<open>getPrometheusConfig\<close> and its parts) and
  \<^verbatim>\<open>SetupWithManager\<close>. The file system, the parsers of certificates, the constructors of the Prometheus client and
  the controller builder are arguments. The theorem says what a successful set-up guarantees about
  the connection.
\<close>

section \<open>Configuration\<close>

record PrometheusConfig =
  pc_BaseURL :: string
  pc_InsecureSkipVerify :: bool
  pc_CACertPath :: string
  pc_ClientCertPath :: string
  pc_ClientKeyPath :: string
  pc_ServerName :: string
  pc_BearerToken :: string
  pc_TokenPath :: string

definition ParsePrometheusConfigFromEnv :: "(string \<Rightarrow> string) \<Rightarrow> PrometheusConfig" where
  "ParsePrometheusConfigFromEnv getenv =
     \<lparr>pc_BaseURL = getenv ''PROMETHEUS_BASE_URL'',
      pc_InsecureSkipVerify = (getenv ''PROMETHEUS_TLS_INSECURE_SKIP_VERIFY'' = ''true''),
      pc_CACertPath = getenv ''PROMETHEUS_CA_CERT_PATH'', pc_ClientCertPath = getenv ''PROMETHEUS_CLIENT_CERT_PATH'',
      pc_ClientKeyPath = getenv ''PROMETHEUS_CLIENT_KEY_PATH'', pc_ServerName = getenv ''PROMETHEUS_SERVER_NAME'',
      pc_BearerToken = getenv ''PROMETHEUS_BEARER_TOKEN'', pc_TokenPath = getenv ''PROMETHEUS_TOKEN_PATH''\<rparr>"

definition GetConfigValue :: "(string, string) gomap \<Rightarrow> string \<Rightarrow> string \<Rightarrow> string" where
  "GetConfigValue data key def = (case mget data key of Some v \<Rightarrow> v | None \<Rightarrow> def)"

definition getPrometheusConfigFromEnv :: "(string \<Rightarrow> string) \<Rightarrow> PrometheusConfig option" where
  "getPrometheusConfigFromEnv getenv =
     (if getenv ''PROMETHEUS_BASE_URL'' = '''' then None else Some (ParsePrometheusConfigFromEnv getenv))"

definition config_map_prometheus :: "ConfigMap \<Rightarrow> PrometheusConfig option" where
  "config_map_prometheus data =
     (case mget data ''PROMETHEUS_BASE_URL'' of
        None \<Rightarrow> None
      | Some promAddr \<Rightarrow>
          if promAddr = '''' then None
          else Some \<lparr>pc_BaseURL = promAddr,
            pc_InsecureSkipVerify = (GetConfigValue data ''PROMETHEUS_TLS_INSECURE_SKIP_VERIFY'' '''' = ''true''),
            pc_CACertPath = GetConfigValue data ''PROMETHEUS_CA_CERT_PATH'' '''',
            pc_ClientCertPath = GetConfigValue data ''PROMETHEUS_CLIENT_CERT_PATH'' '''',
            pc_ClientKeyPath = GetConfigValue data ''PROMETHEUS_CLIENT_KEY_PATH'' '''',
            pc_ServerName = GetConfigValue data ''PROMETHEUS_SERVER_NAME'' '''',
            pc_BearerToken = (case mget data ''PROMETHEUS_BEARER_TOKEN'' of Some bearerToken \<Rightarrow> bearerToken | None \<Rightarrow> ''''),
            pc_TokenPath = ''''\<rparr>)"

definition getPrometheusConfigFromConfigMap ::
  "'w Env \<Rightarrow> 'w \<Rightarrow> (message + PrometheusConfig option) \<times> 'w" where
  "getPrometheusConfigFromConfigMap env w =
     (let (err, cm, w) = GetConfigMapWithBackoff (ev_Client env) configMapName (ev_Namespace env) w
      in case err of
           Some e \<Rightarrow> (Inl (sprintf ''failed to get ConfigMap for Prometheus config: %w'' [FMsg (kmessage e)]), w)
         | None \<Rightarrow> (Inr (config_map_prometheus cm), w))"

definition getPrometheusConfig ::
  "(string \<Rightarrow> string) \<Rightarrow> 'w Env \<Rightarrow> 'w \<Rightarrow> (message + PrometheusConfig) \<times> 'w" where
  "getPrometheusConfig getenv env w =
     (case getPrometheusConfigFromEnv getenv of
        Some config \<Rightarrow> (Inr config, w)
      | None \<Rightarrow>
          (case getPrometheusConfigFromConfigMap env w of
             (Inl err, w) \<Rightarrow> (Inl (sprintf ''failed to get config from ConfigMap: %w'' [FMsg err]), w)
           | (Inr (Some config), w) \<Rightarrow> (Inr config, w)
           | (Inr None, w) \<Rightarrow> (Inl (sprintf (''no Prometheus configuration found. Please set PROMETHEUS_BASE_URL '' @
                 ''environment variable or configure via ConfigMap'') []), w)))"

section \<open>Transport security\<close>

text \<open>The file system and the certificate parsers: whether a path is known not to exist, the bytes of a
  file, whether a text holds a certificate, and a certificate with its key. A pool of
  certificates stands for the text it was read from.\<close>

record 'w Files =
  fl_NotExist :: "string \<Rightarrow> 'w \<Rightarrow> bool \<times> 'w"
  fl_ReadFile :: "string \<Rightarrow> 'w \<Rightarrow> (message + string) \<times> 'w"
  fl_CertsFromPEM :: "string \<Rightarrow> bool"
  fl_LoadX509KeyPair :: "string \<Rightarrow> string \<Rightarrow> 'w \<Rightarrow> (message + string) \<times> 'w"

record TLSConfig =
  tc_InsecureSkipVerify :: bool
  tc_ServerName :: string
  tc_MinVersion :: int
  tc_RootCAs :: "string option"
  tc_Certificates :: "string list"

definition VersionTLS12 :: int where "VersionTLS12 = 771"

text \<open>The check of one certificate file.\<close>

definition stat_file :: "'w Files \<Rightarrow> string \<Rightarrow> string \<Rightarrow> message option \<times> 'w \<Rightarrow> message option \<times> 'w" where
  "stat_file files what path st =
     (case st of
        (Some err, w) \<Rightarrow> (Some err, w)
      | (None, w) \<Rightarrow>
          if path = '''' then (None, w)
          else let (missing, w) = fl_NotExist files path w
               in (if missing then Some (sprintf (what @ '' file not found: %s'') [FStr path]) else None, w))"

definition ValidateTLSConfig :: "'w Files \<Rightarrow> PrometheusConfig \<Rightarrow> 'w \<Rightarrow> message option \<times> 'w" where
  "ValidateTLSConfig files promConfig w =
     (if (case parse_url (pc_BaseURL promConfig) of None \<Rightarrow> True | Some u \<Rightarrow> url_Scheme u \<noteq> ''https'')
      then (Some (sprintf ''HTTPS is required - URL must use https:// scheme: %s'' [FStr (pc_BaseURL promConfig)]), w)
      else if pc_InsecureSkipVerify promConfig then (None, w)
      else stat_file files ''client key'' (pc_ClientKeyPath promConfig)
             (stat_file files ''client certificate'' (pc_ClientCertPath promConfig)
               (stat_file files ''CA certificate'' (pc_CACertPath promConfig) (None, w))))"

definition load_ca :: "'w Files \<Rightarrow> string \<Rightarrow> 'w \<Rightarrow> (message + string option) \<times> 'w" where
  "load_ca files path w =
     (if path = '''' then (Inr None, w)
      else case fl_ReadFile files path w of
        (Inl err, w) \<Rightarrow> (Inl (sprintf ''failed to read CA certificate from %s: %w'' [FStr path, FMsg err]), w)
      | (Inr caCert, w) \<Rightarrow>
          (if fl_CertsFromPEM files caCert then Inr (Some caCert)
           else Inl (sprintf ''failed to parse CA certificate from %s'' [FStr path]), w))"

definition load_client ::
  "'w Files \<Rightarrow> string \<Rightarrow> string \<Rightarrow> 'w \<Rightarrow> (message + string list) \<times> 'w" where
  "load_client files certPath keyPath w =
     (if certPath \<noteq> '''' \<and> keyPath \<noteq> ''''
      then case fl_LoadX509KeyPair files certPath keyPath w of
        (Inl err, w) \<Rightarrow> (Inl (sprintf ''failed to load client certificate from %s and key from %s: %w''
            [FStr certPath, FStr keyPath, FMsg err]), w)
      | (Inr cert, w) \<Rightarrow> (Inr [cert], w)
      else (Inr [], w))"

definition CreateTLSConfig ::
  "'w Files \<Rightarrow> PrometheusConfig option \<Rightarrow> 'w \<Rightarrow> (message + TLSConfig option) \<times> 'w" where
  "CreateTLSConfig files promConfig w =
     (case promConfig of
        None \<Rightarrow> (Inr None, w)
      | Some c \<Rightarrow>
          (case load_ca files (pc_CACertPath c) w of
             (Inl err, w) \<Rightarrow> (Inl err, w)
           | (Inr rootCAs, w) \<Rightarrow>
               (case load_client files (pc_ClientCertPath c) (pc_ClientKeyPath c) w of
                  (Inl err, w) \<Rightarrow> (Inl err, w)
                | (Inr certificates, w) \<Rightarrow>
                    (Inr (Some \<lparr>tc_InsecureSkipVerify = pc_InsecureSkipVerify c, tc_ServerName = pc_ServerName c,
                       tc_MinVersion = VersionTLS12, tc_RootCAs = rootCAs, tc_Certificates = certificates\<rparr>), w))))"

section \<open>Requests\<close>

text \<open>A round tripper is the HTTP transport with its TLS configuration, or a wrapper that adds a token. The
  transport sends a request with its headers.\<close>

datatype RoundTripper = HttpTransport "TLSConfig option" | BearerTokenRoundTripper RoundTripper string

type_synonym Header = "(string, string list) gomap"

primrec RoundTrip :: "(TLSConfig option \<Rightarrow> Header \<Rightarrow> 'w \<Rightarrow> 'r) \<Rightarrow> RoundTripper \<Rightarrow> Header \<Rightarrow> 'w \<Rightarrow> 'r" where
  "RoundTrip send (HttpTransport tls) header w = send tls header w"
| "RoundTrip send (BearerTokenRoundTripper base token) header w =
     RoundTrip send base (mput ''Authorization'' [''Bearer '' @ token] header) w"

definition CreatePrometheusTransport ::
  "'w Files \<Rightarrow> PrometheusConfig \<Rightarrow> 'w \<Rightarrow> (message + RoundTripper) \<times> 'w" where
  "CreatePrometheusTransport files config w =
     (case CreateTLSConfig files (Some config) w of
        (Inl err, w) \<Rightarrow> (Inl err, w)
      | (Inr tlsConfig, w) \<Rightarrow> (Inr (HttpTransport tlsConfig), w))"

text \<open>The token: the configured one, or else the trimmed contents of the token file.\<close>

definition bearer_token :: "'w Files \<Rightarrow> PrometheusConfig \<Rightarrow> 'w \<Rightarrow> (message + string) \<times> 'w" where
  "bearer_token files config w =
     (if pc_BearerToken config = '''' \<and> pc_TokenPath config \<noteq> ''''
      then case fl_ReadFile files (pc_TokenPath config) w of
        (Inl err, w) \<Rightarrow> (Inl (sprintf ''failed to read bearer token from %s: %w'' [FStr (pc_TokenPath config), FMsg err]), w)
      | (Inr tokenBytes, w) \<Rightarrow> (Inr (TrimSpace tokenBytes), w)
      else (Inr (pc_BearerToken config), w))"

record ApiConfig =
  ac_Address :: string
  ac_RoundTripper :: RoundTripper

definition CreatePrometheusClientConfig ::
  "'w Files \<Rightarrow> PrometheusConfig \<Rightarrow> 'w \<Rightarrow> (message + ApiConfig) \<times> 'w" where
  "CreatePrometheusClientConfig files config w =
     (case CreatePrometheusTransport files config w of
        (Inl err, w) \<Rightarrow> (Inl err, w)
      | (Inr transport, w) \<Rightarrow>
          (case bearer_token files config w of
             (Inl err, w) \<Rightarrow> (Inl err, w)
           | (Inr bearerToken, w) \<Rightarrow>
               (Inr \<lparr>ac_Address = pc_BaseURL config,
                  ac_RoundTripper = (if bearerToken \<noteq> '''' then BearerTokenRoundTripper transport bearerToken else transport)\<rparr>, w)))"

section \<open>Connecting\<close>

text \<open>The query that tests the connection; every failure is retried.\<close>

definition up_condition :: "'w Prom \<Rightarrow> ('w, unit) poll_condition" where
  "up_condition promAPI s =
     (case pm_Query promAPI None ''up'' (pm_Now promAPI (snd s)) (snd s) of
        (Inl err, w) \<Rightarrow> (Inr False, (), w)
      | (Inr val, w) \<Rightarrow> (Inr True, (), w))"

definition ValidatePrometheusAPIWithBackoff ::
  "('w, unit) waiter \<Rightarrow> 'w Prom \<Rightarrow> Backoff \<Rightarrow> 'w \<Rightarrow> message option \<times> 'w" where
  "ValidatePrometheusAPIWithBackoff wait promAPI backoff w =
     (let (err, _, w) = wait backoff (up_condition promAPI) ((), w) in (map_option kmessage err, w))"

definition ValidatePrometheusAPI :: "('w, unit) waiter \<Rightarrow> 'w Prom \<Rightarrow> 'w \<Rightarrow> message option \<times> 'w" where
  "ValidatePrometheusAPI wait promAPI w = ValidatePrometheusAPIWithBackoff wait promAPI PrometheusBackoff w"

text \<open>The environment of the set-up: the constructor of a client from its configuration, the polling loop, and the
  builder that registers the controller with the manager.\<close>

record 'w SetupEnv =
  se_Env :: "'w Env"
  se_Getenv :: "string \<Rightarrow> string"
  se_Files :: "'w Files"
  se_NewClient :: "ApiConfig \<Rightarrow> message + 'w Prom"
  se_Wait :: "('w, unit) waiter"
  se_Build :: "'w \<Rightarrow> message option \<times> 'w"

text \<open>The error, the client stored in the reconciler, and the world.\<close>

definition SetupWithManager :: "'w SetupEnv \<Rightarrow> 'w \<Rightarrow> message option \<times> 'w Prom option \<times> 'w" where
  "SetupWithManager se w =
     (case getPrometheusConfig (se_Getenv se) (se_Env se) w of
        (Inl err, w) \<Rightarrow> (Some (sprintf ''failed to get Prometheus configuration: %w'' [FMsg err]), None, w)
      | (Inr promConfig, w) \<Rightarrow>
          (case ValidateTLSConfig (se_Files se) promConfig w of
             (Some err, w) \<Rightarrow> (Some (sprintf ''TLS configuration validation failed: %w'' [FMsg err]), None, w)
           | (None, w) \<Rightarrow>
               (case CreatePrometheusClientConfig (se_Files se) promConfig w of
                  (Inl err, w) \<Rightarrow> (Some (sprintf ''failed to create prometheus client config: %w'' [FMsg err]), None, w)
                | (Inr promClientConfig, w) \<Rightarrow>
                    (case se_NewClient se promClientConfig of
                       Inl err \<Rightarrow> (Some (sprintf ''failed to create prometheus client: %w'' [FMsg err]), None, w)
                     | Inr promAPI \<Rightarrow>
                         (case ValidatePrometheusAPI (se_Wait se) promAPI w of
                            (Some err, w) \<Rightarrow> (Some (sprintf (''critical: failed to validate Prometheus API connection - '' @
                                ''autoscaling functionality requires Prometheus: %w'') [FMsg err]), Some promAPI, w)
                          | (None, w) \<Rightarrow> (let (err, w) = se_Build se w in (err, Some promAPI, w)))))))"

section \<open>Watches\<close>

text \<open>The sources the controller watches; a request is a name and a namespace, the empty request asks for a
  global reconciliation. An object has a name, a namespace and a deletion timestamp.\<close>

datatype watch = WatchVariantAutoscaling | WatchConfigMap | WatchServiceMonitor | WatchCapacityConfigMap

definition serviceMonitorName :: string where
  "serviceMonitorName = ''workload-variant-autoscaler-controller-manager-metrics-monitor''"

fun watch_predicate :: "'w Env \<Rightarrow> watch \<Rightarrow> string \<times> string \<Rightarrow> bool" where
  "watch_predicate env WatchVariantAutoscaling obj = True"
| "watch_predicate env WatchConfigMap obj = (fst obj = configMapName \<and> snd obj = ev_Namespace env)"
| "watch_predicate env WatchServiceMonitor obj = (fst obj = serviceMonitorName \<and> snd obj = ev_Namespace env)"
| "watch_predicate env WatchCapacityConfigMap obj = isCapacityScalingConfigMap env obj"

fun watch_handler ::
  "'w Env \<Rightarrow> bool \<Rightarrow> watch \<Rightarrow> string \<times> string \<Rightarrow> Time option \<Rightarrow> Reconciler \<Rightarrow> 'w \<Rightarrow>
   (string \<times> string) list \<times> message list \<times> Reconciler \<times> 'w" where
  "watch_handler env hasRecorder WatchVariantAutoscaling obj deletion r w = ([obj], [], r, w)"
| "watch_handler env hasRecorder WatchConfigMap obj deletion r w =
     (if fst obj = configMapName \<and> snd obj = ev_Namespace env then [('''', '''')] else [], [], r, w)"
| "watch_handler env hasRecorder WatchServiceMonitor obj deletion r w =
     (let (reqs, events) = handleServiceMonitorEvent hasRecorder (fst obj) (snd obj) deletion in (reqs, events, r, w))"
| "watch_handler env hasRecorder WatchCapacityConfigMap obj deletion r w =
     (let (reqs, r, w) = handleCapacityConfigMapEvent env r obj w in (reqs, [], r, w))"

text \<open>An event reaches its handler when the filter of the controller and the predicate of the watch accept it.\<close>

definition deliver ::
  "'w Env \<Rightarrow> bool \<Rightarrow> watch \<Rightarrow> watch_event \<Rightarrow> string \<times> string \<Rightarrow> Time option \<Rightarrow> Reconciler \<Rightarrow> 'w \<Rightarrow>
   (string \<times> string) list \<times> message list \<times> Reconciler \<times> 'w" where
  "deliver env hasRecorder watch ev obj deletion r w =
     (if event_filter ev \<and> watch_predicate env watch obj then watch_handler env hasRecorder watch obj deletion r w
      else ([], [], r, w))"

section \<open>What a successful set-up guarantees\<close>

lemma stat_file_None: "stat_file files what path st = (None, w) \<Longrightarrow> fst st = None"
  by (auto simp: stat_file_def split: prod.splits option.splits)

lemma ValidateTLSConfig_https:
  assumes "ValidateTLSConfig files c w = (None, w')"
  shows "map lower (take 5 (pc_BaseURL c)) = ''https'' \<and> pc_BaseURL c ! 5 = CHR '':''"
  using assms parse_url_https by (auto simp: ValidateTLSConfig_def split: if_splits option.splits)

text \<open>The TLS configuration a transport was made with.\<close>

definition tls_of :: "'w Files \<Rightarrow> PrometheusConfig \<Rightarrow> TLSConfig \<Rightarrow> bool" where
  "tls_of files c tls \<longleftrightarrow>
     tc_MinVersion tls = VersionTLS12 \<and> tc_InsecureSkipVerify tls = pc_InsecureSkipVerify c \<and>
     tc_ServerName tls = pc_ServerName c \<and>
     (case tc_RootCAs tls of None \<Rightarrow> pc_CACertPath c = '''' | Some pem \<Rightarrow> pc_CACertPath c \<noteq> '''' \<and> fl_CertsFromPEM files pem) \<and>
     length (tc_Certificates tls) = (if pc_ClientCertPath c \<noteq> '''' \<and> pc_ClientKeyPath c \<noteq> '''' then 1 else 0)"

lemma CreateTLSConfig_tls:
  assumes "CreateTLSConfig files (Some c) w = (Inr t, w')"
  shows "\<exists>tls. t = Some tls \<and> tls_of files c tls"
  using assms by (auto simp: CreateTLSConfig_def load_ca_def load_client_def tls_of_def split: prod.splits sum.splits if_splits)

lemma CreatePrometheusTransport_tls:
  assumes "CreatePrometheusTransport files c w = (Inr rt, w')"
  shows "\<exists>tls. rt = HttpTransport (Some tls) \<and> tls_of files c tls"
  using assms CreateTLSConfig_tls by (fastforce simp: CreatePrometheusTransport_def split: prod.splits sum.splits)

text \<open>The headers as they are sent.\<close>

definition authorized :: "string \<Rightarrow> Header \<Rightarrow> Header" where
  "authorized token header = (if token = '''' then header else mput ''Authorization'' [''Bearer '' @ token] header)"

lemma CreatePrometheusClientConfig_sends:
  assumes "CreatePrometheusClientConfig files c w = (Inr ac, w')"
  shows "ac_Address ac = pc_BaseURL c \<and> (\<exists>tls token. tls_of files c tls \<and>
    (pc_BearerToken c \<noteq> '''' \<longrightarrow> token = pc_BearerToken c) \<and>
    (pc_BearerToken c = '''' \<and> pc_TokenPath c = '''' \<longrightarrow> token = '''') \<and>
    (\<forall>send header v. RoundTrip send (ac_RoundTripper ac) header v = send (Some tls) (authorized token header) v))"
proof -
  obtain rt w1 token w2 where p: "CreatePrometheusTransport files c w = (Inr rt, w1)" "bearer_token files c w1 = (Inr token, w2)"
      "ac = \<lparr>ac_Address = pc_BaseURL c, ac_RoundTripper = (if token \<noteq> '''' then BearerTokenRoundTripper rt token else rt)\<rparr>"
    using assms by (auto simp: CreatePrometheusClientConfig_def split: prod.splits sum.splits)
  obtain tls where tls: "rt = HttpTransport (Some tls)" "tls_of files c tls" using CreatePrometheusTransport_tls [OF p(1)] by blast
  have "pc_BearerToken c \<noteq> '''' \<longrightarrow> token = pc_BearerToken c" "pc_BearerToken c = '''' \<and> pc_TokenPath c = '''' \<longrightarrow> token = ''''"
    using p(2) by (auto simp: bearer_token_def)
  then show ?thesis
    by (intro conjI exI [of _ tls] exI [of _ token] allI) (simp_all add: p(3) tls authorized_def)
qed

lemma ValidatePrometheusAPI_up:
  assumes "documented_wait wait" and "ValidatePrometheusAPI wait promAPI w = (None, w')"
  shows "\<exists>v val. pm_Query promAPI None ''up'' (pm_Now promAPI v) v = (Inr val, w')"
proof -
  have "wait PrometheusBackoff (up_condition promAPI) ((), w) = (None, (), w')"
    using assms(2) by (auto simp: ValidatePrometheusAPI_def ValidatePrometheusAPIWithBackoff_def split: prod.splits)
  then obtain s where "up_condition promAPI s = (Inr True, (), w')" using wait_success [OF assms(1)] by blast
  then show ?thesis by (auto simp: up_condition_def split: prod.splits sum.splits)
qed

lemma getPrometheusConfig_source:
  assumes "getPrometheusConfig getenv env w = (Inr c, w')"
  shows "if getenv ''PROMETHEUS_BASE_URL'' \<noteq> '''' then c = ParsePrometheusConfigFromEnv getenv
    else \<exists>cm v. GetConfigMapWithBackoff (ev_Client env) configMapName (ev_Namespace env) w = (None, cm, v) \<and> config_map_prometheus cm = Some c"
  using assms by (auto simp: getPrometheusConfig_def getPrometheusConfigFromEnv_def getPrometheusConfigFromConfigMap_def Let_def
      split: prod.splits option.splits sum.splits if_splits)


text \<open>A set-up with the address in the environment and no other configuration.\<close>

definition demo_setup :: "string \<Rightarrow> VariantAutoscaling list SetupEnv" where
  "demo_setup url =
     \<lparr>se_Env = demo_env [] [] [], se_Getenv = (\<lambda>key. if key = ''PROMETHEUS_BASE_URL'' then url else ''''),
      se_Files = \<lparr>fl_NotExist = (\<lambda>_ w. (True, w)), fl_ReadFile = (\<lambda>_ w. (Inl (sprintf ''no such file'' []), w)),
        fl_CertsFromPEM = (\<lambda>_. False), fl_LoadX509KeyPair = (\<lambda>_ _ w. (Inl (sprintf ''no such file'' []), w))\<rparr>,
      se_NewClient = (\<lambda>_. Inr (demo_prom [])), se_Wait = (\<lambda>b. poll (bo_Steps b)), se_Build = (\<lambda>w. (None, w))\<rparr>"


end
