(* ===== verification/Wva_Main.thy ===== *)
theory Wva_Main
  imports Wva_Setup
begin

text \<open>
  Start-up (\<^verbatim>\<open>cmd/main.go\<close> and \<^verbatim>\<open>internal/logger/logger.go\<close>): the flags and their defaults, the options of the two
  servers, and the sequence of steps up to the start of the manager. Certificate watchers, the
  manager and the registry of the gauges are arguments. The theorem says what has happened before
  the manager runs.
\<close>

section \<open>Logger\<close>

datatype ZapLevel = DebugLevel | InfoLevel | WarnLevel | ErrorLevel

definition GetZapLevelFromEnv :: "(string \<Rightarrow> string) \<Rightarrow> ZapLevel" where
  "GetZapLevelFromEnv getenv =
     (let levelStr = map lower (getenv ''LOG_LEVEL'')
      in if levelStr = ''debug'' then DebugLevel else if levelStr = ''info'' then InfoLevel
         else if levelStr = ''warn'' then WarnLevel else if levelStr = ''error'' then ErrorLevel else InfoLevel)"

text \<open>The package \<^verbatim>\<open>utils\<close> has a function of the same name.\<close>

definition utils_GetZapLevelFromEnv :: "(string \<Rightarrow> string) \<Rightarrow> ZapLevel" where
  "utils_GetZapLevelFromEnv getenv =
     (let levelStr = map lower (getenv ''LOG_LEVEL'')
      in if levelStr = ''debug'' then DebugLevel else if levelStr = ''info'' then InfoLevel
         else if levelStr = ''warn'' then WarnLevel else if levelStr = ''error'' then ErrorLevel else InfoLevel)"

lemma zap_levels_agree: "utils_GetZapLevelFromEnv = GetZapLevelFromEnv"
  by (intro ext) (simp add: utils_GetZapLevelFromEnv_def GetZapLevelFromEnv_def)

text \<open>The logger is represented by its level; it is created once.\<close>

definition InitLogger :: "(string \<Rightarrow> string) \<Rightarrow> ZapLevel option \<Rightarrow> (message + ZapLevel) \<times> ZapLevel option" where
  "InitLogger getenv zapLogger =
     (case zapLogger of
        Some level \<Rightarrow> (Inr level, zapLogger)
      | None \<Rightarrow> let level = GetZapLevelFromEnv getenv in (Inr level, Some level))"

section \<open>Flags\<close>

record Flags =
  fg_metricsAddr :: string
  fg_probeAddr :: string
  fg_metricsCertPath :: string
  fg_metricsCertName :: string
  fg_metricsCertKey :: string
  fg_webhookCertPath :: string
  fg_webhookCertName :: string
  fg_webhookCertKey :: string
  fg_enableLeaderElection :: bool
  fg_leaseDuration :: Duration
  fg_renewDeadline :: Duration
  fg_retryPeriod :: Duration
  fg_restTimeout :: Duration
  fg_secureMetrics :: bool
  fg_enableHTTP2 :: bool

definition default_flags :: Flags where
  "default_flags =
     \<lparr>fg_metricsAddr = ''0'', fg_probeAddr = '':8081'', fg_metricsCertPath = '''', fg_metricsCertName = ''tls.crt'',
      fg_metricsCertKey = ''tls.key'', fg_webhookCertPath = '''', fg_webhookCertName = ''tls.crt'',
      fg_webhookCertKey = ''tls.key'', fg_enableLeaderElection = False, fg_leaseDuration = 60 * Second,
      fg_renewDeadline = 50 * Second, fg_retryPeriod = 10 * Second, fg_restTimeout = 60 * Second,
      fg_secureMetrics = True, fg_enableHTTP2 = False\<rparr>"

section \<open>Paths\<close>

text \<open>\<^verbatim>\<open>filepath.Join\<close> of a directory and a name: the components of a path, and the cleaned path.\<close>

fun components :: "string \<Rightarrow> string \<Rightarrow> string list" where
  "components seen [] = [rev seen]"
| "components seen (c # s) = (if c = CHR ''/'' then rev seen # components [] s else components (c # seen) s)"

definition clean_step :: "bool \<Rightarrow> string list \<Rightarrow> string \<Rightarrow> string list" where
  "clean_step rooted out c =
     (if c = '''' \<or> c = ''.'' then out
      else if c = ''..'' then
        (if out \<noteq> [] \<and> hd out \<noteq> ''..'' then tl out else if rooted then out else c # out)
      else c # out)"

definition clean :: "string \<Rightarrow> string" where
  "clean path =
     (let rooted = has_prefix ''/'' path; out = rev (foldl (clean_step rooted) [] (components [] path));
          body = concat (map (\<lambda>(i, c). (if i = 0 then '''' else ''/'') @ c) (enumerate 0 out))
      in if rooted then ''/'' @ body else if body = '''' then ''.'' else body)"

definition Join :: "string \<Rightarrow> string \<Rightarrow> string" where
  "Join a b = (if a \<noteq> '''' then clean (a @ ''/'' @ b) else if b \<noteq> '''' then clean b else '''')"

section \<open>Server options\<close>

text \<open>What the options do to the TLS configuration of a server: the protocols and the watched certificate.\<close>

datatype tls_option = DisableHTTP2 | WatchCertificate string string

record ServerTLS =
  sv_NextProtos :: "string list"
  sv_Certificate :: "(string \<times> string) option"

primrec apply_option :: "tls_option \<Rightarrow> ServerTLS \<Rightarrow> ServerTLS" where
  "apply_option DisableHTTP2 c = c\<lparr>sv_NextProtos := [''http/1.1'']\<rparr>"
| "apply_option (WatchCertificate cert key) c = c\<lparr>sv_Certificate := Some (cert, key)\<rparr>"

definition server_tls :: "tls_option list \<Rightarrow> ServerTLS \<Rightarrow> ServerTLS" where
  "server_tls opts c = foldl (\<lambda>c opt. apply_option opt c) c opts"

record ManagerOptions =
  mo_MetricsBindAddress :: string
  mo_SecureServing :: bool
  mo_Authenticated :: bool
  mo_MetricsTLSOpts :: "tls_option list"
  mo_WebhookTLSOpts :: "tls_option list"
  mo_HealthProbeBindAddress :: string
  mo_LeaderElection :: bool
  mo_LeaderElectionID :: string
  mo_LeaseDuration :: Duration
  mo_RenewDeadline :: Duration
  mo_RetryPeriod :: Duration
  mo_LeaderElectionReleaseOnCancel :: bool
  mo_RestTimeout :: Duration

definition tls_opts :: "Flags \<Rightarrow> tls_option list" where
  "tls_opts f = (if fg_enableHTTP2 f then [] else [DisableHTTP2])"

definition webhook_files :: "Flags \<Rightarrow> string \<times> string" where
  "webhook_files f = (Join (fg_webhookCertPath f) (fg_webhookCertName f), Join (fg_webhookCertPath f) (fg_webhookCertKey f))"

definition metrics_files :: "Flags \<Rightarrow> string \<times> string" where
  "metrics_files f = (Join (fg_metricsCertPath f) (fg_metricsCertName f), Join (fg_metricsCertPath f) (fg_metricsCertKey f))"

definition manager_options :: "Flags \<Rightarrow> ManagerOptions" where
  "manager_options f =
     \<lparr>mo_MetricsBindAddress = fg_metricsAddr f, mo_SecureServing = fg_secureMetrics f, mo_Authenticated = fg_secureMetrics f,
      mo_MetricsTLSOpts = tls_opts f @ (if fg_metricsCertPath f \<noteq> '''' then [case_prod WatchCertificate (metrics_files f)] else []),
      mo_WebhookTLSOpts = tls_opts f @ (if fg_webhookCertPath f \<noteq> '''' then [case_prod WatchCertificate (webhook_files f)] else []),
      mo_HealthProbeBindAddress = fg_probeAddr f, mo_LeaderElection = fg_enableLeaderElection f,
      mo_LeaderElectionID = ''72dd1cf1.llm-d.ai'', mo_LeaseDuration = fg_leaseDuration f,
      mo_RenewDeadline = fg_renewDeadline f, mo_RetryPeriod = fg_retryPeriod f,
      mo_LeaderElectionReleaseOnCancel = True, mo_RestTimeout = fg_restTimeout f\<rparr>"

section \<open>Start-up\<close>

datatype runnable = CacheInitializer | CertWatcher string string

text \<open>The calls of \<^verbatim>\<open>main\<close> that other packages answer. The manager is started with the controller's Prometheus client
  and the gauges.\<close>

record 'w MainEnv =
  me_Setup :: "'w SetupEnv"
  me_NewCertWatcher :: "string \<Rightarrow> string \<Rightarrow> 'w \<Rightarrow> message option \<times> 'w"
  me_GetConfig :: "'w \<Rightarrow> message option \<times> 'w"
  me_NewManager :: "ManagerOptions \<Rightarrow> 'w \<Rightarrow> message option \<times> 'w"
  me_Add :: "runnable \<Rightarrow> 'w \<Rightarrow> message option \<times> 'w"
  me_AddCheck :: "string \<Rightarrow> 'w \<Rightarrow> message option \<times> 'w"
  me_Register :: "string \<Rightarrow> message option"
  me_Start :: "'w Prom option \<Rightarrow> MetricsVars \<Rightarrow> 'w \<Rightarrow> message option \<times> 'w"

text \<open>How the program ends: the exit code, what the manager was started with, and the world.\<close>

type_synonym 'w ending = "int \<times> ('w Prom option \<times> MetricsVars) option \<times> 'w"

definition attempt :: "message option \<times> 'w \<Rightarrow> ('w \<Rightarrow> 'w ending) \<Rightarrow> 'w ending" where
  "attempt call k = (case call of (Some err, w) \<Rightarrow> (1, None, w) | (None, w) \<Rightarrow> k w)"

definition attempt_if :: "bool \<Rightarrow> ('w \<Rightarrow> message option \<times> 'w) \<Rightarrow> 'w \<Rightarrow> ('w \<Rightarrow> 'w ending) \<Rightarrow> 'w ending" where
  "attempt_if b call w k = (if b then attempt (call w) k else k w)"

definition no_gauges :: MetricsVars where
  "no_gauges = \<lparr>mv_replicaScalingTotal = False, mv_desiredReplicas = False, mv_currentReplicas = False, mv_desiredRatio = False\<rparr>"

text \<open>The last part: registration of the gauges and the start of the manager.\<close>

definition start_manager :: "'w MainEnv \<Rightarrow> 'w Prom option \<Rightarrow> 'w \<Rightarrow> 'w ending" where
  "start_manager me promAPI w =
     (let (err, vars) = InitMetrics (me_Register me) no_gauges
      in attempt (err, w) (\<lambda>w.
           let (err, w) = me_Start me promAPI vars w in (if err = None then 0 else 1, Some (promAPI, vars), w)))"

text \<open>A panic ends the program with code 2.\<close>

definition main :: "'w MainEnv \<Rightarrow> Flags \<Rightarrow> 'w \<Rightarrow> 'w ending" where
  "main me f w =
     (case fst (InitLogger (se_Getenv (me_Setup me)) None) of Inl err \<Rightarrow> (2, None, w) | Inr setupLog \<Rightarrow>
     attempt_if (fg_webhookCertPath f \<noteq> '''') (case_prod (me_NewCertWatcher me) (webhook_files f)) w (\<lambda>w.
     attempt_if (fg_metricsCertPath f \<noteq> '''') (case_prod (me_NewCertWatcher me) (metrics_files f)) w (\<lambda>w.
     attempt (me_GetConfig me w) (\<lambda>w.
     attempt (me_NewManager me (manager_options f) w) (\<lambda>w.
       let (err, promAPI, w) = SetupWithManager (me_Setup me) w
       in attempt (err, w) (\<lambda>w.
          attempt (me_Add me CacheInitializer w) (\<lambda>w.
          attempt_if (fg_metricsCertPath f \<noteq> '''') (me_Add me (case_prod CertWatcher (metrics_files f))) w (\<lambda>w.
          attempt_if (fg_webhookCertPath f \<noteq> '''') (me_Add me (case_prod CertWatcher (webhook_files f))) w (\<lambda>w.
          attempt (me_AddCheck me ''healthz'' w) (\<lambda>w.
          attempt (me_AddCheck me ''readyz'' w) (start_manager me promAPI)))))))))))"

section \<open>What has happened when the manager starts\<close>

lemma server_tls_protocols:
  "sv_NextProtos (server_tls (tls_opts f @ (if b then [case_prod WatchCertificate files] else [])) c) =
     (if fg_enableHTTP2 f then sv_NextProtos c else [''http/1.1''])"
  by (simp add: server_tls_def tls_opts_def case_prod_beta)

lemma attempt_started:
  "attempt call k = (code, Some s, w') \<Longrightarrow> \<exists>v. call = (None, v) \<and> k v = (code, Some s, w')"
  by (auto simp: attempt_def split: prod.splits option.splits)

lemma attempt_if_started:
  "attempt_if b call w k = (code, Some s, w') \<Longrightarrow> (b \<longrightarrow> (\<exists>v. call w = (None, v))) \<and> (\<exists>v. k v = (code, Some s, w'))"
  by (auto simp: attempt_if_def dest: attempt_started split: if_splits)

text \<open>An ending without a start is a failure.\<close>

definition fails_unstarted :: "'w ending \<Rightarrow> bool" where
  "fails_unstarted e \<longleftrightarrow> (fst (snd e) = None \<longrightarrow> fst e \<noteq> 0)"

lemma attempt_fails: "(\<And>w. fails_unstarted (k w)) \<Longrightarrow> fails_unstarted (attempt call k)"
  by (auto simp: attempt_def fails_unstarted_def split: prod.splits option.splits)

lemma attempt_if_fails: "(\<And>w. fails_unstarted (k w)) \<Longrightarrow> fails_unstarted (attempt_if b call w k)"
  by (simp add: attempt_if_def attempt_fails)

lemma start_manager_fails: "fails_unstarted (start_manager me promAPI w)"
  by (simp add: start_manager_def Let_def case_prod_beta) (rule attempt_fails, simp add: fails_unstarted_def)

lemma main_fails: "fails_unstarted (main me f w)"
  by (simp add: main_def InitLogger_def Let_def case_prod_beta split: option.split)
    (intro attempt_fails attempt_if_fails start_manager_fails)

lemma register_all_None: "register_all register ms = None \<longleftrightarrow> (\<forall>m\<in>fst ` set ms. register m = None)"
  by (induction register ms rule: register_all.induct) (auto split: option.splits)

text \<open>The calls that must have succeeded before the manager starts.\<close>

definition prepared_start :: "'w MainEnv \<Rightarrow> Flags \<Rightarrow> bool" where
  "prepared_start me f \<longleftrightarrow>
     (\<exists>v v'. me_GetConfig me v = (None, v')) \<and> (\<exists>v v'. me_NewManager me (manager_options f) v = (None, v')) \<and>
     (\<exists>v v'. me_Add me CacheInitializer v = (None, v')) \<and>
     (\<exists>v v'. me_AddCheck me ''healthz'' v = (None, v')) \<and> (\<exists>v v'. me_AddCheck me ''readyz'' v = (None, v')) \<and>
     (fg_metricsCertPath f \<noteq> '''' \<longrightarrow> (\<exists>v v'. case_prod (me_NewCertWatcher me) (metrics_files f) v = (None, v')) \<and>
        (\<exists>v v'. me_Add me (case_prod CertWatcher (metrics_files f)) v = (None, v'))) \<and>
     (fg_webhookCertPath f \<noteq> '''' \<longrightarrow> (\<exists>v v'. case_prod (me_NewCertWatcher me) (webhook_files f) v = (None, v')) \<and>
        (\<exists>v v'. me_Add me (case_prod CertWatcher (webhook_files f)) v = (None, v')))"

lemma start_manager_started:
  assumes "start_manager me promAPI w = (code, Some (p, vars), w')"
  shows "p = promAPI \<and> InitMetrics (me_Register me) no_gauges = (None, vars) \<and> (\<exists>v e. me_Start me p vars v = (e, w') \<and> (code = 0 \<longleftrightarrow> e = None))"
proof -
  obtain e vs where i: "InitMetrics (me_Register me) no_gauges = (e, vs)" by fastforce
  from assms have "attempt (e, w) (\<lambda>w. let (err, w) = me_Start me promAPI vs w in (if err = None then 0 else 1, Some (promAPI, vs), w)) =
      (code, Some (p, vars), w')" by (simp add: start_manager_def i)
  from attempt_started [OF this] show ?thesis by (auto simp: i split: prod.splits if_splits)
qed

lemma main_started:
  assumes "main me f w = (code, Some (p, vars), w')"
  shows "prepared_start me f \<and> (\<exists>v v'. SetupWithManager (me_Setup me) v = (None, p, v')) \<and>
    (\<exists>v. start_manager me p v = (code, Some (p, vars), w'))"
proof -
  let ?m = "fg_metricsCertPath f \<noteq> ''''" and ?h = "fg_webhookCertPath f \<noteq> ''''"
  obtain w3 where a: "?h \<longrightarrow> (\<exists>v v'. case_prod (me_NewCertWatcher me) (webhook_files f) v = (None, v'))"
      "?m \<longrightarrow> (\<exists>v v'. case_prod (me_NewCertWatcher me) (metrics_files f) v = (None, v'))"
      "\<exists>v v'. me_GetConfig me v = (None, v')" "\<exists>v v'. me_NewManager me (manager_options f) v = (None, v')"
      "(let (err, promAPI, w) = SetupWithManager (me_Setup me) w3
        in attempt (err, w) (\<lambda>w.
          attempt (me_Add me CacheInitializer w) (\<lambda>w.
          attempt_if ?m (me_Add me (case_prod CertWatcher (metrics_files f))) w (\<lambda>w.
          attempt_if ?h (me_Add me (case_prod CertWatcher (webhook_files f))) w (\<lambda>w.
          attempt (me_AddCheck me ''healthz'' w) (\<lambda>w.
          attempt (me_AddCheck me ''readyz'' w) (start_manager me promAPI))))))) = (code, Some (p, vars), w')"
    using assms unfolding main_def InitLogger_def option.case Let_def fst_conv sum.case
    by (blast dest!: attempt_started attempt_if_started)
  obtain err promAPI w4 where s: "SetupWithManager (me_Setup me) w3 = (err, promAPI, w4)" by (metis prod_cases3)
  obtain w9 where b: "err = None" "\<exists>v v'. me_Add me CacheInitializer v = (None, v')"
      "?m \<longrightarrow> (\<exists>v v'. me_Add me (case_prod CertWatcher (metrics_files f)) v = (None, v'))"
      "?h \<longrightarrow> (\<exists>v v'. me_Add me (case_prod CertWatcher (webhook_files f)) v = (None, v'))"
      "\<exists>v v'. me_AddCheck me ''healthz'' v = (None, v')" "\<exists>v v'. me_AddCheck me ''readyz'' v = (None, v')"
      "start_manager me promAPI w9 = (code, Some (p, vars), w')"
    using a(5) unfolding s Let_def prod.case by (blast dest!: attempt_started attempt_if_started)
  have "p = promAPI" using start_manager_started [OF b(7)] by simp
  moreover have "prepared_start me f" unfolding prepared_start_def using a(1-4) b(2-6) by blast
  ultimately show ?thesis using s b(1,7) by blast
qed

text \<open>C21: what has happened when the manager starts. The program ends with code 0 only if the manager was started and
  returned without an error. When it is started, the controller has been set up, with the client it
  reconciles with; all four metrics are registered and every emission of the replica gauges will succeed; the
  initializer of the configuration cache, the health checks and, where certificates are configured, their watchers
  have been added. HTTP/2 is off in both servers unless it was enabled.\<close>

theorem main_starts_ready:
  assumes "main me f w = (code, started, w')"
  shows "(code = 0 \<longrightarrow> started \<noteq> None) \<and>
    (case started of None \<Rightarrow> True | Some (promAPI, vars) \<Rightarrow>
       prepared_start me f \<and> (\<exists>v v'. SetupWithManager (me_Setup me) v = (None, promAPI, v')) \<and>
       (\<forall>m\<in>{InfernoReplicaScalingTotal, InfernoDesiredReplicas, InfernoCurrentReplicas, InfernoDesiredRatio}. me_Register me m = None) \<and>
       (\<forall>va current desired acc. fst (EmitReplicaMetrics vars va current desired acc) = None) \<and>
       (\<exists>v e. me_Start me promAPI vars v = (e, w') \<and> (code = 0 \<longleftrightarrow> e = None))) \<and>
    (\<forall>c. let o1 = mo_MetricsTLSOpts (manager_options f); o2 = mo_WebhookTLSOpts (manager_options f);
             protos = (if fg_enableHTTP2 f then sv_NextProtos c else [''http/1.1''])
         in sv_NextProtos (server_tls o1 c) = protos \<and> sv_NextProtos (server_tls o2 c) = protos)"
proof (intro conjI)
  show "code = 0 \<longrightarrow> started \<noteq> None" using main_fails [of me f w] assms by (auto simp: fails_unstarted_def)
  show "\<forall>c. let o1 = mo_MetricsTLSOpts (manager_options f); o2 = mo_WebhookTLSOpts (manager_options f);
             protos = (if fg_enableHTTP2 f then sv_NextProtos c else [''http/1.1''])
         in sv_NextProtos (server_tls o1 c) = protos \<and> sv_NextProtos (server_tls o2 c) = protos"
    by (simp add: manager_options_def server_tls_protocols Let_def)
  show "case started of None \<Rightarrow> True | Some (promAPI, vars) \<Rightarrow>
       prepared_start me f \<and> (\<exists>v v'. SetupWithManager (me_Setup me) v = (None, promAPI, v')) \<and>
       (\<forall>m\<in>{InfernoReplicaScalingTotal, InfernoDesiredReplicas, InfernoCurrentReplicas, InfernoDesiredRatio}. me_Register me m = None) \<and>
       (\<forall>va current desired acc. fst (EmitReplicaMetrics vars va current desired acc) = None) \<and>
       (\<exists>v e. me_Start me promAPI vars v = (e, w') \<and> (code = 0 \<longleftrightarrow> e = None))"
  proof (cases started)
    case (Some s)
    obtain p vars where s: "s = (p, vars)" by fastforce
    note m = main_started [OF assms [unfolded Some s]]
    then obtain v where "start_manager me p v = (code, Some (p, vars), w')" by blast
    note t = start_manager_started [OF this]
    then have "register_all (me_Register me) [(InfernoReplicaScalingTotal, ''replicaScalingTotal''),
        (InfernoDesiredReplicas, ''desiredReplicas''), (InfernoCurrentReplicas, ''currentReplicas''), (InfernoDesiredRatio, ''desiredRatio'')] = None"
      and v: "mv_desiredReplicas vars \<and> mv_currentReplicas vars \<and> mv_desiredRatio vars"
      by (auto simp: InitMetrics_def simp del: register_all.simps)
    then have r: "\<forall>m\<in>{InfernoReplicaScalingTotal, InfernoDesiredReplicas, InfernoCurrentReplicas, InfernoDesiredRatio}. me_Register me m = None"
      by (simp only: register_all_None) simp
    have e: "fst (EmitReplicaMetrics vars va current desired acc) = None" for va current desired acc
      using v by (simp add: EmitReplicaMetrics_def Let_def)
    show ?thesis using m t r e by (simp add: Some s)
  qed simp
qed

text \<open>A start with the default flags.\<close>

definition demo_main :: "VariantAutoscaling list MainEnv" where
  "demo_main =
     \<lparr>me_Setup = demo_setup ''https://prometheus:9090'', me_NewCertWatcher = (\<lambda>_ _ w. (None, w)), me_GetConfig = (\<lambda>w. (None, w)),
      me_NewManager = (\<lambda>_ w. (None, w)), me_Add = (\<lambda>_ w. (None, w)), me_AddCheck = (\<lambda>_ w. (None, w)),
      me_Register = (\<lambda>_. None), me_Start = (\<lambda>_ _ w. (None, w))\<rparr>"

theorem main_starts_ready_witness:
  "\<exists>promAPI vars. main demo_main default_flags [] = (0, Some (promAPI, vars), []) \<and> prepared_start demo_main default_flags \<and>
     fst (EmitReplicaMetrics vars zero_VariantAutoscaling 1 2 ''A100'') = None"
proof -
  have "fst (main demo_main default_flags []) = 0" "snd (snd (main demo_main default_flags [])) = []" by code_simp+
  then obtain started where m: "main demo_main default_flags [] = (0, started, [])" by (metis prod.collapse)
  show ?thesis using main_starts_ready [OF m] m by (auto split: option.splits)
qed

end
