(* ===== verification/Wva_Run.thy ===== *)
theory Wva_Run
  imports Wva_Model_Mode Wva_Main
begin

text \<open>
  Runs of the controller: reconciliations, deliveries of watched events and the initial load of the
  configuration, in any order and interleaved with changes by others. The theorem is an invariant of
  the desired counts on the API server over all runs. It composes the capacity analysis, the
  model-based optimization, the application of the decisions and the event handlers.
\<close>

section \<open>Runs\<close>

text \<open>The state is that of the reconciler and the outside world. \<open>outside\<close> is what others may do to the world.\<close>

inductive controller_run ::
  "'w ReconcileEnv \<Rightarrow> bool \<Rightarrow> ('w \<Rightarrow> 'w \<Rightarrow> bool) \<Rightarrow> Reconciler \<times> 'w \<Rightarrow> Reconciler \<times> 'w \<Rightarrow> bool"
  for re :: "'w ReconcileEnv" and hasRecorder :: bool and outside :: "'w \<Rightarrow> 'w \<Rightarrow> bool" and s0 :: "Reconciler \<times> 'w" where
  start: "controller_run re hasRecorder outside s0 s0"
| load: "controller_run re hasRecorder outside s0 (r, w) \<Longrightarrow>
    InitializeCapacityConfigCache (re_Env re) r w = (err, r', w') \<Longrightarrow> controller_run re hasRecorder outside s0 (r', w')"
| event: "controller_run re hasRecorder outside s0 (r, w) \<Longrightarrow>
    deliver (re_Env re) hasRecorder watch ev obj deletion r w = (reqs, msgs, r', w') \<Longrightarrow>
    controller_run re hasRecorder outside s0 (r', w')"
| reconcile: "controller_run re hasRecorder outside s0 (r, w) \<Longrightarrow> Reconcile re r w = Some (res, es, w') \<Longrightarrow>
    controller_run re hasRecorder outside s0 (r, w')"
| other: "controller_run re hasRecorder outside s0 (r, w) \<Longrightarrow> outside w w' \<Longrightarrow> controller_run re hasRecorder outside s0 (r, w')"

text \<open>A property of the world that reads keep is kept by the handlers.\<close>

lemma updateCapacityConfigCache_keeps:
  assumes "observed env I" and "I w" and "updateCapacityConfigCache env r w = (err, r', w')"
  shows "I w'"
proof -
  obtain e cm v where g: "GetConfigMapWithBackoff (ev_Client env) ''capacity-scaling-config'' (ev_Namespace env) w = (e, cm, v)"
    by (metis prod_cases3)
  have "I v" using observed_reads(2) [OF assms(1,2), of "''capacity-scaling-config''" "ev_Namespace env"] g by simp
  then show ?thesis using assms(3) g
    by (auto simp: updateCapacityConfigCache_def readCapacityScalingConfig_def Let_def split: option.splits kerror.splits)
qed

lemma deliver_keeps:
  assumes "observed env I" and "I w" and "deliver env b watch ev obj del r w = (reqs, msgs, r', w')"
  shows "I w'"
proof -
  have cap: "I v'" if h: "handleCapacityConfigMapEvent env r obj w = (qs, r1, v')" for qs r1 v'
  proof (cases "isCapacityScalingConfigMap env obj")
    case True
    obtain e r2 v where u: "updateCapacityConfigCache env r w = (e, r2, v)" by (metis prod_cases3)
    have v: "I v" by (rule updateCapacityConfigCache_keeps [OF assms(1,2) u])
    show ?thesis using h True u observed_reads(4) [OF assms(1) v]
      by (auto simp: handleCapacityConfigMapEvent_def Let_def split: prod.splits sum.splits)
  next
    case False
    then show ?thesis using h assms(2) by (simp add: handleCapacityConfigMapEvent_def)
  qed
  show ?thesis
    using assms(2,3) cap by (cases watch) (auto simp: deliver_def Let_def split: if_splits prod.splits)
qed

text \<open>An invariant of the world over all runs: reads, the patch, the updates for decisions about listed
  objects and the changes by others keep it.\<close>

definition steps_keep :: "'w ReconcileEnv \<Rightarrow> ('w \<Rightarrow> 'w \<Rightarrow> bool) \<Rightarrow> ('w \<Rightarrow> bool) \<Rightarrow> bool" where
  "steps_keep re outside I \<longleftrightarrow> observed (re_Env re) I \<and> patch_keeps re I \<and> condition_store (ev_Conditions (re_Env re)) \<and>
     failed_update_keeps (cl_UpdateVariantAutoscalingStatus (ev_Client (re_Env re))) \<and>
     (\<forall>configs vaMap ds. (\<forall>d\<in>set ds. decided re configs (listed (re_Env re) I) d) \<longrightarrow> updates_keep (re_Env re) vaMap ds I) \<and>
     (\<forall>w w'. I w \<longrightarrow> outside w w' \<longrightarrow> I w')"

lemma controller_run_invariant:
  assumes "controller_run re b outside s0 s" and "steps_keep re outside I" and "I (snd s0)"
  shows "I (snd s)"
  using assms(1)
proof (induction rule: controller_run.induct)
  case start
  then show ?case by (rule assms(3))
next
  case (load r w err r' w')
  then show ?case using updateCapacityConfigCache_keeps [of "re_Env re" I w r err r' w'] assms(2)
    by (simp add: steps_keep_def InitializeCapacityConfigCache_def)
next
  case (event r w watch ev obj del reqs msgs r' w')
  then show ?case using deliver_keeps [of "re_Env re" I w b watch ev obj del r reqs msgs r' w'] assms(2)
    by (simp add: steps_keep_def)
next
  case (reconcile r w res es w')
  have k: "observed (re_Env re) I" "patch_keeps re I" "condition_store (ev_Conditions (re_Env re))"
      "failed_update_keeps (cl_UpdateVariantAutoscalingStatus (ev_Client (re_Env re)))"
      "\<forall>vaMap ds. (\<forall>d\<in>set ds. decided re (rc_capacityConfigCache r) (listed (re_Env re) I) d) \<longrightarrow> updates_keep (re_Env re) vaMap ds I"
    using assms(2) by (simp_all add: steps_keep_def)
  from reconcile.IH have "I w" by simp
  from Reconcile_keeps [OF k this reconcile.hyps(2)] show ?case by simp
next
  case (other r w w')
  then show ?case using assms(2) by (auto simp: steps_keep_def)
qed

section \<open>Lower bounds of the targets\<close>

lemma select_fold_member:
  "foldl (select_step skip better) None xs = Some r \<Longrightarrow> r \<in> set xs \<and> \<not> skip r"
  by (induction xs arbitrary: r rule: rev_induct)
    (auto simp: select_step_def split: option.splits if_splits)

lemma state_desired_nonneg: "\<forall>s\<in>set ss. 0 \<le> vs_DesiredReplicas s \<Longrightarrow> 0 \<le> vs_DesiredReplicas (state_of ss v)"
proof -
  assume ss: "\<forall>s\<in>set ss. 0 \<le> vs_DesiredReplicas s"
  have "\<forall>s\<in>snd ` set (stateMap ss). 0 \<le> vs_DesiredReplicas s"
    unfolding stateMap_def
    by (rule foldl_inv [where P = "\<lambda>m. \<forall>s\<in>snd ` set m. 0 \<le> vs_DesiredReplicas s"])
      (use ss set_mput in \<open>fastforce+\<close>)
  from mget0_snd [OF this] show ?thesis by (simp add: state_of_def zero_VariantReplicaState_def)
qed

lemma base_targets_positive:
  assumes "\<forall>a\<in>set as. 1 \<le> va_ReplicaCount a" and "\<forall>s\<in>set ss. 0 \<le> vs_DesiredReplicas s"
    and "mget (base_targets ss as) v = Some t"
  shows "1 \<le> t"
proof -
  have "mget (foldl (\<lambda>m va. mput (va_VariantName va) (va_ReplicaCount va) m) [] as) v = Some u \<longrightarrow> 1 \<le> u" for u
    by (rule foldl_inv [where P = "\<lambda>m. mget m v = Some u \<longrightarrow> 1 \<le> u"]) (use assms(1) in auto)
  moreover have "preserves ss a \<Longrightarrow> 1 \<le> vs_DesiredReplicas (state_of ss (va_VariantName a))" for a
    using state_desired_nonneg [OF assms(2), of "va_VariantName a"] by (auto simp: preserves_def Let_def)
  ultimately show ?thesis using assms(3) by (auto simp: base_targets_def preserve_loop split: if_splits)
qed

text \<open>Targets are positive, whatever the costs.\<close>

lemma targets_positive:
  assumes "ma_VariantAnalyses ca \<noteq> []" and "\<forall>a\<in>set (ma_VariantAnalyses ca). 1 \<le> va_ReplicaCount a"
    and "\<forall>s\<in>set ss. 0 \<le> vs_DesiredReplicas s" and "mget (CalculateCapacityTargets (Some ca) ss) v = Some t"
  shows "1 \<le> t"
proof -
  note base = base_targets_positive [OF assms(2,3)]
  have up: "1 \<le> va_ReplicaCount b" if "scale_up_choice ss (ma_VariantAnalyses ca) = Some b" for b
    using select_fold_member [OF that [unfolded scale_up_choice_def]] assms(2) by blast
  have down: "1 < va_ReplicaCount b" if "scale_down_choice ss (ma_VariantAnalyses ca) = Some b" for b
    using select_fold_member [OF that [unfolded scale_down_choice_def]] by simp
  show ?thesis
    using assms(4) base up down
    by (fastforce simp: CalculateCapacityTargets_unfold [OF assms(1)] Let_def split: if_splits option.splits)
qed

lemma analyses_positive:
  assumes "ms \<noteq> []"
  shows "ma_VariantAnalyses (AnalyzeModelCapacity now modelID ns ms c) \<noteq> []"
    and "\<forall>a\<in>set (ma_VariantAnalyses (AnalyzeModelCapacity now modelID ns ms c)). 1 \<le> va_ReplicaCount a"
proof -
  have "variantMap ms \<noteq> []" using variantMap_keys [of ms] assms by fastforce
  then show "ma_VariantAnalyses (AnalyzeModelCapacity now modelID ns ms c) \<noteq> []" by (simp add: AnalyzeModelCapacity_analyses assms)
  show "\<forall>a\<in>set (ma_VariantAnalyses (AnalyzeModelCapacity now modelID ns ms c)). 1 \<le> va_ReplicaCount a"
    unfolding AnalyzeModelCapacity_analyses [OF assms] using variantMap_group(2) [of _ _ ms]
    by (fastforce simp: analyzeVariant_fields Suc_le_eq)
qed

lemma buildVariantStates_desired:
  "fst (buildVariantStates c vas w) = ss \<Longrightarrow>
    \<forall>s\<in>set ss. \<exists>va\<in>set vas. vs_DesiredReplicas s = oa_NumReplicas (st_DesiredOptimizedAlloc (wa_Status va))"
proof -
  let ?f = "\<lambda>(states, w) va. let (s, w) = variant_state c va w in (states @ [s], w)"
  let ?P = "\<lambda>st. \<forall>s\<in>set (fst st). \<exists>va\<in>set vas. vs_DesiredReplicas s = oa_NumReplicas (st_DesiredOptimizedAlloc (wa_Status va))"
  have one: "vs_DesiredReplicas (fst (variant_state c va w)) = oa_NumReplicas (st_DesiredOptimizedAlloc (wa_Status va))" for va w
    by (auto simp: variant_state_def Let_def split: prod.splits option.splits)
  have "?P (foldl ?f ([], w) vas)"
    by (rule foldl_inv [where P = ?P]) (use one in \<open>fastforce simp: case_prod_beta Let_def\<close>)+
  then show "fst (buildVariantStates c vas w) = ss \<Longrightarrow> ?thesis" by (auto simp: buildVariantStates_def)
qed

lemma capacity_decisions_positive:
  assumes "runCapacityAnalysis env modelID vas config w = (Inr (Some (ts, ca, ss)), w')"
    and "\<forall>va\<in>set vas. 0 \<le> oa_NumReplicas (st_DesiredOptimizedAlloc (wa_Status va))"
    and "d \<in> set (convertCapacityTargetsToDecisions ts ca ss)"
  shows "1 \<le> vd_TargetReplicas d"
proof -
  obtain now ns ms u' where r: "ms \<noteq> []" "ca = AnalyzeModelCapacity now modelID ns ms config"
      "ts = CalculateCapacityTargets (Some ca) ss" "buildVariantStates (ev_Client env) vas u' = (ss, w')"
    using runCapacityAnalysis_result [OF assms(1)] by blast
  have ss: "\<forall>s\<in>set ss. 0 \<le> vs_DesiredReplicas s"
    using buildVariantStates_desired [of "ev_Client env" vas u' ss] r(4) assms(2) by force
  obtain v t where vt: "(v, t) \<in> set ts" "d = capacity_decision ca ss v t"
    using assms(3) by (auto simp: convertCapacityTargetsToDecisions_def)
  have "mget ts v = Some t" using vt(1) wf_map_mget [OF CalculateCapacityTargets_wf] r(3) by metis
  then have "1 \<le> t" unfolding r(3) r(2) by (rule targets_positive [OF analyses_positive [OF r(1)] ss])
  then show ?thesis by (simp add: vt(2))
qed

text \<open>The model-based targets respect the minimum of the servers.\<close>

lemma model_targets_min:
  assumes "prepared_by re vas sd ul vm" and "optimize_model now sd ul vm vas' = Some (Inr ts)" and "mget ts k = Some t"
  shows "(if re_Getenv re ''WVA_SCALE_TO_ZERO'' = ''true'' then 0 else 1) \<le> t"
proof -
  let ?sys0 = "fst (SetFromSpec NewSystem sd)"
  have prep: "prepared (re_Getenv re) sd ul" using assms(1) unfolding prepared_by_def by (elim exE) (rule prepare_prepared)
  note sys0 = prepared_system [OF prep refl]
  obtain rs sys m sys' oa where r: "analyze_servers vm ?sys0 = Some (rs, sys)"
      "Engine_Optimize now (Some (sy_Optimizer sd)) sys ul rs = Some (Inr m, sys')" "mget m k = Some oa" "t = oa_NumReplicas oa"
    using optimize_model_entry [OF assms(2,3)] by blast
  have an: "analyzed ?sys0 sys" by (rule analyze_servers_analyzed [OF sys0(2,1,3) r(1)])
  have "wf_map (servers sys)" "os_Unlimited (sy_Optimizer sd)" using an prep by (simp_all add: analyzed_def prepared_def)
  from Engine_Optimize_entry [OF r(2) this(2,1) r(3)] obtain n s a where s: "mget (servers sys) n = Some s"
      "a \<in> snd ` set (sr_allAllocations s)" "t = al_numReplicas a" using r(4) by auto
  obtain s0 where s0: "mget (servers ?sys0) n = Some s0" "bare s = bare s0"
    using an s(1) unfolding analyzed_def by (metis map_option_eq_Some option.map(2))
  have "candidate ?sys0 s a" using an s(1,2) unfolding analyzed_def by blast
  then obtain cur alloc :: Allocation where c: "CreateAllocation ?sys0 (sr_name s0) (al_accelerator cur) = Some (Some alloc)" "t = al_numReplicas alloc"
    unfolding candidate_def bare_eqD [OF s0(2)] s(3) by blast
  obtain v where v: "v \<in> set (sy_Servers sd)" "ss_Name v = n" "s0 = NewServerFromSpec v" using SetFromSpec_server [OF s0(1)] by blast
  then obtain va cn where va: "v = server_spec (re_Getenv re) va cn"
    using prep unfolding prepared_def list_all2_conv_all_nth in_set_conv_nth by metis
  have "sr_name s0 = n" using v by (simp add: NewServerFromSpec_def Let_def)
  then have "sr_minNumReplicas s0 \<le> t" using CreateAllocation_min [OF c(1)] s0(1) c(2) by (simp add: GetServer_def)
  then show ?thesis using v(3) va by (simp add: NewServerFromSpec_def server_spec_def Let_def)
qed

lemma decided_min:
  assumes "decided re configs L d" and "\<And>va. L va \<Longrightarrow> 0 \<le> oa_NumReplicas (st_DesiredOptimizedAlloc (wa_Status va))"
    and "re_Getenv re ''WVA_SCALE_TO_ZERO'' \<noteq> ''true'' \<or> \<not> fst (optimization_mode (re_Getenv re EnvExperimentalHybridOptimization))"
  shows "1 \<le> vd_TargetReplicas d"
proof (cases "fst (optimization_mode (re_Getenv re EnvExperimentalHybridOptimization))")
  case True
  then obtain now sd ul vm vas ts va t modelID where m: "prepared_by re vas sd ul vm" "optimize_model now sd ul vm vas = Some (Inr ts)"
      "mget ts (wa_Name va) = Some t" "d = model_only_decision modelID va t" using assms(1) unfolding decided_def by auto
  from model_targets_min [OF m(1-3)] True assms(3) m(4) show ?thesis by (simp add: model_only_decision_def Let_def split: if_splits)
next
  case False
  then obtain modelID vas ts ca ss v v' config where c: "\<forall>va\<in>set vas. L va"
      "runCapacityAnalysis (re_Env re) modelID vas config v = (Inr (Some (ts, ca, ss)), v')"
      "d \<in> set (convertCapacityTargetsToDecisions ts ca ss)" using assms(1) unfolding decided_def by simp blast
  from capacity_decisions_positive [OF c(2) _ c(3)] c(1) assms(2) show ?thesis by blast
qed

section \<open>Desired counts over all runs\<close>

abbreviation desired_count :: "VariantAutoscalingStatus \<Rightarrow> int" where
  "desired_count s \<equiv> oa_NumReplicas (st_DesiredOptimizedAlloc s)"

text \<open>The API server, as far as statuses are concerned: \<open>stored w\<close> are the statuses it has held so far, by name and
  namespace. Lists return statuses that are or were stored (a cache may lag behind), reads, queries
  and patches of the metadata add none, and an update adds at most the status it was given.\<close>

definition api_server :: "'w ReconcileEnv \<Rightarrow> ('w \<Rightarrow> ((string \<times> string) \<times> VariantAutoscalingStatus) set) \<Rightarrow> bool" where
  "api_server re stored \<longleftrightarrow>
     (\<forall>S. observed (re_Env re) (\<lambda>w. stored w \<subseteq> S) \<and> patch_keeps re (\<lambda>w. stored w \<subseteq> S)) \<and>
     condition_store (ev_Conditions (re_Env re)) \<and>
     failed_update_keeps (cl_UpdateVariantAutoscalingStatus (ev_Client (re_Env re))) \<and>
     (\<forall>w items w'. cl_ListVariantAutoscalings (ev_Client (re_Env re)) w = (Inr items, w') \<longrightarrow>
        (\<forall>va\<in>set items. ((wa_Name va, wa_Namespace va), wa_Status va) \<in> stored w)) \<and>
     (\<forall>u w. stored (snd (snd (cl_UpdateVariantAutoscalingStatus (ev_Client (re_Env re)) u w))) \<subseteq>
        insert ((wa_Name u, wa_Namespace u), wa_Status u) (stored w))"

text \<open>A status as the controller writes it.\<close>

definition decided_status :: "VariantAutoscalingStatus \<Rightarrow> bool" where
  "decided_status s \<longleftrightarrow> 1 \<le> desired_count s \<and> act_Applied (st_Actuation s) \<and> cr_Accelerator (st_CurrentAlloc s) \<noteq> '''' \<and>
     2 \<le> length (oa_Accelerator (st_DesiredOptimizedAlloc s))"

abbreviation empty_status :: VariantAutoscalingStatus where
  "empty_status \<equiv> wa_Status zero_VariantAutoscaling"

text \<open>C4: the controller never asks for zero replicas. Consider any run: reconciliations, watched events and loads of
  the configuration in any order, with any answers of Prometheus, any failures of the API and stale
  lists, while others create objects with an empty status. If no stored desired count is
  negative at the start, then every status that the server holds at any time was there at the start, is empty,
  or asks for at least one replica, names an accelerator and is marked as applied; unless the
  model-based mode runs with scaling to zero enabled.\<close>

theorem never_scales_to_zero:
  assumes "api_server re stored" and "\<forall>w w'. outside w w' \<longrightarrow> stored w' \<subseteq> stored w \<union> {(k, s). s = empty_status}"
    and "re_Getenv re ''WVA_SCALE_TO_ZERO'' \<noteq> ''true'' \<or> \<not> fst (optimization_mode (re_Getenv re EnvExperimentalHybridOptimization))"
    and "\<forall>(k, s)\<in>stored (snd s0). 0 \<le> desired_count s" and "controller_run re hasRecorder outside s0 (r, w)"
  shows "\<forall>(k, s)\<in>stored w. (k, s) \<in> stored (snd s0) \<or> s = empty_status \<or> decided_status s"
proof -
  let ?G = "{(k, s). (k, s) \<in> stored (snd s0) \<or> s = empty_status \<or> decided_status s}"
  let ?I = "\<lambda>w. stored w \<subseteq> ?G"
  let ?c = "ev_Client (re_Env re)"
  have nonneg: "0 \<le> desired_count (wa_Status va)" if "listed (re_Env re) ?I va" for va
  proof -
    have "((wa_Name va, wa_Namespace va), wa_Status va) \<in> ?G"
      using that assms(1) unfolding listed_def api_server_def by blast
    then show ?thesis using assms(4) by (auto simp: decided_status_def zero_VariantAutoscaling_def)
  qed
  have upd: "updates_keep (re_Env re) vaMap ds ?I" if "\<forall>d\<in>set ds. decided re configs (listed (re_Env re) ?I) d" for configs vaMap ds
    unfolding updates_keep_def
  proof (intro allI impI)
    fix u v assume u: "acceptable_update (re_Env re) vaMap ds u" and v: "stored v \<subseteq> ?G"
    then obtain d where d: "d \<in> set ds" "desired_count (wa_Status u) = vd_TargetReplicas d"
        "oa_Accelerator (st_DesiredOptimizedAlloc (wa_Status u)) = vd_AcceleratorName d" "2 \<le> length (vd_AcceleratorName d)"
        "act_Applied (st_Actuation (wa_Status u))" "cr_Accelerator (st_CurrentAlloc (wa_Status u)) \<noteq> ''''"
      unfolding acceptable_update_def by blast
    have "1 \<le> vd_TargetReplicas d" using decided_min [OF _ nonneg assms(3)] that d(1) by blast
    then have "decided_status (wa_Status u)" using d by (simp add: decided_status_def)
    moreover have "stored (snd (snd (cl_UpdateVariantAutoscalingStatus ?c u v))) \<subseteq> insert ((wa_Name u, wa_Namespace u), wa_Status u) (stored v)"
      using assms(1) unfolding api_server_def by blast
    ultimately show "stored (snd (snd (cl_UpdateVariantAutoscalingStatus ?c u v))) \<subseteq> ?G" using v by auto
  qed
  have "steps_keep re outside ?I"
    unfolding steps_keep_def
  proof (intro conjI allI impI)
    show "observed (re_Env re) ?I" "patch_keeps re ?I" "condition_store (ev_Conditions (re_Env re))"
      "failed_update_keeps (cl_UpdateVariantAutoscalingStatus ?c)" using assms(1) by (simp_all add: api_server_def)
    show "stored w' \<subseteq> ?G" if "stored w \<subseteq> ?G" "outside w w'" for w w' using assms(2) that by fastforce
  qed (rule upd)
  from controller_run_invariant [OF assms(5) this] show ?thesis by (auto simp: split: prod.splits)
qed

text \<open>A run of one reconciliation, where the log of the updates is the world.\<close>

definition demo_stored :: "VariantAutoscaling list \<Rightarrow> ((string \<times> string) \<times> VariantAutoscalingStatus) set" where
  "demo_stored w = set (map (\<lambda>va. ((wa_Name va, wa_Namespace va), wa_Status va)) ([demo_current ''a'' 1, demo_current ''b'' 3] @ w))"

lemma demo_cluster_api: "api_server demo_cluster demo_stored"
proof -
  let ?c = "ev_Client (re_Env demo_cluster)"
  have "observed (re_Env demo_cluster) (\<lambda>w. demo_stored w \<subseteq> S) \<and> patch_keeps demo_cluster (\<lambda>w. demo_stored w \<subseteq> S)" for S
    by (simp add: demo_cluster_def demo_re_documented)
  moreover have "condition_store (ev_Conditions (re_Env demo_cluster)) \<and> failed_update_keeps (cl_UpdateVariantAutoscalingStatus ?c)"
    by (simp add: demo_cluster_def demo_re_documented)
  moreover have "cl_ListVariantAutoscalings ?c w = (Inr [demo_current ''a'' 1, demo_current ''b'' 3], w)"
      "cl_UpdateVariantAutoscalingStatus ?c u w = (None, u, w @ [u])" for u w
    by (simp_all add: demo_cluster_def demo_re_def demo_env_def demo_client_def)
  ultimately show ?thesis by (auto simp: api_server_def demo_stored_def)
qed

theorem never_scales_to_zero_witness:
  "\<exists>r w. controller_run demo_cluster False (\<lambda>w w'. w' = w) (loaded_cache, []) (r, w) \<and> length w = 2 \<and>
     list_all (\<lambda>va. 1 \<le> desired_count (wa_Status va)) w"
proof -
  obtain res es w where R: "Reconcile demo_cluster loaded_cache [] = Some (res, es, w)"
      "map (\<lambda>u. (wa_Name u, desired_count (wa_Status u))) w = [(''a'', 2), (''b'', 2)]"
    using demo_cluster_targets by auto
  have run: "controller_run demo_cluster False (\<lambda>w w'. w' = w) (loaded_cache, []) (loaded_cache, w)"
    by (rule controller_run.reconcile [OF controller_run.start R(1)])
  have "\<forall>(k, s)\<in>demo_stored w. (k, s) \<in> demo_stored (snd (loaded_cache, [])) \<or> s = empty_status \<or> decided_status s"
    by (rule never_scales_to_zero [OF demo_cluster_api _ _ _ run], blast)
      (simp_all add: demo_cluster_def demo_re_def demo_stored_def demo_current_def demo_va_def)
  moreover have "length w = 2" using arg_cong [OF R(2), of length] by simp
  moreover have "\<forall>va\<in>set w. desired_count (wa_Status va) = 2" using arg_cong [OF R(2), of "\<lambda>xs. snd ` set xs"] by force
  ultimately show ?thesis using run by (intro exI conjI) (auto simp: list_all_iff)
qed

end
