(* ===== verification/Spec2Isabelle.thy ===== *)
theory Spec2Isabelle
  imports Capacity_Targets Inferno_Priority Wva_Lock Wva_Ownership Wva_Run
begin

text \<open>
  A model of the workload variant autoscaler (\<^verbatim>\<open>inferno-autoscaler\<close>), a Kubernetes controller that decides how many
  replicas each variant of an inference server should have. A variant is a custom resource
  \<^verbatim>\<open>VariantAutoscaling\<close> with a deployment of the same name; the controller reads metrics of the
  pods from Prometheus, decides, writes the decision into the status of the resource and sets gauges that an
  external autoscaler follows.

  \<^bold>\<open>Parts of the program, and the theories that model them.\<close>

  \<^item> Go itself: \<^verbatim>\<open>Go_Prelude\<close> has numbers with infinities and NaN, maps as association lists (the order of the list is
    the iteration order, which the program does not control), sorting and search, formatted messages and loops that
    may panic; \<^verbatim>\<open>Go_Strconv\<close>, \<^verbatim>\<open>Go_Encoding\<close> and \<^verbatim>\<open>Go_Url\<close> have the parts of
    \<^verbatim>\<open>strconv\<close>, \<^verbatim>\<open>time\<close>, \<^verbatim>\<open>encoding/json\<close>, \<^verbatim>\<open>net/url\<close> and \<^verbatim>\<open>strings\<close> that the program uses; \<^verbatim>\<open>Go_Heap\<close> has a
    memory with pointers, maps and slices and the contract of a deep copy.

  \<^item> Capacity analysis (\<^verbatim>\<open>internal/interfaces/capacity_scaling.go\<close>, \<^verbatim>\<open>internal/capacity\<close>): \<^verbatim>\<open>Capacity_Config\<close> has the
    thresholds, \<^verbatim>\<open>Capacity_Analyzer\<close> the analysis of the replicas of a model, \<^verbatim>\<open>Capacity_Targets\<close> the targets per
    variant and the arbitration with an optimizer.

  \<^item> Queueing models (\<^verbatim>\<open>pkg/analyzer\<close>): \<^verbatim>\<open>Queue_Model\<close> has the M/M/1/K model and the model with state-dependent
    service rates, \<^verbatim>\<open>Queue_Analyzer\<close> the performance analysis and the sizing of a server.

  \<^item> Optimizer (\<^verbatim>\<open>pkg/config\<close>, \<^verbatim>\<open>pkg/core\<close>, \<^verbatim>\<open>pkg/solver\<close>, \<^verbatim>\<open>pkg/manager\<close>): \<^verbatim>\<open>Inferno_Config\<close> has the specification,
    \<^verbatim>\<open>Inferno_Core\<close> and \<^verbatim>\<open>Inferno_System\<close> the objects and the allocations, \<^verbatim>\<open>Inferno_Solver\<close> the unlimited and the
    greedy solver, \<^verbatim>\<open>Inferno_Ample\<close> the comparison of the two and \<^verbatim>\<open>Inferno_Priority\<close> the role of priorities.

  \<^item> Controller (\<^verbatim>\<open>api\<close>, \<^verbatim>\<open>internal\<close>): \<^verbatim>\<open>Wva_Api\<close> has the custom resource and \<^verbatim>\<open>Wva_Deepcopy\<close> its
    copies in memory; \<^verbatim>\<open>Wva_Client\<close> the access with retries;
    \<^verbatim>\<open>Wva_Collector\<close> and \<^verbatim>\<open>Wva_Parallel\<close> the metrics and the two query goroutines; \<^verbatim>\<open>Wva_Actuator\<close> the gauges;
    \<^verbatim>\<open>Wva_Controller\<close> the capacity path, with \<^verbatim>\<open>Wva_Decisions\<close> and \<^verbatim>\<open>Wva_Cache\<close> for its properties and
    \<^verbatim>\<open>Wva_Lock\<close> for the mutex of the configuration cache;
    \<^verbatim>\<open>Wva_Engine\<close> the adapters to the optimizer; \<^verbatim>\<open>Wva_Reconcile\<close> the reconciliation, with \<^verbatim>\<open>Wva_World\<close> and
    \<^verbatim>\<open>Wva_Model_Mode\<close> for its properties and \<^verbatim>\<open>Wva_Ownership\<close> for its pointers; \<^verbatim>\<open>Wva_Setup\<close> the connection to Prometheus and the watches;
    \<^verbatim>\<open>Wva_Main\<close> the start-up (\<^verbatim>\<open>cmd/main.go\<close>); \<^verbatim>\<open>Wva_Run\<close> the runs of the whole controller.

  Definitions have the names of the functions they model; a helper for a part of a function has a name of its own and
  says which part it is. A struct is a record with a prefix for its fields.

  \<^bold>\<open>How effects are modelled.\<close> An operation that changes an object returns it. Where sharing is the point, in the deep
  copies and the ownership patch, the memory is explicit and the theorems justify the use of values elsewhere. Goroutines
  are step relations: the two queries of the collector and the users of the configuration cache. Everything outside the program
  (API server, Prometheus, clock, file system, registry of the gauges) is an argument: a record of functions on a world
  of arbitrary type, so that each answer may depend on everything that happened before and every call may fail.
  Gauge calls are collected in order as \<^verbatim>\<open>emission\<close> values. Errors are values of a sum or an option;
  \<open>None\<close> on top of that is a panic or a computation that does not return, and theorems that an operation
  returns are stated as such. Iteration over a Go map follows the list, so a theorem for all lists
  holds for all orders.

  \<^bold>\<open>What the theorems show.\<close>

  \<^item> Analysis: its counts and averages are exact; scale-down and scale-up exclude each other; an approved scale-down does
    not flap; overload is detected; the targets are characterised exactly, do not depend on the iteration order and move one
    replica at a time; the arbitration never scales down against the analysis.

  \<^item> Queues and sizing: both models return the stationary distribution of their queue and obey Little's law, whatever
    rescaling the overflow guard does; the analysis returns; sizing returns a rate that meets its target to the precision of the
    search, or an error when the target is out of reach; an allocation carries its load with the fewest replicas.

  \<^item> Solvers: with unlimited accelerators each server gets a candidate of least value; the greedy solver returns and stays
    within the capacity under every policy, which the locale \<open>best_effort\<close> states once for all of them; with enough capacity it
    finds allocations of the same values as the unlimited solver, and lower priorities do not affect higher ones unless best effort
    is delayed.

  \<^item> Collection: the two goroutines refine the sequential program; each pod is merged once and attributed to
    the right deployment; queries identify their model; collected numbers satisfy the schema of the resource and reach the
    optimizer unchanged to half a hundredth.

  \<^item> Controller: what a reconciliation may write in any mode and under any answers; the target of the model-based mode is
    what sizing demands; a reconciliation returns; the configuration cache is valid in every reachable
    state and its operations are atomic under every interleaving; deep copies share no memory with the original, so that the
    patch of the owner reference has the right base; over all runs the desired counts stay positive; a controller that was set up has a secure and tested
    connection; the manager starts only when everything before it succeeded.

  \<^item> Errors and surprises: some theorems and lemmas describe behaviour that a reader may not expect, such as the silence
    during an outage of Prometheus, replicas that are scaled away while they start, or overrides that validation rejects.

  \<^bold>\<open>Numbers.\<close> Floating-point values are reals with two infinities and NaN; rounding is not modelled, except where the
  program prints numbers with two decimals. Overflow of \<^verbatim>\<open>float64\<close> is modelled in the state-dependent queue, where the program
  guards against it. Integers are unbounded, except for the conversions to \<^verbatim>\<open>int32\<close> and from floating-point
  numbers, which are written out, and durations, which are checked for 64 bits as the parser does.

  \<^bold>\<open>Fuel.\<close> The binary search has the iteration limit of the source, the polling loops the number of steps of their
  configuration. The loop that rescales probabilities and the round robin of the solver are partial functions with value
  \<open>None\<close> when they do not end; both are proved to end. The trimming of white space has the length of the text as fuel, which is proved to be enough.

  \<^bold>\<open>Hypotheses about other code.\<close> \<open>documented_wait\<close>: the polling loop of \<^verbatim>\<open>k8s.io/apimachinery\<close> checks its condition at most as
  often as configured and stops at the first result. \<open>condition_store\<close>: the helpers for conditions store and find them by
  type. \<open>failed_update_keeps\<close>: a failed update leaves the caller's object alone. \<open>observed\<close> and
  \<open>api_server\<close>: reads change nothing, lists return what was stored. \<open>documented_meta\<close>: the copies of the
  metadata types are deep copies. \<open>calls_on_values\<close>: setting the owner writes only to its object. Each theorem that has such a hypothesis has a witness with
  a concrete instance.

  \<^bold>\<open>Not modelled.\<close> Log output and \<^verbatim>\<open>String\<close> methods; getters, which are record selectors; the registration of
  the API group with the scheme; the JSON text of objects in log messages; the parsing of the command line, which also depends on flags of imported packages; the YAML parser, certificates and the
  HTTP transport, which are arguments; the interface declarations of \<^verbatim>\<open>internal/interfaces/interfaces.go\<close>.
\<close>

end
